(* ===== verification/Prelude.thy ===== *)
theory Prelude
  imports Main "HOL-Library.List_Lexorder" "HOL-Library.Char_ord"
begin

text \<open>
  What every component of the development shares: the ranges of the C++ integer types the
  program uses, the collections the component theories put their simplification rules into,
  and generic facts on lists (counting, delimiters, positions in a list without gaps).
\<close>

section \<open>Collections\<close>

named_theorems stream_simps \<open>how the stream operations behave on the text the program prints\<close>
named_theorems frame \<open>fields of a node an operation leaves as they are\<close>
named_theorems effect \<open>what an operation does to the fields of a node it changes\<close>

section \<open>C++ integers\<close>

text \<open>
  The program's terms, indices, ids and ports are \<open>int\<close> (32 bits, signed); its sizes are
  \<open>size_t\<close> (64 bits, unsigned). Signed overflow is undefined behaviour, so the models compute
  in \<open>int\<close> and the range is a predicate of its own.
\<close>

definition INT_MAX :: int where "INT_MAX = 2147483647"
definition INT_MIN :: int where "INT_MIN = - 2147483648"
definition SIZE_MAX :: nat where "SIZE_MAX = 18446744073709551615"

definition int_ok :: "int \<Rightarrow> bool" where
  "int_ok i \<longleftrightarrow> INT_MIN \<le> i \<and> i \<le> INT_MAX"

definition size_ok :: "nat \<Rightarrow> bool" where
  "size_ok n \<longleftrightarrow> n \<le> SIZE_MAX"

lemma int_ok_small: "0 \<le> i \<Longrightarrow> i \<le> INT_MAX \<Longrightarrow> int_ok i"
  by (simp add: int_ok_def INT_MIN_def)

lemma int_ok_numeral [simp]:
  "int_ok 0" "int_ok 1" "int_ok (- 1)"
  "int_ok (numeral n) \<longleftrightarrow> numeral n \<le> (2147483647 :: int)"
  by (simp_all add: int_ok_def INT_MIN_def INT_MAX_def)

section \<open>Lists\<close>

subsection \<open>Counting\<close>

text \<open>
  Two sub-collections of a list that together are larger than the list share an element.
\<close>

lemma filters_overlap:
  assumes "length xs < length (filter P xs) + length (filter Q xs)"
  shows "\<exists>x \<in> set xs. P x \<and> Q x"
proof (rule ccontr)
  assume "\<not> ?thesis"
  then have "length (filter P xs) + length (filter Q xs) \<le> length xs"
    by (induction xs) auto
  with assms show False by simp
qed

lemma length_filter_mono:
  "(\<And>x. x \<in> set xs \<Longrightarrow> P x \<Longrightarrow> Q x) \<Longrightarrow> length (filter P xs) \<le> length (filter Q xs)"
  by (induction xs) (auto intro: le_SucI)

lemma length_filter_cong_set:
  "(\<And>x. x \<in> set xs \<Longrightarrow> P x = Q x) \<Longrightarrow> length (filter P xs) = length (filter Q xs)"
  by (induction xs) auto

subsection \<open>Delimited lists\<close>

text \<open>
  The text protocols write each item followed by a separator after a header that ends in one;
  the readers skip the separator before each item.
\<close>

lemma concat_rotate_sep:
  "sep @ concat (map (\<lambda>x. f x @ sep) xs) = concat (map (\<lambda>x. sep @ f x) xs) @ sep"
  by (induction xs) auto

subsection \<open>Lists whose elements are numbered without gaps\<close>

text \<open>
  \<open>numbered_from f b xs\<close>: the elements of \<open>xs\<close> carry the numbers \<open>b + 1\<close>, \<open>b + 2\<close>, and so on.
\<close>

fun numbered_from :: "('a \<Rightarrow> int) \<Rightarrow> int \<Rightarrow> 'a list \<Rightarrow> bool" where
  "numbered_from f b [] = True"
| "numbered_from f b (x # xs) = (f x = b + 1 \<and> numbered_from f (b + 1) xs)"

lemma numbered_from_append [simp]:
  "numbered_from f b (xs @ ys) \<longleftrightarrow>
     numbered_from f b xs \<and> numbered_from f (b + int (length xs)) ys"
  by (induction xs arbitrary: b) (auto simp: algebra_simps)

lemma numbered_from_nth:
  "numbered_from f b xs \<Longrightarrow> i < length xs \<Longrightarrow> f (xs ! i) = b + 1 + int i"
  by (induction xs arbitrary: b i) (auto simp: nth_Cons split: nat.splits)

lemma numbered_from_last:
  "numbered_from f b xs \<Longrightarrow> xs \<noteq> [] \<Longrightarrow> f (last xs) = b + int (length xs)"
  by (cases xs rule: rev_cases) auto

lemma numbered_from_take: "numbered_from f b xs \<Longrightarrow> numbered_from f b (take n xs)"
  by (metis append_take_drop_id numbered_from_append)

lemma numbered_from_drop:
  "numbered_from f b xs \<Longrightarrow> n \<le> length xs \<Longrightarrow> numbered_from f (b + int n) (drop n xs)"
  by (metis append_take_drop_id length_take min.absorb2 numbered_from_append)

lemma numbered_from_bounds:
  "numbered_from f b xs \<Longrightarrow> x \<in> set xs \<Longrightarrow> b < f x \<and> f x \<le> b + int (length xs)"
  by (induction xs arbitrary: b) fastforce+

text \<open>
  Dropping every element up to a number is dropping a prefix; this is what compaction does.
\<close>

lemma numbered_from_filter:
  assumes "numbered_from f b xs" and "b \<le> u"
  shows "filter (\<lambda>x. u < f x) xs = drop (nat (u - b)) xs"
  using assms
proof (induction xs arbitrary: b)
  case Nil
  then show ?case by simp
next
  case (Cons x xs)
  show ?case
  proof (cases "b = u")
    case True
    have "u < f y" if "y \<in> set (x # xs)" for y
      using numbered_from_bounds [OF Cons.prems(1) that] True by simp
    then have "filter (\<lambda>x. u < f x) (x # xs) = x # xs"
      by (intro filter_True) blast
    with True show ?thesis by simp
  next
    case False
    with Cons.prems have b: "b + 1 \<le> u" and n: "numbered_from f (b + 1) xs" and "f x = b + 1"
      by auto
    moreover have "nat (u - b) = Suc (nat (u - (b + 1)))"
      using b by simp
    ultimately show ?thesis
      using Cons.IH [OF n b] by simp
  qed
qed

end
