(* ===== verification/Text_Streams.thy ===== *)
theory Text_Streams
  imports Prelude
begin

text \<open>
  The part of the C++ stream library that the text protocols and the state file are written
  with: an input stream over a string with its \<open>eofbit\<close> and \<open>failbit\<close>, formatted extraction
  (\<open>>>\<close>) into \<open>int\<close>, \<open>size_t\<close> and \<open>std::string\<close>, \<open>std::getline\<close>, and decimal output
  (\<open><<\<close>). The locale \<open>stream_codec\<close> is the contract between a writer and a reader: what was
  written, after white space and before a delimiter, is read back, and nothing more is consumed.
\<close>

section \<open>Input streams\<close>

record istream =
  is_rest :: string
  is_eof :: bool
  is_fail :: bool

definition istringstream :: "string \<Rightarrow> istream" where
  "istringstream s = \<lparr>is_rest = s, is_eof = False, is_fail = False\<rparr>"

definition is_good :: "istream \<Rightarrow> bool" where
  "is_good s \<longleftrightarrow> \<not> is_eof s \<and> \<not> is_fail s"

text \<open>\<open>std::isspace\<close> in the C locale.\<close>

definition isspace :: "char \<Rightarrow> bool" where
  "isspace c \<longleftrightarrow> c \<in> set [CHR 0x20, CHR 0x09, CHR 0x0A, CHR 0x0B, CHR 0x0C, CHR 0x0D]"

text \<open>
  The sentry of a formatted extraction: a stream that is not good only gets its failbit set;
  otherwise leading white space is skipped, and a stream that ends there fails.
\<close>

definition stream_sentry :: "istream \<Rightarrow> bool \<times> istream" where
  "stream_sentry s =
     (if \<not> is_good s then (False, s\<lparr>is_fail := True\<rparr>)
      else let r = dropWhile isspace (is_rest s) in
        if r = [] then (False, s\<lparr>is_rest := [], is_eof := True, is_fail := True\<rparr>)
        else (True, s\<lparr>is_rest := r\<rparr>))"

text \<open>
  Each extraction takes the old value of the variable it reads into: where the sentry fails, the
  variable keeps it.
\<close>

definition read_string :: "string \<Rightarrow> istream \<Rightarrow> string \<times> istream" where
  "read_string old s =
     (case stream_sentry s of
        (False, s') \<Rightarrow> (old, s')
      | (True, s') \<Rightarrow>
          let r = dropWhile (\<lambda>c. \<not> isspace c) (is_rest s') in
          (takeWhile (\<lambda>c. \<not> isspace c) (is_rest s'), s'\<lparr>is_rest := r, is_eof := (r = [])\<rparr>))"

definition is_digit :: "char \<Rightarrow> bool" where
  "is_digit c \<longleftrightarrow> c \<in> set ''0123456789''"

definition digit_val :: "char \<Rightarrow> nat" where
  "digit_val c = of_char c - 48"

definition digits_val :: "string \<Rightarrow> nat" where
  "digits_val cs = foldl (\<lambda>a c. 10 * a + digit_val c) 0 cs"

text \<open>The optional sign and the digits a number extraction accumulates, and what is left.\<close>

definition scan_number :: "string \<Rightarrow> bool \<times> string \<times> string" where
  "scan_number r =
     (let neg = (r \<noteq> [] \<and> hd r = CHR ''-'');
          r' = (if r \<noteq> [] \<and> (hd r = CHR ''-'' \<or> hd r = CHR ''+'') then tl r else r)
      in (neg, takeWhile is_digit r', dropWhile is_digit r'))"

text \<open>
  A number without digits is 0 and fails; one out of range is the nearest representable value
  and fails.
\<close>

definition read_int :: "int \<Rightarrow> istream \<Rightarrow> int \<times> istream" where
  "read_int old s =
     (case stream_sentry s of
        (False, s') \<Rightarrow> (old, s')
      | (True, s') \<Rightarrow>
          (case scan_number (is_rest s') of (neg, ds, r) \<Rightarrow>
             let s'' = s'\<lparr>is_rest := r, is_eof := (r = [])\<rparr>;
                 v = (if neg then - int (digits_val ds) else int (digits_val ds))
             in if ds = [] then (0, s''\<lparr>is_fail := True\<rparr>)
                else if v < INT_MIN then (INT_MIN, s''\<lparr>is_fail := True\<rparr>)
                else if INT_MAX < v then (INT_MAX, s''\<lparr>is_fail := True\<rparr>)
                else (v, s'')))"

text \<open>Extraction into an unsigned type accepts a sign and negates modulo \<open>2 ^ 64\<close>.\<close>

definition read_size :: "nat \<Rightarrow> istream \<Rightarrow> nat \<times> istream" where
  "read_size old s =
     (case stream_sentry s of
        (False, s') \<Rightarrow> (old, s')
      | (True, s') \<Rightarrow>
          (case scan_number (is_rest s') of (neg, ds, r) \<Rightarrow>
             let s'' = s'\<lparr>is_rest := r, is_eof := (r = [])\<rparr>;
                 v = digits_val ds
             in if ds = [] then (0, s''\<lparr>is_fail := True\<rparr>)
                else if SIZE_MAX < v then (SIZE_MAX, s''\<lparr>is_fail := True\<rparr>)
                else ((if neg \<and> 0 < v then SIZE_MAX + 1 - v else v), s'')))"

text \<open>\<open>std::getline\<close>: no white space is skipped; the newline is consumed and dropped.\<close>

definition stream_getline :: "string \<Rightarrow> istream \<Rightarrow> string \<times> istream" where
  "stream_getline old s =
     (if \<not> is_good s then (old, s\<lparr>is_fail := True\<rparr>)
      else if is_rest s = [] then ([], s\<lparr>is_eof := True, is_fail := True\<rparr>)
      else let l = takeWhile (\<lambda>c. c \<noteq> CHR 0x0A) (is_rest s);
               r = dropWhile (\<lambda>c. c \<noteq> CHR 0x0A) (is_rest s)
           in if r = [] then (l, s\<lparr>is_rest := [], is_eof := True\<rparr>)
              else (l, s\<lparr>is_rest := tl r\<rparr>))"

text \<open>
  The loops \<open>for (i = 0; i < n; i++) { read an item; if (fail) return false; push_back }\<close>:
  \<open>None\<close> is the early return.
\<close>

fun read_n :: "nat \<Rightarrow> (istream \<Rightarrow> ('a \<times> istream) option) \<Rightarrow> istream \<Rightarrow> ('a list \<times> istream) option"
  where
  "read_n 0 get s = Some ([], s)"
| "read_n (Suc n) get s =
     (case get s of
        None \<Rightarrow> None
      | Some (x, s') \<Rightarrow>
          (case read_n n get s' of
             None \<Rightarrow> None
           | Some (xs, s'') \<Rightarrow> Some (x # xs, s'')))"

section \<open>Decimal output\<close>

definition digit_char :: "nat \<Rightarrow> char" where
  "digit_char d = ''0123456789'' ! d"

fun show_nat :: "nat \<Rightarrow> string" where
  "show_nat n = (if n < 10 then [digit_char n] else show_nat (n div 10) @ [digit_char (n mod 10)])"

declare show_nat.simps [simp del]

definition show_int :: "int \<Rightarrow> string" where
  "show_int i = (if i < 0 then CHR ''-'' # show_nat (nat (- i)) else show_nat (nat i))"

text \<open>For evaluation: the digits of a number in binary.\<close>

fun show_pos :: "int \<Rightarrow> string" where
  "show_pos i = (if i < 10 then [digit_char (nat i)] else show_pos (i div 10) @ [digit_char (nat (i mod 10))])"

declare show_pos.simps [simp del]

lemma show_nat_pos: "0 \<le> i \<Longrightarrow> show_nat (nat i) = show_pos i"
proof (induction i rule: show_pos.induct)
  case (1 i)
  have "nat i < 10 \<longleftrightarrow> i < 10" by linarith
  with 1 show ?case
    by (subst show_nat.simps, subst show_pos.simps)
      (simp add: nat_div_distrib nat_mod_distrib del: show_nat.simps)
qed

lemma show_code [code]:
  "show_int i = (if i < 0 then CHR ''-'' # show_pos (- i) else show_pos i)"
  "show_nat n = show_pos (int n)"
  using show_nat_pos [of "int n"] by (simp_all add: show_int_def show_nat_pos del: show_nat.simps)

section \<open>Facts\<close>

lemma isspace_simps [simp]: "isspace (CHR 0x20)" "isspace (CHR 0x0A)" "\<not> isspace (CHR ''-'')"
  by (simp_all add: isspace_def)

lemma digit_table:
  "\<forall>d \<in> set [0..<10]. is_digit (digit_char d) \<and> digit_val (digit_char d) = d"
  by code_simp

lemma digit_char_facts:
  assumes "d < 10"
  shows "is_digit (digit_char d)" and "digit_val (digit_char d) = d"
  using digit_table assms by auto

lemma digit_not_space: "is_digit c \<Longrightarrow> \<not> isspace c"
  by (auto simp: is_digit_def isspace_def)

lemma digit_not_sign: "is_digit c \<Longrightarrow> c \<noteq> CHR ''-'' \<and> c \<noteq> CHR ''+''"
  by (auto simp: is_digit_def)

lemma digits_val_snoc: "digits_val (cs @ [c]) = 10 * digits_val cs + digit_val c"
  by (simp add: digits_val_def)

lemma show_nat_digits: "\<forall>c \<in> set (show_nat n). is_digit c"
proof (induction n rule: show_nat.induct)
  case (1 n)
  then show ?case
    by (subst show_nat.simps) (auto simp: digit_char_facts)
qed

lemma digits_val_show_nat: "digits_val (show_nat n) = n"
proof (induction n rule: show_nat.induct)
  case (1 n)
  show ?case
  proof (cases "n < 10")
    case True
    then show ?thesis
      by (subst show_nat.simps) (simp add: digits_val_def digit_char_facts)
  next
    case False
    with 1 show ?thesis
      by (subst show_nat.simps) (simp add: digits_val_snoc digit_char_facts)
  qed
qed

lemma show_nat_nonempty [simp]: "show_nat n \<noteq> []"
  by (subst show_nat.simps) simp

lemma show_int_nonempty [simp]: "show_int i \<noteq> []"
  by (simp add: show_int_def)

lemma show_nat_hd: "is_digit (hd (show_nat n))"
  using show_nat_digits hd_in_set [OF show_nat_nonempty] by blast

lemma show_int_no_space: "c \<in> set (show_int i) \<Longrightarrow> \<not> isspace c"
  by (auto simp: show_int_def split: if_splits dest: bspec [OF show_nat_digits] digit_not_space)

lemma show_nat_no_space: "c \<in> set (show_nat n) \<Longrightarrow> \<not> isspace c"
  using show_nat_digits digit_not_space by blast

lemma show_hd_no_space: "\<not> isspace (hd (show_int i))" "\<not> isspace (hd (show_nat n))"
  using show_int_no_space hd_in_set [OF show_int_nonempty]
    show_nat_no_space hd_in_set [OF show_nat_nonempty] by blast+

subsection \<open>Streams between two items\<close>

text \<open>
  \<open>stream_at r\<close> is a stream about to read \<open>r\<close>; \<open>stream_after r\<close> is a stream that has just read
  an item before \<open>r\<close>, so that the end of \<open>r\<close>, if reached, has set the eofbit.
\<close>

definition stream_at :: "string \<Rightarrow> istream" where
  "stream_at r = \<lparr>is_rest = r, is_eof = False, is_fail = False\<rparr>"

definition stream_after :: "string \<Rightarrow> istream" where
  "stream_after r = \<lparr>is_rest = r, is_eof = (r = []), is_fail = False\<rparr>"

definition delimited :: "string \<Rightarrow> bool" where
  "delimited r \<longleftrightarrow> r = [] \<or> isspace (hd r)"

definition tokenp :: "string \<Rightarrow> bool" where
  "tokenp t \<longleftrightarrow> t \<noteq> [] \<and> (\<forall>c \<in> set t. \<not> isspace c)"

lemma istringstream_eq [stream_simps]: "istringstream r = stream_at r"
  by (simp add: istringstream_def stream_at_def)

lemma delimited_simps [simp]: "delimited []" "delimited (c # r) \<longleftrightarrow> isspace c"
  by (simp_all add: delimited_def)

lemma stream_after_Cons [simp]: "stream_after (c # r) = stream_at (c # r)"
  by (simp add: stream_after_def stream_at_def)

lemma stream_after_nonempty: "r \<noteq> [] \<Longrightarrow> stream_after r = stream_at r"
  by (simp add: stream_after_def stream_at_def)

lemma stream_sel [simp]:
  "is_fail (stream_after r) = False" "is_fail (stream_at r) = False"
  "is_rest (stream_after r) = r" "is_rest (stream_at r) = r"
  by (simp_all add: stream_after_def stream_at_def)

lemma stream_at_consume [simp]:
  "(stream_at x)\<lparr>is_rest := r, is_eof := (r = [])\<rparr> = stream_after r"
  by (simp add: stream_at_def stream_after_def)

lemma sentry_token:
  assumes "\<forall>c \<in> set sp. isspace c" and "t \<noteq> []" and "\<not> isspace (hd t)"
  shows "stream_sentry (stream_at (sp @ t @ r)) = (True, stream_at (t @ r))"
proof -
  have "dropWhile isspace (sp @ t @ r) = dropWhile isspace (t @ r)"
    using assms(1) by (simp add: dropWhile_append2)
  also have "\<dots> = t @ r"
    using assms(2,3) by (cases t) auto
  finally show ?thesis
    using assms(2) by (simp add: stream_sentry_def is_good_def stream_at_def)
qed

lemma takeWhile_token:
  assumes "\<forall>c \<in> set t. P c" and "r = [] \<or> \<not> P (hd r)"
  shows "takeWhile P (t @ r) = t" and "dropWhile P (t @ r) = r"
  using assms by (auto simp: takeWhile_append2 dropWhile_append2 takeWhile_eq_Nil_iff)
    (cases r; simp)+

lemma delimited_not_digit: "delimited r \<Longrightarrow> r = [] \<or> \<not> is_digit (hd r)"
  using digit_not_space by (auto simp: delimited_def)

lemma scan_show_nat:
  "delimited r \<Longrightarrow> scan_number (show_nat n @ r) = (False, show_nat n, r)"
  using takeWhile_token [OF show_nat_digits delimited_not_digit]
    digit_not_sign [OF show_nat_hd [of n]]
  by (simp add: scan_number_def)

lemma scan_show_int:
  "delimited r \<Longrightarrow> scan_number (show_int i @ r) = (i < 0, show_nat (nat \<bar>i\<bar>), r)"
  using takeWhile_token [OF show_nat_digits delimited_not_digit] scan_show_nat [of r "nat i"]
  by (auto simp: show_int_def scan_number_def Let_def)

section \<open>The codec contract\<close>

text \<open>
  A writer \<open>put\<close> and a reader \<open>get\<close> agree on the values \<open>ok\<close>. The client is every list and
  every message that is made of such items.
\<close>

locale stream_codec =
  fixes put :: "'a \<Rightarrow> string"
    and get :: "istream \<Rightarrow> ('a \<times> istream) option"
    and ok :: "'a \<Rightarrow> bool"
  assumes get_put: "ok x \<Longrightarrow> \<forall>c \<in> set sp. isspace c \<Longrightarrow> delimited r \<Longrightarrow>
    get (stream_at (sp @ put x @ r)) = Some (x, stream_after r)"
begin

lemma get_put_sep:
  assumes "ok x" and "\<forall>c \<in> set sep. isspace c" and "sep \<noteq> []" and "delimited r"
  shows "get (stream_after (sep @ put x @ r)) = Some (x, stream_after r)"
  using get_put [OF assms(1,2,4)] assms(3) by (simp add: stream_after_nonempty)

lemma get_put_char:
  assumes "ok x" and "isspace c"
  shows "delimited r \<Longrightarrow> get (stream_at (c # put x @ r)) = Some (x, stream_after r)"
    and "get (stream_at (c # put x)) = Some (x, stream_after [])"
  using get_put [OF assms(1), of "[c]"] get_put [OF assms(1), of "[c]" "[]"] assms(2) by simp_all

lemma get_put_first:
  assumes "ok x"
  shows "delimited r \<Longrightarrow> get (stream_at (put x @ r)) = Some (x, stream_after r)"
    and "get (stream_at (put x)) = Some (x, stream_after [])"
  using get_put [OF assms, of "[]"] get_put [OF assms, of "[]" "[]"] by simp_all

lemma read_n_put:
  assumes "\<forall>x \<in> set xs. ok x" and "\<forall>c \<in> set sep. isspace c" and "sep \<noteq> []" and "delimited r"
  shows "read_n (length xs) get (stream_after (concat (map (\<lambda>x. sep @ put x) xs) @ r)) =
    Some (xs, stream_after r)"
  using assms(1)
proof (induction xs)
  case Nil
  then show ?case by simp
next
  case (Cons x xs)
  let ?r = "concat (map (\<lambda>x. sep @ put x) xs) @ r"
  have "isspace (hd sep)"
    using assms(2,3) hd_in_set by blast
  then have "delimited ?r"
    using assms(3,4) by (cases xs) (auto simp: delimited_def)
  then have "get (stream_after (sep @ put x @ ?r)) = Some (x, stream_after ?r)"
    using Cons.prems assms(2,3) by (intro get_put_sep) auto
  with Cons show ?case by simp
qed

text \<open>The shape the messages have: a header that ends in the separator, then item, separator.\<close>

lemma read_n_put_lines:
  assumes "\<forall>x \<in> set xs. ok x" and "\<forall>c \<in> set sep. isspace c" and "sep \<noteq> []"
  shows "read_n (length xs) get (stream_after (sep @ concat (map (\<lambda>x. put x @ sep) xs))) =
    Some (xs, stream_after sep)"
proof -
  have "delimited sep"
    using assms(2,3) hd_in_set by (auto simp: delimited_def)
  with read_n_put [OF assms this] show ?thesis
    by (simp add: concat_rotate_sep)
qed

end

text \<open>The three kinds of item the protocols are made of.\<close>

lemma read_int_put:
  assumes "int_ok i" and "\<forall>c \<in> set sp. isspace c" and "delimited r"
  shows "read_int old (stream_at (sp @ show_int i @ r)) = (i, stream_after r)"
proof -
  show ?thesis
    using assms show_hd_no_space
    by (auto simp: read_int_def sentry_token scan_show_int digits_val_show_nat Let_def int_ok_def)
qed

lemma read_size_put:
  assumes "size_ok n" and "\<forall>c \<in> set sp. isspace c" and "delimited r"
  shows "read_size old (stream_at (sp @ show_nat n @ r)) = (n, stream_after r)"
proof -
  show ?thesis
    using assms show_hd_no_space
    by (auto simp: read_size_def sentry_token scan_show_nat digits_val_show_nat Let_def size_ok_def)
qed

lemma read_string_put:
  assumes "tokenp t" and "\<forall>c \<in> set sp. isspace c" and "delimited r"
  shows "read_string old (stream_at (sp @ t @ r)) = (t, stream_after r)"
proof -
  have "takeWhile (\<lambda>c. \<not> isspace c) (t @ r) = t" "dropWhile (\<lambda>c. \<not> isspace c) (t @ r) = r"
    using assms(1,3) takeWhile_token [of t "\<lambda>c. \<not> isspace c" r]
    by (auto simp: tokenp_def delimited_def)
  moreover have "t \<noteq> []" "\<not> isspace (hd t)"
    using assms(1) by (auto simp: tokenp_def)
  ultimately show ?thesis
    using sentry_token [OF assms(2), of t r]
    by (simp add: read_string_def Let_def del: dropWhile_eq_Nil_conv)
qed

interpretation int_codec: stream_codec show_int "\<lambda>s. Some (read_int old s)" int_ok for old
  by unfold_locales (simp add: read_int_put)

interpretation size_codec: stream_codec show_nat "\<lambda>s. Some (read_size old s)" size_ok for old
  by unfold_locales (simp add: read_size_put)

interpretation string_codec: stream_codec "\<lambda>t. t" "\<lambda>s. Some (read_string old s)" tokenp for old
  by unfold_locales (simp add: read_string_put)

text \<open>One white-space character, then an item: the form the simplifier meets.\<close>

lemma read_sep [stream_simps]:
  "isspace c \<Longrightarrow> int_ok i \<Longrightarrow> delimited r \<Longrightarrow>
     read_int old1 (stream_at (c # show_int i @ r)) = (i, stream_after r)"
  "isspace c \<Longrightarrow> int_ok i \<Longrightarrow> read_int old1 (stream_at (c # show_int i)) = (i, stream_after [])"
  "isspace c \<Longrightarrow> size_ok n \<Longrightarrow> delimited r \<Longrightarrow>
     read_size old2 (stream_at (c # show_nat n @ r)) = (n, stream_after r)"
  "isspace c \<Longrightarrow> size_ok n \<Longrightarrow> read_size old2 (stream_at (c # show_nat n)) = (n, stream_after [])"
  "isspace c \<Longrightarrow> tokenp t \<Longrightarrow> delimited r \<Longrightarrow>
     read_string old3 (stream_at (c # t @ r)) = (t, stream_after r)"
  "isspace c \<Longrightarrow> tokenp t \<Longrightarrow> read_string old3 (stream_at (c # t)) = (t, stream_after [])"
  using read_int_put [of i "[c]" r old1] read_int_put [of i "[c]" "[]" old1]
    read_size_put [of n "[c]" r old2] read_size_put [of n "[c]" "[]" old2]
    read_string_put [of t "[c]" r old3] read_string_put [of t "[c]" "[]" old3]
  by simp_all

lemma read_first [stream_simps]:
  "int_ok i \<Longrightarrow> delimited r \<Longrightarrow> read_int old1 (stream_at (show_int i @ r)) = (i, stream_after r)"
  "size_ok n \<Longrightarrow> delimited r \<Longrightarrow> read_size old2 (stream_at (show_nat n @ r)) = (n, stream_after r)"
  "tokenp t \<Longrightarrow> delimited r \<Longrightarrow> read_string old3 (stream_at (t @ r)) = (t, stream_after r)"
  "tokenp t \<Longrightarrow> read_string old3 (stream_at t) = (t, stream_after [])"
  using read_int_put [of i "[]" r old1] read_size_put [of n "[]" r old2]
    read_string_put [of t "[]" r old3] read_string_put [of t "[]" "[]" old3]
  by simp_all

text \<open>
  A reader that is out of input or has failed fails again and leaves its variable alone.
\<close>

lemma read_exhausted:
  assumes "\<not> is_good s"
  shows "read_string old1 s = (old1, s\<lparr>is_fail := True\<rparr>)"
    and "read_int old2 s = (old2, s\<lparr>is_fail := True\<rparr>)"
    and "read_size old3 s = (old3, s\<lparr>is_fail := True\<rparr>)"
  using assms by (simp_all add: read_string_def read_int_def read_size_def stream_sentry_def)

lemma read_int_range: "int_ok old \<Longrightarrow> int_ok (fst (read_int old s))"
  by (auto simp: read_int_def Let_def int_ok_def INT_MIN_def INT_MAX_def
      split: prod.splits bool.splits)

end
