(* ===== verification/Raft_Types.thy ===== *)
theory Raft_Types
  imports Text_Streams
begin

text \<open>
  The types of \<open>src/src/common/types.h\<close>, and the text form of peers, configurations and log
  entries, which the AppendEntries message and the state file share. The codecs of this theory
  are interpretations of \<open>stream_codec\<close>.
\<close>

section \<open>Enumerations\<close>

text \<open>
  \<open>CommandType\<close> is an \<open>enum class\<close> over \<open>int\<close>: \<open>static_cast\<close> from a received integer can give a
  value that has no enumerator, which is \<open>UNNAMED\<close>.
\<close>

datatype CommandType = PUT | GET | DEL | NONE | CONFIG_JOINT | CONFIG_NEW | UNNAMED int

fun int_of_op :: "CommandType \<Rightarrow> int" where
  "int_of_op PUT = 0"
| "int_of_op GET = 1"
| "int_of_op DEL = 2"
| "int_of_op NONE = 3"
| "int_of_op CONFIG_JOINT = 4"
| "int_of_op CONFIG_NEW = 5"
| "int_of_op (UNNAMED i) = i"

definition op_of_int :: "int \<Rightarrow> CommandType" where
  "op_of_int i =
     (if i = 0 then PUT else if i = 1 then GET else if i = 2 then DEL else if i = 3 then NONE
      else if i = 4 then CONFIG_JOINT else if i = 5 then CONFIG_NEW else UNNAMED i)"

definition op_named :: "CommandType \<Rightarrow> bool" where
  "op_named c \<longleftrightarrow> 0 \<le> int_of_op c \<and> int_of_op c \<le> 5 \<and> c = op_of_int (int_of_op c)"

definition is_config_op :: "CommandType \<Rightarrow> bool" where
  "is_config_op c \<longleftrightarrow> c = CONFIG_JOINT \<or> c = CONFIG_NEW"

datatype NodeState = FOLLOWER | CANDIDATE | LEADER

datatype ReadResult = READ_OK | NO_KEY | NOT_LEADER | READ_FAIL

datatype ConfigState = STABLE | JOINT

section \<open>Structures\<close>

record PeerInfo =
  pi_id :: int
  pi_ip :: string
  pi_port :: int

definition PeerInfo_default :: PeerInfo where
  "PeerInfo_default = \<lparr>pi_id = -1, pi_ip = [], pi_port = 0\<rparr>"

record LogEntry =
  le_term :: int
  le_index :: int
  le_op :: CommandType
  le_key :: string
  le_value :: string
  le_oldConfig :: "PeerInfo list"
  le_newConfig :: "PeerInfo list"

definition LogEntry_default :: LogEntry where
  "LogEntry_default = \<lparr>le_term = 0, le_index = 0, le_op = NONE, le_key = [], le_value = [],
     le_oldConfig = [], le_newConfig = []\<rparr>"

definition mk_LogEntry :: "int \<Rightarrow> int \<Rightarrow> CommandType \<Rightarrow> string \<Rightarrow> string \<Rightarrow> LogEntry" where
  "mk_LogEntry t i cmd k v = \<lparr>le_term = t, le_index = i, le_op = cmd, le_key = k, le_value = v,
     le_oldConfig = [], le_newConfig = []\<rparr>"

record RequestVoteArgs =
  rv_term :: int
  rv_candidateId :: int
  rv_lastLogIndex :: int
  rv_lastLogTerm :: int

record RequestVoteReply =
  rvr_term :: int
  rvr_voteGranted :: bool

record AppendEntriesArgs =
  ae_term :: int
  ae_leaderId :: int
  ae_prevLogIndex :: int
  ae_prevLogTerm :: int
  ae_entries :: "LogEntry list"
  ae_leaderCommit :: int

record AppendEntriesReply =
  aer_term :: int
  aer_success :: bool

text \<open>\<open>std::map<std::string, std::string>\<close> is an association list in the order of its keys.\<close>

type_synonym str_map = "(string \<times> string) list"

record InstallSnapshotArgs =
  sn_term :: int
  sn_leaderId :: int
  sn_lastIncludedIndex :: int
  sn_lastIncludedTerm :: int
  sn_kvData :: str_map

record InstallSnapshotReply =
  isr_term :: int

record ClusterConfig =
  cfg_nodes :: "PeerInfo list"

definition cfg_contains :: "ClusterConfig \<Rightarrow> int \<Rightarrow> bool" where
  "cfg_contains cfg nodeId \<longleftrightarrow> list_ex (\<lambda>n. pi_id n = nodeId) (cfg_nodes cfg)"

definition cfg_size :: "ClusterConfig \<Rightarrow> int" where
  "cfg_size cfg = int (length (cfg_nodes cfg))"

lemma cfg_contains_iff: "cfg_contains cfg i \<longleftrightarrow> i \<in> pi_id ` set (cfg_nodes cfg)"
  by (auto simp: cfg_contains_def list_ex_iff)

section \<open>The operations of the string map\<close>

text \<open>\<open>m[k] = v\<close>.\<close>

fun smap_set :: "string \<Rightarrow> string \<Rightarrow> str_map \<Rightarrow> str_map" where
  "smap_set k v [] = [(k, v)]"
| "smap_set k v ((k', v') # m) =
     (if k < k' then (k, v) # (k', v') # m
      else if k = k' then (k, v) # m
      else (k', v') # smap_set k v m)"

definition smap_ok :: "str_map \<Rightarrow> bool" where
  "smap_ok m \<longleftrightarrow> sorted_wrt (<) (map fst m)"

lemma smap_set_keys: "fst ` set (smap_set k v m) = insert k (fst ` set m)"
  by (induction k v m rule: smap_set.induct) auto

lemma smap_ok_set: "smap_ok m \<Longrightarrow> smap_ok (smap_set k v m)"
proof (induction k v m rule: smap_set.induct)
  case (1 k v)
  then show ?case by (simp add: smap_ok_def)
next
  case (2 k v k' v' m)
  have "\<forall>x \<in> fst ` set (smap_set k v m). k' < x" if "k' < k"
    using 2(2) that by (auto simp: smap_set_keys smap_ok_def)
  with 2 show ?case by (auto simp: smap_ok_def dest: less_trans)
qed

lemma smap_lookup_set: "smap_ok m \<Longrightarrow> map_of (smap_set k v m) = (map_of m)(k \<mapsto> v)"
  by (induction k v m rule: smap_set.induct) (auto simp: smap_ok_def fun_eq_iff)

text \<open>Setting the largest key appends: the maps the program writes out are read back in order.\<close>

lemma smap_set_last: "(\<And>x. x \<in> fst ` set m \<Longrightarrow> x < k) \<Longrightarrow> smap_set k v m = m @ [(k, v)]"
  by (induction k v m rule: smap_set.induct) (auto dest: less_asym)

lemma smap_rebuild_aux:
  "smap_ok (acc @ m) \<Longrightarrow> foldl (\<lambda>a (k, v). smap_set k v a) acc m = acc @ m"
proof (induction m arbitrary: acc)
  case Nil
  then show ?case by simp
next
  case (Cons kv m)
  obtain k v where kv: "kv = (k, v)" by (cases kv)
  from Cons.prems kv have "smap_set k v acc = acc @ [(k, v)]"
    by (intro smap_set_last) (auto simp: smap_ok_def sorted_wrt_append)
  with Cons kv show ?case by simp
qed

lemma smap_rebuild: "smap_ok m \<Longrightarrow> foldl (\<lambda>a (k, v). smap_set k v a) [] m = m"
  using smap_rebuild_aux [of "[]" m] by simp

section \<open>The position a log ends at\<close>

text \<open>
  Raft compares logs by the term of the last entry, then by its index. The order is the
  library's: positions are an instance of \<open>linorder\<close>.
\<close>

datatype log_pos = LogPos (lp_term: int) (lp_index: int)

instantiation log_pos :: linorder
begin

definition less_eq_log_pos :: "log_pos \<Rightarrow> log_pos \<Rightarrow> bool" where
  "less_eq_log_pos p q \<longleftrightarrow>
     lp_term p < lp_term q \<or> lp_term p = lp_term q \<and> lp_index p \<le> lp_index q"

definition less_log_pos :: "log_pos \<Rightarrow> log_pos \<Rightarrow> bool" where
  "less_log_pos p q \<longleftrightarrow>
     lp_term p < lp_term q \<or> lp_term p = lp_term q \<and> lp_index p < lp_index q"

instance
  by standard (auto simp: less_eq_log_pos_def less_log_pos_def log_pos.expand)

end

section \<open>Text form of configurations and log entries\<close>

definition show_peer :: "PeerInfo \<Rightarrow> string" where
  "show_peer n = show_int (pi_id n) @ '' '' @ pi_ip n @ '' '' @ show_int (pi_port n)"

definition encodeConfig :: "PeerInfo list \<Rightarrow> string" where
  "encodeConfig nodes =
     show_nat (length nodes) @ concat (map (\<lambda>n. '' '' @ show_peer n) nodes)"

definition read_peer :: "istream \<Rightarrow> PeerInfo \<times> istream" where
  "read_peer s =
     (let (i, s1) = read_int (pi_id PeerInfo_default) s;
          (ip, s2) = read_string (pi_ip PeerInfo_default) s1;
          (port, s3) = read_int (pi_port PeerInfo_default) s2
      in (\<lparr>pi_id = i, pi_ip = ip, pi_port = port\<rparr>, s3))"

text \<open>The loop of \<open>decodeConfig\<close> pushes one peer per round, whatever the state of the stream.\<close>

fun read_peers :: "nat \<Rightarrow> istream \<Rightarrow> PeerInfo list \<times> istream" where
  "read_peers 0 s = ([], s)"
| "read_peers (Suc n) s =
     (let (p, s') = read_peer s; (ps, s'') = read_peers n s' in (p # ps, s''))"

definition decodeConfig :: "istream \<Rightarrow> PeerInfo list \<times> istream" where
  "decodeConfig s = (let (count, s') = read_size 0 s in read_peers count s')"

definition show_entry :: "LogEntry \<Rightarrow> string" where
  "show_entry e =
     show_int (le_index e) @ '' '' @ show_int (le_term e) @ '' '' @
     show_int (int_of_op (le_op e)) @ '' '' @ le_key e @ '' '' @ le_value e @ '' '' @
     encodeConfig (le_oldConfig e) @ '' '' @ encodeConfig (le_newConfig e)"

definition read_entry :: "istream \<Rightarrow> (LogEntry \<times> istream) option" where
  "read_entry s =
     (let (index, s1) = read_int (le_index LogEntry_default) s;
          (trm, s2) = read_int (le_term LogEntry_default) s1;
          (opInt, s3) = read_int 0 s2;
          (key, s4) = read_string (le_key LogEntry_default) s3;
          (val, s5) = read_string (le_value LogEntry_default) s4
      in if is_fail s5 then None
         else let (oc, s6) = decodeConfig s5; (nc, s7) = decodeConfig s6
              in Some (\<lparr>le_term = trm, le_index = index, le_op = op_of_int opInt, le_key = key,
                        le_value = val, le_oldConfig = oc, le_newConfig = nc\<rparr>, s7))"

subsection \<open>What can be written and read back\<close>

definition peer_ok :: "PeerInfo \<Rightarrow> bool" where
  "peer_ok n \<longleftrightarrow> int_ok (pi_id n) \<and> tokenp (pi_ip n) \<and> int_ok (pi_port n)"

definition config_ok :: "PeerInfo list \<Rightarrow> bool" where
  "config_ok ns \<longleftrightarrow> size_ok (length ns) \<and> (\<forall>n \<in> set ns. peer_ok n)"

definition entry_ok :: "LogEntry \<Rightarrow> bool" where
  "entry_ok e \<longleftrightarrow> int_ok (le_index e) \<and> int_ok (le_term e) \<and> op_named (le_op e) \<and>
     tokenp (le_key e) \<and> tokenp (le_value e) \<and>
     config_ok (le_oldConfig e) \<and> config_ok (le_newConfig e)"

subsection \<open>Facts\<close>

lemma op_of_int_of_op: "op_named c \<Longrightarrow> op_of_int (int_of_op c) = c"
  by (simp add: op_named_def)

lemma op_named_cases: "op_named c \<longleftrightarrow> c \<in> {PUT, GET, DEL, NONE, CONFIG_JOINT, CONFIG_NEW}"
  by (cases c) (auto simp: op_named_def op_of_int_def)

lemma op_named_int: "op_named c \<Longrightarrow> int_ok (int_of_op c)"
  by (cases c) (auto simp: op_named_cases)

interpretation peer_codec: stream_codec show_peer "\<lambda>s. Some (read_peer s)" peer_ok
proof unfold_locales
  fix n :: PeerInfo and sp r
  assume n: "peer_ok n" and sp: "\<forall>c \<in> set sp. isspace c" and r: "delimited r"
  have "read_int old (stream_at (sp @ show_int (pi_id n) @ CHR '' '' # r')) =
      (pi_id n, stream_at (CHR '' '' # r'))" for old r'
    using read_int_put [of "pi_id n" sp "CHR '' '' # r'"] n sp by (simp add: peer_ok_def)
  with n r show "Some (read_peer (stream_at (sp @ show_peer n @ r))) = Some (n, stream_after r)"
    by (simp add: read_peer_def show_peer_def stream_simps peer_ok_def)
qed

lemma read_peers_read_n: "read_n n (\<lambda>s. Some (read_peer s)) s = Some (read_peers n s)"
  by (induction n arbitrary: s) (auto split: prod.splits)

lemma read_peers_put:
  assumes "\<forall>n \<in> set ns. peer_ok n" and "delimited r"
  shows "read_peers (length ns)
    (stream_after (concat (map (\<lambda>n. CHR '' '' # show_peer n) ns) @ r)) = (ns, stream_after r)"
  using peer_codec.read_n_put [OF assms(1), of "'' ''"] assms(2)
  by (simp add: read_peers_read_n)

interpretation config_codec: stream_codec encodeConfig "\<lambda>s. Some (decodeConfig s)" config_ok
proof unfold_locales
  fix ns :: "PeerInfo list" and sp r
  assume ns: "config_ok ns" and sp: "\<forall>c \<in> set sp. isspace c" and r: "delimited r"
  let ?ps = "concat (map (\<lambda>n. CHR '' '' # show_peer n) ns)"
  have "delimited (?ps @ r)"
    using r by (cases ns) auto
  with ns sp have "read_size 0 (stream_at (sp @ show_nat (length ns) @ ?ps @ r)) =
      (length ns, stream_after (?ps @ r))"
    by (intro read_size_put) (auto simp: config_ok_def)
  with ns r show "Some (decodeConfig (stream_at (sp @ encodeConfig ns @ r))) =
      Some (ns, stream_after r)"
    by (simp add: decodeConfig_def encodeConfig_def read_peers_put config_ok_def)
qed

lemmas decodeConfig_put [stream_simps] =
  config_codec.get_put_char [unfolded option.inject]

interpretation entry_codec: stream_codec show_entry read_entry entry_ok
proof unfold_locales
  fix e :: LogEntry and sp r
  assume e: "entry_ok e" and sp: "\<forall>c \<in> set sp. isspace c" and r: "delimited r"
  have "read_int old (stream_at (sp @ show_int (le_index e) @ CHR '' '' # r')) =
      (le_index e, stream_at (CHR '' '' # r'))" for old r'
    using read_int_put [of "le_index e" sp "CHR '' '' # r'"] e sp by (simp add: entry_ok_def)
  with e r show "read_entry (stream_at (sp @ show_entry e @ r)) = Some (e, stream_after r)"
    by (simp add: read_entry_def show_entry_def stream_simps entry_ok_def op_named_int
        op_of_int_of_op)
qed

text \<open>
  The count a configuration starts with decides how many peers are made, not the text that
  follows: a stream that is exhausted goes on giving peers.
\<close>

lemma length_read_peers: "length (fst (read_peers n s)) = n"
  by (induction n arbitrary: s) (auto split: prod.splits, metis fst_conv)

end
