(* ===== verification/Storage.thy ===== *)
theory Storage
  imports Raft_Types
begin

text \<open>
  \<open>PersistentStorage\<close> (\<open>src/src/persistence/storage.cpp\<close>): the state file of a node. The file
  system is the record's two last fields: the contents of the file (\<open>None\<close> where it cannot be
  opened for reading) and whether it can be opened for writing. The contract with the node, that
  what is saved is what is loaded, is the locale \<open>stable_store\<close>.
\<close>

section \<open>The state file\<close>

record PersistentStorage =
  stateFileName :: string
  st_file :: "string option"
  st_writable :: bool

definition mk_PersistentStorage :: "string \<Rightarrow> string option \<Rightarrow> bool \<Rightarrow> PersistentStorage" where
  "mk_PersistentStorage baseName file writable =
     \<lparr>stateFileName = ''./state/'' @ baseName @ ''_state.txt'', st_file = file,
      st_writable = writable\<rparr>"

text \<open>What the file holds: the arguments of \<open>save\<close>, the results of \<open>load\<close>.\<close>

record saved_state =
  sv_currentTerm :: int
  sv_votedFor :: int
  sv_lastIncludedIndex :: int
  sv_lastIncludedTerm :: int
  sv_logs :: "LogEntry list"

definition save_text :: "saved_state \<Rightarrow> string" where
  "save_text v =
     ''currentTerm '' @ show_int (sv_currentTerm v) @ [CHR 0x0A] @
     ''votedFor '' @ show_int (sv_votedFor v) @ [CHR 0x0A] @
     ''lastIncludedIndex '' @ show_int (sv_lastIncludedIndex v) @ [CHR 0x0A] @
     ''lastIncludedTerm '' @ show_int (sv_lastIncludedTerm v) @ [CHR 0x0A] @
     ''logCount '' @ show_nat (length (sv_logs v)) @ [CHR 0x0A] @
     concat (map (\<lambda>e.
       show_int (le_index e) @ '' '' @ show_int (le_term e) @ '' '' @
       show_int (int_of_op (le_op e)) @ '' '' @ le_key e @ '' '' @ le_value e @ '' '' @
       encodeConfig (le_oldConfig e) @ '' '' @ encodeConfig (le_newConfig e) @ [CHR 0x0A])
       (sv_logs v))"

definition storage_save :: "saved_state \<Rightarrow> PersistentStorage \<Rightarrow> bool \<times> PersistentStorage" where
  "storage_save v st =
     (if \<not> st_writable st then (False, st) else (True, st\<lparr>st_file := Some (save_text v)\<rparr>))"

text \<open>A labelled number: \<open>ifs >> label >> x; if (fail || label != name) return false\<close>.\<close>

definition read_labelled_int :: "string \<Rightarrow> string \<Rightarrow> istream \<Rightarrow> (int \<times> string \<times> istream) option" where
  "read_labelled_int name label s =
     (let (label', s1) = read_string label s; (x, s2) = read_int 0 s1
      in if is_fail s2 \<or> label' \<noteq> name then None else Some (x, label', s2))"

text \<open>
  The lines of the log, one entry per line that is not empty. An empty line does not count
  (\<open>i--; continue\<close>); \<open>n\<close> is the number of entries still to read.
\<close>

definition parse_log_line :: "string \<Rightarrow> LogEntry option" where
  "parse_log_line line =
     (let (index, s1) = read_int (le_index LogEntry_default) (istringstream line);
          (trm, s2) = read_int (le_term LogEntry_default) s1;
          (opInt, s3) = read_int 0 s2;
          (key, s4) = read_string (le_key LogEntry_default) s3;
          (val, s5) = read_string (le_value LogEntry_default) s4
      in if is_fail s5 then None
         else let (oc, s6) = decodeConfig s5; (nc, s7) = decodeConfig s6
              in Some \<lparr>le_term = trm, le_index = index, le_op = op_of_int opInt, le_key = key,
                       le_value = val, le_oldConfig = oc, le_newConfig = nc\<rparr>)"

lemma getline_shrinks:
  assumes "stream_getline old s = (l, s')" and "\<not> is_fail s'"
  shows "length (is_rest s') < length (is_rest s)"
proof -
  define d where "d = dropWhile (\<lambda>c. c \<noteq> CHR 0x0A) (is_rest s)"
  have le: "length d \<le> length (is_rest s)"
    unfolding d_def by (rule length_dropWhile_le)
  have good: "is_good s" "is_rest s \<noteq> []"
    using assms by (auto simp: stream_getline_def simp del: Let_def split: if_splits)
  then have "s' = (if d = [] then s\<lparr>is_rest := [], is_eof := True\<rparr> else s\<lparr>is_rest := tl d\<rparr>)"
    using assms(1) unfolding stream_getline_def Let_def d_def [symmetric] by (auto split: if_splits)
  with le good show ?thesis
    by (cases d) auto
qed

function load_lines :: "nat \<Rightarrow> string \<Rightarrow> istream \<Rightarrow> LogEntry list option" where
  "load_lines n line s =
     (if n = 0 then Some []
      else let (line', s') = stream_getline line s
           in if is_fail s' then None
              else if line' = [] then load_lines n line' s'
              else case parse_log_line line' of
                     None \<Rightarrow> None
                   | Some e \<Rightarrow> map_option ((#) e) (load_lines (n - 1) line' s'))"
  by pat_completeness auto
termination
  by (relation "measure (\<lambda>(n, line, s). length (is_rest s))") (auto dest: getline_shrinks split: prod.split)

declare load_lines.simps [simp del]

definition load_text :: "string \<Rightarrow> saved_state option" where
  "load_text txt =
     (case read_labelled_int ''currentTerm'' [] (istringstream txt) of None \<Rightarrow> None
      | Some (ct, l1, s1) \<Rightarrow>
     (case read_labelled_int ''votedFor'' l1 s1 of None \<Rightarrow> None
      | Some (vf, l2, s2) \<Rightarrow>
     (case read_labelled_int ''lastIncludedIndex'' l2 s2 of None \<Rightarrow> None
      | Some (li, l3, s3) \<Rightarrow>
     (case read_labelled_int ''lastIncludedTerm'' l3 s3 of None \<Rightarrow> None
      | Some (lt, l4, s4) \<Rightarrow>
          let (label, s5) = read_string l4 s4; (logCount, s6) = read_size 0 s5
          in if is_fail s6 \<or> label \<noteq> ''logCount'' then None
             else let (line, s7) = stream_getline [] s6
                  in map_option (\<lambda>es. \<lparr>sv_currentTerm = ct, sv_votedFor = vf,
                       sv_lastIncludedIndex = li, sv_lastIncludedTerm = lt, sv_logs = es\<rparr>)
                       (load_lines logCount line s7)))))"

definition storage_load :: "PersistentStorage \<Rightarrow> saved_state option" where
  "storage_load st = (case st_file st of None \<Rightarrow> None | Some txt \<Rightarrow> load_text txt)"

section \<open>What can be saved\<close>

definition saved_ok :: "saved_state \<Rightarrow> bool" where
  "saved_ok v \<longleftrightarrow> int_ok (sv_currentTerm v) \<and> int_ok (sv_votedFor v) \<and>
     int_ok (sv_lastIncludedIndex v) \<and> int_ok (sv_lastIncludedTerm v) \<and>
     size_ok (length (sv_logs v)) \<and> (\<forall>e \<in> set (sv_logs v). entry_ok e)"

text \<open>The storage writes an entry as the AppendEntries message does, and reads it the same way.\<close>

lemma parse_log_line_read_entry:
  "parse_log_line line = map_option fst (read_entry (istringstream line))"
  by (simp add: parse_log_line_def read_entry_def Let_def split: prod.splits)

lemma parse_log_line_show: "entry_ok e \<Longrightarrow> parse_log_line (show_entry e) = Some e"
  by (simp add: parse_log_line_read_entry istringstream_eq entry_codec.get_put_first(2))

definition entry_lines :: "LogEntry list \<Rightarrow> string" where
  "entry_lines es = concat (map (\<lambda>e. show_entry e @ [CHR 0x0A]) es)"

lemma save_text_lines:
  "save_text v =
     ''currentTerm '' @ show_int (sv_currentTerm v) @ CHR 0x0A #
     ''votedFor '' @ show_int (sv_votedFor v) @ CHR 0x0A #
     ''lastIncludedIndex '' @ show_int (sv_lastIncludedIndex v) @ CHR 0x0A #
     ''lastIncludedTerm '' @ show_int (sv_lastIncludedTerm v) @ CHR 0x0A #
     ''logCount '' @ show_nat (length (sv_logs v)) @ CHR 0x0A # entry_lines (sv_logs v)"
  by (simp add: save_text_def show_entry_def entry_lines_def)

subsection \<open>An entry stays on its line\<close>

lemma token_no_newline: "tokenp t \<Longrightarrow> c \<in> set t \<Longrightarrow> c \<noteq> CHR 0x0A"
  by (auto simp: tokenp_def)

lemma number_no_newline:
  "c \<in> set (show_int i) \<Longrightarrow> c \<noteq> CHR 0x0A" "c \<in> set (show_nat n) \<Longrightarrow> c \<noteq> CHR 0x0A"
  using show_int_no_space show_nat_no_space isspace_simps by blast+

lemma config_no_newline: "config_ok ns \<Longrightarrow> c \<in> set (encodeConfig ns) \<Longrightarrow> c \<noteq> CHR 0x0A"
  by (auto simp: encodeConfig_def show_peer_def config_ok_def peer_ok_def
      dest: number_no_newline token_no_newline split: if_splits)

lemma entry_no_newline: "entry_ok e \<Longrightarrow> c \<in> set (show_entry e) \<Longrightarrow> c \<noteq> CHR 0x0A"
  by (auto simp: show_entry_def entry_ok_def
      dest: number_no_newline token_no_newline config_no_newline)

lemma show_entry_nonempty: "show_entry e \<noteq> []"
  by (simp add: show_entry_def)

lemma getline_put:
  assumes "\<forall>c \<in> set l. c \<noteq> CHR 0x0A"
  shows "stream_getline old (stream_at (l @ CHR 0x0A # r)) = (l, stream_at r)"
  using assms takeWhile_token [of l "\<lambda>c. c \<noteq> CHR 0x0A" "CHR 0x0A # r"]
  by (simp add: stream_getline_def is_good_def stream_at_def)

lemma load_lines_put:
  "\<forall>e \<in> set es. entry_ok e \<Longrightarrow>
     load_lines (length es) line (stream_at (entry_lines es)) = Some es"
proof (induction es arbitrary: line)
  case Nil
  then show ?case by (simp add: load_lines.simps)
next
  case (Cons e es)
  then have "stream_getline line (stream_at (entry_lines (e # es))) =
      (show_entry e, stream_at (entry_lines es))"
    using getline_put [of "show_entry e" line "entry_lines es"] entry_no_newline
    by (auto simp: entry_lines_def)
  with Cons show ?case
    by (subst load_lines.simps) (simp add: show_entry_nonempty parse_log_line_show)
qed

subsection \<open>The labels\<close>

lemma read_label [stream_simps]:
  "tokenp name \<Longrightarrow> int_ok i \<Longrightarrow> read_labelled_int name l
     (stream_at (name @ CHR '' '' # show_int i @ CHR 0x0A # r)) = Some (i, name, stream_at (CHR 0x0A # r))"
  "tokenp name \<Longrightarrow> int_ok i \<Longrightarrow> read_labelled_int name l
     (stream_at (CHR 0x0A # name @ CHR '' '' # show_int i @ CHR 0x0A # r)) =
     Some (i, name, stream_at (CHR 0x0A # r))"
  by (simp_all add: read_labelled_int_def stream_simps)

lemma labels_tokens: "tokenp ''currentTerm''" "tokenp ''votedFor''" "tokenp ''lastIncludedIndex''"
  "tokenp ''lastIncludedTerm''" "tokenp ''logCount''"
  by (simp_all add: tokenp_def isspace_def)

lemma load_text_save: "saved_ok v \<Longrightarrow> load_text (save_text v) = Some v"
  using labels_tokens [THEN read_label(1)] labels_tokens [THEN read_label(2)]
    read_sep(5) [OF _ labels_tokens(5), of "CHR 0x0A"] load_lines_put [of "sv_logs v"]
    getline_put [of "[]" "[]" "entry_lines (sv_logs v)"]
  by (simp add: load_text_def save_text_lines saved_ok_def stream_simps Let_def)

section \<open>The contract with the node\<close>

text \<open>
  A store keeps the last state that was saved successfully; a failed save changes nothing.
\<close>

locale stable_store =
  fixes save :: "'v \<Rightarrow> 's \<Rightarrow> bool \<times> 's"
    and load :: "'s \<Rightarrow> 'v option"
    and ok :: "'v \<Rightarrow> bool"
    and writable :: "'s \<Rightarrow> bool"
  assumes save_reports: "fst (save v st) = writable st"
    and save_load: "ok v \<Longrightarrow> writable st \<Longrightarrow> load (snd (save v st)) = Some v"
    and save_fails: "\<not> writable st \<Longrightarrow> snd (save v st) = st"
    and save_writable: "writable (snd (save v st)) = writable st"
begin

lemma load_save_cases:
  assumes "ok v"
  shows "load (snd (save v st)) = (if fst (save v st) then Some v else load st)"
  using assms save_load save_fails by (simp add: save_reports)

fun save_all :: "'v list \<Rightarrow> 's \<Rightarrow> 's" where
  "save_all [] st = st"
| "save_all (v # vs) st = save_all vs (snd (save v st))"

text \<open>Whatever was saved before, the last state wins.\<close>

lemma load_after_saves:
  assumes "writable st" and "\<forall>v \<in> set vs. ok v" and "vs \<noteq> []"
  shows "load (save_all vs st) = Some (last vs)"
proof -
  have w: "writable (save_all us st) = writable st" for us
    by (induction us arbitrary: st) (auto simp: save_writable)
  have snoc: "save_all (us @ [v]) st = snd (save v (save_all us st))" for us v
    by (induction us arbitrary: st) auto
  show ?thesis
    using assms by (cases vs rule: rev_cases) (auto simp: snoc save_load w)
qed

end

interpretation state_file: stable_store storage_save storage_load saved_ok st_writable
  by unfold_locales (auto simp: storage_save_def storage_load_def load_text_save)

end
