(* ===== verification/KV_Store.thy ===== *)
theory KV_Store
  imports Raft_Types
begin

text \<open>
  \<open>KVStore\<close> (\<open>src/src/stateMachine/kv_store.cpp\<close>), the replicated state machine. LevelDB is not
  under \<open>src/\<close>: it is a parameter, a record of the calls the store makes, and the locale
  \<open>leveldb_api\<close> states what the store relies on. What the Raft node relies on in turn is the
  locale \<open>state_machine\<close>, which the store provides over every database that keeps those laws.
\<close>

section \<open>The calls to LevelDB\<close>

datatype batch_op = BPut string string | BDelete string

datatype get_status = DbFound string | DbNotFound | DbError

text \<open>
  A writing call returns whether its status is \<open>ok\<close> and the new database; \<open>ldb_Entries\<close> is the
  sequence a fresh iterator visits from \<open>SeekToFirst\<close> on; \<open>ldb_Open\<close> fails with \<open>None\<close>.
\<close>

record 'db leveldb =
  ldb_Open :: "string \<Rightarrow> 'db option"
  ldb_Put :: "string \<Rightarrow> string \<Rightarrow> 'db \<Rightarrow> bool \<times> 'db"
  ldb_Delete :: "string \<Rightarrow> 'db \<Rightarrow> bool \<times> 'db"
  ldb_Write :: "batch_op list \<Rightarrow> 'db \<Rightarrow> bool \<times> 'db"
  ldb_Get :: "string \<Rightarrow> 'db \<Rightarrow> get_status"
  ldb_Entries :: "'db \<Rightarrow> (string \<times> string) list"

section \<open>The store\<close>

text \<open>\<open>kv_db\<close> is \<open>None\<close> for the null pointer.\<close>

record 'db KVStore =
  kv_db :: "'db option"
  kv_path :: string

definition KVStore_new :: "'db KVStore" where
  "KVStore_new = \<lparr>kv_db = None, kv_path = []\<rparr>"

definition kv_open :: "'db leveldb \<Rightarrow> string \<Rightarrow> 'db KVStore \<Rightarrow> bool \<times> 'db KVStore" where
  "kv_open L dbPath s =
     (case ldb_Open L dbPath of
        None \<Rightarrow> (False, s\<lparr>kv_path := dbPath\<rparr>)
      | Some db \<Rightarrow> (True, s\<lparr>kv_path := dbPath, kv_db := Some db\<rparr>))"

definition kv_apply :: "'db leveldb \<Rightarrow> LogEntry \<Rightarrow> 'db KVStore \<Rightarrow> 'db KVStore" where
  "kv_apply L entry s =
     (case kv_db s of
        None \<Rightarrow> s
      | Some db \<Rightarrow>
          (case le_op entry of
             PUT \<Rightarrow> s\<lparr>kv_db := Some (snd (ldb_Put L (le_key entry) (le_value entry) db))\<rparr>
           | DEL \<Rightarrow> s\<lparr>kv_db := Some (snd (ldb_Delete L (le_key entry) db))\<rparr>
           | NONE \<Rightarrow> s
           | _ \<Rightarrow> s))"

text \<open>\<open>None\<close> is the result \<open>false\<close>.\<close>

definition kv_get :: "'db leveldb \<Rightarrow> string \<Rightarrow> 'db KVStore \<Rightarrow> string option" where
  "kv_get L key s =
     (case kv_db s of
        None \<Rightarrow> None
      | Some db \<Rightarrow>
          (case ldb_Get L key db of
             DbFound val \<Rightarrow> Some val
           | DbNotFound \<Rightarrow> None
           | DbError \<Rightarrow> None))"

definition kv_dump :: "'db leveldb \<Rightarrow> 'db KVStore \<Rightarrow> str_map" where
  "kv_dump L s =
     (case kv_db s of
        None \<Rightarrow> []
      | Some db \<Rightarrow> foldl (\<lambda>data (k, v). smap_set k v data) [] (ldb_Entries L db))"

definition kv_loadFromSnapshot :: "'db leveldb \<Rightarrow> str_map \<Rightarrow> 'db KVStore \<Rightarrow> 'db KVStore" where
  "kv_loadFromSnapshot L data s =
     (case kv_db s of
        None \<Rightarrow> s
      | Some db \<Rightarrow>
          let oldData = kv_dump L s;
              batch = map (\<lambda>p. BDelete (fst p)) oldData @ map (\<lambda>p. BPut (fst p) (snd p)) data
          in s\<lparr>kv_db := Some (snd (ldb_Write L batch db))\<rparr>)"

section \<open>What the program relies on\<close>

subsection \<open>LevelDB\<close>

fun batch_effect :: "batch_op \<Rightarrow> (string \<rightharpoonup> string) \<Rightarrow> (string \<rightharpoonup> string)" where
  "batch_effect (BPut k v) m = m(k \<mapsto> v)"
| "batch_effect (BDelete k) m = m(k := None)"

text \<open>
  LevelDB's documented interface: a write whose status is \<open>ok\<close> has happened, one whose status
  is not has not; a batch is applied in order and as a whole; an iterator visits the contents
  in the order of the keys, each key once; \<open>Get\<close> finds what is there. \<open>view\<close> reads the contents.
\<close>

locale leveldb_api =
  fixes L :: "'db leveldb" and view :: "'db \<Rightarrow> string \<rightharpoonup> string"
  assumes put_effect:
      "view (snd (ldb_Put L k v db)) = (if fst (ldb_Put L k v db) then (view db)(k \<mapsto> v) else view db)"
    and delete_effect:
      "view (snd (ldb_Delete L k db)) = (if fst (ldb_Delete L k db) then (view db)(k := None) else view db)"
    and write_effect:
      "view (snd (ldb_Write L bs db)) = (if fst (ldb_Write L bs db) then fold batch_effect bs (view db) else view db)"
    and get_found: "ldb_Get L k db = DbFound v \<Longrightarrow> view db k = Some v"
    and get_not_found: "ldb_Get L k db = DbNotFound \<Longrightarrow> view db k = None"
    and entries_sorted: "smap_ok (ldb_Entries L db)"
    and entries_view: "map_of (ldb_Entries L db) = view db"

text \<open>The same database on a disk that reports no error.\<close>

locale healthy_leveldb = leveldb_api L view for L :: "'db leveldb" and view +
  assumes put_ok: "fst (ldb_Put L k v db)"
    and delete_ok: "fst (ldb_Delete L k db)"
    and write_ok: "fst (ldb_Write L bs db)"
    and get_ok: "ldb_Get L k db \<noteq> DbError"

subsection \<open>The state machine, for the Raft node\<close>

text \<open>What a committed entry does to the contents.\<close>

definition entry_effect :: "LogEntry \<Rightarrow> (string \<rightharpoonup> string) \<Rightarrow> (string \<rightharpoonup> string)" where
  "entry_effect e m =
     (case le_op e of
        PUT \<Rightarrow> m(le_key e \<mapsto> le_value e)
      | DEL \<Rightarrow> m(le_key e := None)
      | _ \<Rightarrow> m)"

definition touches :: "LogEntry \<Rightarrow> string \<Rightarrow> bool" where
  "touches e k \<longleftrightarrow> (le_op e = PUT \<or> le_op e = DEL) \<and> le_key e = k"

lemma entry_effect_touched: "touches e k \<Longrightarrow> entry_effect e m k = entry_effect e m' k"
  by (auto simp: touches_def entry_effect_def)

lemma entry_effect_untouched: "\<not> touches e k \<Longrightarrow> entry_effect e m k = m k"
  by (auto simp: touches_def entry_effect_def split: CommandType.split)

lemma entry_effect_cong: "m k = m' k \<Longrightarrow> entry_effect e m k = entry_effect e m' k"
  using entry_effect_touched [of e k m m']
  by (cases "touches e k") (simp_all add: entry_effect_untouched)

lemma effects_cong: "m k = m' k \<Longrightarrow> fold entry_effect es m k = fold entry_effect es m' k"
proof (induction es arbitrary: m m')
  case (Cons e es)
  from Cons.prems have "entry_effect e m k = entry_effect e m' k"
    by (rule entry_effect_cong)
  then show ?case by (simp add: Cons.IH [of "entry_effect e m" "entry_effect e m'"])
qed simp

lemma effects_untouched: "(\<forall>e \<in> set es. \<not> touches e k) \<Longrightarrow> fold entry_effect es m k = m k"
  by (induction es arbitrary: m) (auto simp: entry_effect_untouched)

lemma effects_touched: "(\<exists>e \<in> set es. touches e k) \<Longrightarrow> fold entry_effect es m k = fold entry_effect es m' k"
proof (induction es arbitrary: m m')
  case Nil
  then show ?case by simp
next
  case (Cons e es)
  show ?case
  proof (cases "touches e k")
    case True
    then have "entry_effect e m k = entry_effect e m' k"
      by (rule entry_effect_touched)
    then show ?thesis by (simp add: effects_cong [of "entry_effect e m" k "entry_effect e m'"])
  next
    case False
    with Cons.prems show ?thesis by (auto intro: Cons.IH)
  qed
qed

text \<open>
  Applying a log again on top of a prefix of it that was applied before gives what applying it
  once gives. This is what lets the node restart from \<open>lastIncludedIndex\<close> with a database that
  is further on.
\<close>

lemma effects_replay:
  "fold entry_effect (es @ fs) (fold entry_effect es m) = fold entry_effect (es @ fs) m"
proof
  fix k
  show "fold entry_effect (es @ fs) (fold entry_effect es m) k = fold entry_effect (es @ fs) m k"
  proof (cases "\<exists>e \<in> set es. touches e k")
    case True
    then show ?thesis by (intro effects_touched) auto
  next
    case False
    then show ?thesis by (intro effects_cong effects_untouched) blast
  qed
qed

locale state_machine =
  fixes apply_entry :: "LogEntry \<Rightarrow> 's \<Rightarrow> 's"
    and dump :: "'s \<Rightarrow> str_map"
    and load :: "str_map \<Rightarrow> 's \<Rightarrow> 's"
    and look :: "'s \<Rightarrow> string \<rightharpoonup> string"
    and ready :: "'s \<Rightarrow> bool"
  assumes look_apply: "ready s \<Longrightarrow> look (apply_entry e s) = entry_effect e (look s)"
    and ready_apply: "ready s \<Longrightarrow> ready (apply_entry e s)"
    and dump_sorted: "ready s \<Longrightarrow> smap_ok (dump s)"
    and dump_look: "ready s \<Longrightarrow> map_of (dump s) = look s"
    and look_load: "ready s \<Longrightarrow> smap_ok m \<Longrightarrow> look (load m s) = map_of m"
    and ready_load: "ready s \<Longrightarrow> ready (load m s)"
begin

lemma ready_fold: "ready s \<Longrightarrow> ready (fold apply_entry es s)"
  by (induction es arbitrary: s) (auto simp: ready_apply)

lemma look_fold: "ready s \<Longrightarrow> look (fold apply_entry es s) = fold entry_effect es (look s)"
  by (induction es arbitrary: s) (auto simp: look_apply ready_apply)

lemma replay:
  "ready s \<Longrightarrow> look (fold apply_entry (es @ fs) (fold apply_entry es s)) = look (fold apply_entry (es @ fs) s)"
  by (simp add: look_fold ready_fold effects_replay flip: fold_append)

lemma transfer: "ready s \<Longrightarrow> ready s' \<Longrightarrow> look (load (dump s) s') = look s"
  by (simp add: look_load dump_sorted dump_look)

text \<open>
  A snapshot is the dump of a machine that may be ahead of the snapshot's index; replaying the
  log from that index on the receiver catches up with the sender.
\<close>

lemma transfer_replay:
  assumes "ready s" and "ready s'"
  shows "look (fold apply_entry (es @ fs) (load (dump (fold apply_entry es s)) s')) =
    look (fold apply_entry (es @ fs) s)"
  using assms by (simp only: look_fold ready_fold ready_load transfer effects_replay)

end

section \<open>The store keeps the contract\<close>

definition kv_look :: "('db \<Rightarrow> string \<rightharpoonup> string) \<Rightarrow> 'db KVStore \<Rightarrow> string \<rightharpoonup> string" where
  "kv_look view s = (case kv_db s of None \<Rightarrow> Map.empty | Some db \<Rightarrow> view db)"

definition kv_ready :: "'db KVStore \<Rightarrow> bool" where
  "kv_ready s \<longleftrightarrow> kv_db s \<noteq> None"

lemma fold_deletes:
  "fold batch_effect (map (\<lambda>p. BDelete (fst p)) m) w = (\<lambda>k. if k \<in> fst ` set m then None else w k)"
  by (induction m arbitrary: w) (auto simp: fun_eq_iff)

lemma fold_puts:
  "smap_ok m \<Longrightarrow> fold batch_effect (map (\<lambda>p. BPut (fst p) (snd p)) m) w = w ++ map_of m"
proof (induction m arbitrary: w)
  case Nil
  then show ?case by simp
next
  case (Cons p m)
  then have "fst p \<notin> dom (map_of m)"
    by (auto simp: smap_ok_def dom_map_of_conv_image_fst)
  with Cons show ?case
    by (auto simp: smap_ok_def fun_eq_iff map_add_def split: option.split)
qed

context leveldb_api
begin

lemma kv_dump_entries: "kv_db s = Some db \<Longrightarrow> kv_dump L s = ldb_Entries L db"
  by (simp add: kv_dump_def smap_rebuild entries_sorted)

text \<open>A write that LevelDB refuses is skipped: the entry has no effect, and nobody is told.\<close>

lemma kv_apply_look:
  assumes "kv_db s = Some db"
  shows "kv_look view (kv_apply L e s) \<in> {entry_effect e (kv_look view s), kv_look view s}"
  using assms
  by (simp add: kv_apply_def kv_look_def entry_effect_def put_effect delete_effect
      split: CommandType.split)

end

sublocale healthy_leveldb \<subseteq> kv: state_machine "kv_apply L" "kv_dump L" "kv_loadFromSnapshot L"
  "kv_look view" kv_ready
proof unfold_locales
  fix s :: "'db KVStore" and e m
  assume "kv_ready s"
  then obtain db where db: "kv_db s = Some db"
    by (auto simp: kv_ready_def)
  show "kv_look view (kv_apply L e s) = entry_effect e (kv_look view s)"
    using db by (simp add: kv_apply_def kv_look_def entry_effect_def put_effect put_ok
        delete_effect delete_ok split: CommandType.split)
  show "kv_ready (kv_apply L e s)"
    using db by (simp add: kv_apply_def kv_ready_def split: CommandType.split)
  show "smap_ok (kv_dump L s)" and "map_of (kv_dump L s) = kv_look view s"
    using db by (simp_all add: kv_dump_entries entries_sorted entries_view kv_look_def)
  show "kv_ready (kv_loadFromSnapshot L m s)"
    using db by (simp add: kv_loadFromSnapshot_def kv_ready_def)
  assume m: "smap_ok m"
  have "fold batch_effect (map (\<lambda>p. BDelete (fst p)) (ldb_Entries L db)) (view db) = Map.empty"
    by (auto simp: fold_deletes fun_eq_iff entries_view [symmetric] map_of_eq_None_iff)
  with db m show "kv_look view (kv_loadFromSnapshot L m s) = map_of m"
    by (simp add: kv_loadFromSnapshot_def kv_look_def write_effect write_ok kv_dump_entries fold_puts)
qed

context healthy_leveldb
begin

lemma kv_get_look: "kv_get L k s = kv_look view s k"
  using get_found get_not_found get_ok
  by (auto simp: kv_get_def kv_look_def split: option.split get_status.split)

end

section \<open>A database to run the model on\<close>

text \<open>
  An in-memory database, ordered by key, that keeps LevelDB's laws: the hypotheses
  \<open>leveldb_api\<close> and \<open>healthy_leveldb\<close> can hold, and the witnesses evaluate on it.
\<close>

definition smap_delete :: "string \<Rightarrow> str_map \<Rightarrow> str_map" where
  "smap_delete k m = filter (\<lambda>p. fst p \<noteq> k) m"

fun batch_run :: "batch_op \<Rightarrow> str_map \<Rightarrow> str_map" where
  "batch_run (BPut k v) m = smap_set k v m"
| "batch_run (BDelete k) m = smap_delete k m"

text \<open>The database is the sequence of its writes; an iterator sees their result.\<close>

type_synonym memdb = "batch_op list"

definition memdb_entries :: "memdb \<Rightarrow> str_map" where
  "memdb_entries db = fold batch_run db []"

definition mem_leveldb :: "memdb leveldb" where
  "mem_leveldb =
     \<lparr>ldb_Open = (\<lambda>_. Some []),
      ldb_Put = (\<lambda>k v db. (True, db @ [BPut k v])),
      ldb_Delete = (\<lambda>k db. (True, db @ [BDelete k])),
      ldb_Write = (\<lambda>bs db. (True, db @ bs)),
      ldb_Get = (\<lambda>k db. case map_of (memdb_entries db) k of None \<Rightarrow> DbNotFound | Some v \<Rightarrow> DbFound v),
      ldb_Entries = memdb_entries\<rparr>"

definition mem_view :: "memdb \<Rightarrow> string \<rightharpoonup> string" where
  "mem_view db = map_of (memdb_entries db)"

lemma smap_ok_delete: "smap_ok m \<Longrightarrow> smap_ok (smap_delete k m)"
  by (simp add: smap_ok_def smap_delete_def sorted_wrt_filter sorted_wrt_map)

lemma smap_ok_run: "smap_ok m \<Longrightarrow> smap_ok (batch_run b m)"
  by (cases b) (simp_all add: smap_ok_set smap_ok_delete)

lemma smap_ok_batch: "smap_ok m \<Longrightarrow> smap_ok (fold batch_run bs m)"
  by (induction bs arbitrary: m) (simp_all add: smap_ok_run)

lemma smap_lookup_delete: "map_of (smap_delete k m) = (map_of m)(k := None)"
  by (induction m) (auto simp: smap_delete_def fun_eq_iff)

lemma smap_lookup_run: "smap_ok m \<Longrightarrow> map_of (batch_run b m) = batch_effect b (map_of m)"
  by (cases b) (simp_all add: smap_lookup_set smap_lookup_delete)

lemma smap_lookup_batch:
  "smap_ok m \<Longrightarrow> map_of (fold batch_run bs m) = fold batch_effect bs (map_of m)"
  by (induction bs arbitrary: m) (simp_all add: smap_ok_run smap_lookup_run)

lemma memdb_sorted: "smap_ok (memdb_entries db)"
  unfolding memdb_entries_def by (rule smap_ok_batch) (simp add: smap_ok_def)

lemma mem_view_append: "mem_view (db @ bs) = fold batch_effect bs (mem_view db)"
  using smap_lookup_batch [OF memdb_sorted, of bs db] by (simp add: mem_view_def memdb_entries_def)

interpretation mem: healthy_leveldb mem_leveldb mem_view
  by unfold_locales
    (auto simp: mem_leveldb_def mem_view_append memdb_sorted mem_view_def [symmetric]
      split: option.splits)

end
