(* ===== verification/Raft_State.thy ===== *)
theory Raft_State
  imports Storage KV_Store
begin

text \<open>
  The state of a \<open>RaftNode\<close> (\<open>src/src/raftCore/raft_node.h\<close>) and the operations of
  \<open>raft_node.cpp\<close> that every handler is made of: log indexing, role changes, persistence,
  compaction, configuration entries and the apply loop. All of them run under the node's mutex,
  so each is a function from the node before to the node after. The last two fields are the
  environment: what the steady clock shows and what \<open>std::rand()\<close> returns next.
\<close>

section \<open>The node\<close>

record 'db node =
  nid :: int
  selfIp :: string
  selfPort :: int
  currentTerm :: int
  votedFor :: int
  logs :: "LogEntry list"
  commitIndex :: int
  lastApplied :: int
  nstate :: NodeState
  leaderId :: int
  kvStore :: "'db KVStore"
  peers :: "PeerInfo list"
  running :: bool
  lastHeartbeatTime :: int
  electionTimeoutMs :: int
  storage :: PersistentStorage
  nextIndex :: "int list"
  matchIndex :: "int list"
  lastIncludedIndex :: int
  lastIncludedTerm :: int
  snapshotThreshold :: int
  configState :: ConfigState
  currentConfig :: ClusterConfig
  oldConfig :: ClusterConfig
  newConfig :: ClusterConfig
  votingMember :: bool
  removed :: bool
  leaving :: bool
  clk :: int
  rnd :: int

section \<open>Log indexing\<close>

definition logIndexToPos :: "int \<Rightarrow> 'db node \<Rightarrow> int" where
  "logIndexToPos index s = index - lastIncludedIndex s - 1"

definition hasLogAt :: "int \<Rightarrow> 'db node \<Rightarrow> bool" where
  "hasLogAt index s \<longleftrightarrow>
     (if index = lastIncludedIndex s then True
      else let pos = logIndexToPos index s in 0 \<le> pos \<and> pos < int (length (logs s)))"

definition getLogTermAt :: "int \<Rightarrow> 'db node \<Rightarrow> int" where
  "getLogTermAt index s =
     (if index = 0 then 0
      else if index = lastIncludedIndex s then lastIncludedTerm s
      else let pos = logIndexToPos index s in
        if pos < 0 \<or> int (length (logs s)) \<le> pos then -1
        else le_term (logs s ! nat pos))"

definition getLastLogIndex :: "'db node \<Rightarrow> int" where
  "getLastLogIndex s = (if logs s = [] then lastIncludedIndex s else le_index (last (logs s)))"

definition getLastLogTerm :: "'db node \<Rightarrow> int" where
  "getLastLogTerm s = (if logs s = [] then lastIncludedTerm s else le_term (last (logs s)))"

definition isCandidateLogUpToDate :: "int \<Rightarrow> int \<Rightarrow> 'db node \<Rightarrow> bool" where
  "isCandidateLogUpToDate candidateLastLogIndex candidateLastLogTerm s =
     (let myLastTerm = getLastLogTerm s; myLastIndex = getLastLogIndex s in
        if candidateLastLogTerm \<noteq> myLastTerm then candidateLastLogTerm > myLastTerm
        else candidateLastLogIndex \<ge> myLastIndex)"

section \<open>Timer, persistence, role changes\<close>

definition resetElectionTimer :: "'db node \<Rightarrow> 'db node" where
  "resetElectionTimer s =
     s\<lparr>lastHeartbeatTime := clk s, electionTimeoutMs := 1500 + rnd s mod 1500\<rparr>"

definition isElectionTimeout :: "'db node \<Rightarrow> bool" where
  "isElectionTimeout s \<longleftrightarrow> clk s - lastHeartbeatTime s \<ge> electionTimeoutMs s"

definition persistent_of :: "'db node \<Rightarrow> saved_state" where
  "persistent_of s =
     \<lparr>sv_currentTerm = currentTerm s, sv_votedFor = votedFor s,
      sv_lastIncludedIndex = lastIncludedIndex s, sv_lastIncludedTerm = lastIncludedTerm s,
      sv_logs = logs s\<rparr>"

definition persist :: "'db node \<Rightarrow> 'db node" where
  "persist s = s\<lparr>storage := snd (storage_save (persistent_of s) (storage s))\<rparr>"

definition becomeFollower :: "int \<Rightarrow> 'db node \<Rightarrow> 'db node" where
  "becomeFollower newTerm s =
     persist (resetElectionTimer
       (s\<lparr>nstate := FOLLOWER, currentTerm := newTerm, votedFor := -1, leaderId := -1\<rparr>))"

definition becomeCandidate :: "'db node \<Rightarrow> 'db node" where
  "becomeCandidate s =
     persist (resetElectionTimer
       (s\<lparr>nstate := CANDIDATE, currentTerm := currentTerm s + 1, votedFor := nid s,
          leaderId := -1\<rparr>))"

definition initLeaderState :: "'db node \<Rightarrow> 'db node" where
  "initLeaderState s =
     s\<lparr>nextIndex := replicate (length (peers s)) (getLastLogIndex s + 1),
       matchIndex := replicate (length (peers s)) 0\<rparr>"

definition becomeLeader :: "'db node \<Rightarrow> 'db node" where
  "becomeLeader s = initLeaderState (s\<lparr>nstate := LEADER, leaderId := nid s\<rparr>)"

definition setVotingMember :: "bool \<Rightarrow> 'db node \<Rightarrow> 'db node" where
  "setVotingMember voting s = s\<lparr>votingMember := voting\<rparr>"

section \<open>Configurations\<close>

definition isNodeInCurrentVotingConfig :: "int \<Rightarrow> 'db node \<Rightarrow> bool" where
  "isNodeInCurrentVotingConfig nodeId s =
     (if configState s = STABLE then cfg_contains (currentConfig s) nodeId
      else cfg_contains (oldConfig s) nodeId \<or> cfg_contains (newConfig s) nodeId)"

definition rebuildPeersFromCurrentConfig :: "'db node \<Rightarrow> 'db node" where
  "rebuildPeersFromCurrentConfig s =
     (let s' = s\<lparr>peers := filter (\<lambda>n. pi_id n \<noteq> nid s) (cfg_nodes (currentConfig s))\<rparr>
      in if nstate s' = LEADER then initLeaderState s' else s')"

text \<open>The lambda \<open>addUnique\<close>, on the peers gathered so far.\<close>

definition addUnique :: "int \<Rightarrow> PeerInfo list \<Rightarrow> PeerInfo \<Rightarrow> PeerInfo list" where
  "addUnique self ps node =
     (if pi_id node = self then ps
      else if list_ex (\<lambda>p. pi_id p = pi_id node) ps then ps
      else ps @ [node])"

definition rebuildPeersFromJointConfig :: "'db node \<Rightarrow> 'db node" where
  "rebuildPeersFromJointConfig s =
     (let ps = foldl (addUnique (nid s)) [] (cfg_nodes (oldConfig s));
          ps' = foldl (addUnique (nid s)) ps (cfg_nodes (newConfig s));
          s' = s\<lparr>peers := ps'\<rparr>
      in if nstate s' = LEADER then initLeaderState s' else s')"

definition applyConfigEntry :: "LogEntry \<Rightarrow> 'db node \<Rightarrow> 'db node" where
  "applyConfigEntry entry s =
     (if le_op entry = CONFIG_JOINT then
        let s1 = s\<lparr>configState := JOINT,
                   oldConfig := (oldConfig s)\<lparr>cfg_nodes := le_oldConfig entry\<rparr>,
                   newConfig := (newConfig s)\<lparr>cfg_nodes := le_newConfig entry\<rparr>\<rparr>;
            s2 = rebuildPeersFromJointConfig s1
        in if cfg_contains (oldConfig s2) (nid s2) \<and> \<not> cfg_contains (newConfig s2) (nid s2)
           then s2\<lparr>leaving := True, votingMember := False, nstate := FOLLOWER\<rparr>
           else s2
      else if le_op entry = CONFIG_NEW then
        let s1 = s\<lparr>configState := STABLE,
                   currentConfig := (currentConfig s)\<lparr>cfg_nodes := le_newConfig entry\<rparr>,
                   oldConfig := (oldConfig s)\<lparr>cfg_nodes := []\<rparr>,
                   newConfig := (newConfig s)\<lparr>cfg_nodes := []\<rparr>\<rparr>;
            s2 = rebuildPeersFromCurrentConfig s1
        in if cfg_contains (currentConfig s2) (nid s2)
           then s2\<lparr>votingMember := True, leaving := False, removed := False\<rparr>
           else s2\<lparr>votingMember := False, leaving := False, removed := True,
                   nstate := FOLLOWER, leaderId := -1\<rparr>
      else s)"

section \<open>Compaction\<close>

definition createSnapshot :: "int \<Rightarrow> 'db node \<Rightarrow> 'db node" where
  "createSnapshot uptoIndex s =
     (if uptoIndex \<le> lastIncludedIndex s then s
      else if uptoIndex > lastApplied s then s
      else if configState s = JOINT then s
      else let trm = getLogTermAt uptoIndex s in
        if trm < 0 then s
        else persist (s\<lparr>logs := filter (\<lambda>e. le_index e > uptoIndex) (logs s),
                        lastIncludedIndex := uptoIndex, lastIncludedTerm := trm\<rparr>))"

definition maybeCreateSnapshot :: "'db node \<Rightarrow> 'db node" where
  "maybeCreateSnapshot s =
     (if configState s = JOINT then s
      else if lastApplied s - lastIncludedIndex s \<ge> snapshotThreshold s
      then createSnapshot (lastApplied s) s
      else s)"

section \<open>Frames of the small operations\<close>

lemma resetElectionTimer_frame [frame]:
  "nid (resetElectionTimer s) = nid s" "currentTerm (resetElectionTimer s) = currentTerm s"
  "votedFor (resetElectionTimer s) = votedFor s" "logs (resetElectionTimer s) = logs s"
  "commitIndex (resetElectionTimer s) = commitIndex s"
  "lastApplied (resetElectionTimer s) = lastApplied s"
  "nstate (resetElectionTimer s) = nstate s" "leaderId (resetElectionTimer s) = leaderId s"
  "kvStore (resetElectionTimer s) = kvStore s" "peers (resetElectionTimer s) = peers s"
  "storage (resetElectionTimer s) = storage s" "nextIndex (resetElectionTimer s) = nextIndex s"
  "matchIndex (resetElectionTimer s) = matchIndex s"
  "lastIncludedIndex (resetElectionTimer s) = lastIncludedIndex s"
  "lastIncludedTerm (resetElectionTimer s) = lastIncludedTerm s"
  "snapshotThreshold (resetElectionTimer s) = snapshotThreshold s"
  "configState (resetElectionTimer s) = configState s"
  "currentConfig (resetElectionTimer s) = currentConfig s"
  "oldConfig (resetElectionTimer s) = oldConfig s" "newConfig (resetElectionTimer s) = newConfig s"
  "votingMember (resetElectionTimer s) = votingMember s" "removed (resetElectionTimer s) = removed s"
  "leaving (resetElectionTimer s) = leaving s" "rnd (resetElectionTimer s) = rnd s"
  "clk (resetElectionTimer s) = clk s"
  by (simp_all add: resetElectionTimer_def)

lemma persist_frame [frame]:
  "nid (persist s) = nid s" "currentTerm (persist s) = currentTerm s"
  "votedFor (persist s) = votedFor s" "logs (persist s) = logs s"
  "commitIndex (persist s) = commitIndex s" "lastApplied (persist s) = lastApplied s"
  "nstate (persist s) = nstate s" "leaderId (persist s) = leaderId s"
  "kvStore (persist s) = kvStore s" "peers (persist s) = peers s"
  "nextIndex (persist s) = nextIndex s" "matchIndex (persist s) = matchIndex s"
  "lastIncludedIndex (persist s) = lastIncludedIndex s"
  "lastIncludedTerm (persist s) = lastIncludedTerm s"
  "snapshotThreshold (persist s) = snapshotThreshold s" "configState (persist s) = configState s"
  "currentConfig (persist s) = currentConfig s" "oldConfig (persist s) = oldConfig s"
  "newConfig (persist s) = newConfig s" "votingMember (persist s) = votingMember s"
  "removed (persist s) = removed s" "leaving (persist s) = leaving s" "rnd (persist s) = rnd s"
  "clk (persist s) = clk s" "electionTimeoutMs (persist s) = electionTimeoutMs s"
  "lastHeartbeatTime (persist s) = lastHeartbeatTime s"
  by (simp_all add: persist_def)

lemma initLeaderState_frame [frame]:
  "nid (initLeaderState s) = nid s" "currentTerm (initLeaderState s) = currentTerm s"
  "votedFor (initLeaderState s) = votedFor s" "logs (initLeaderState s) = logs s"
  "commitIndex (initLeaderState s) = commitIndex s" "lastApplied (initLeaderState s) = lastApplied s"
  "nstate (initLeaderState s) = nstate s" "leaderId (initLeaderState s) = leaderId s"
  "kvStore (initLeaderState s) = kvStore s" "peers (initLeaderState s) = peers s"
  "storage (initLeaderState s) = storage s"
  "lastIncludedIndex (initLeaderState s) = lastIncludedIndex s"
  "lastIncludedTerm (initLeaderState s) = lastIncludedTerm s"
  "snapshotThreshold (initLeaderState s) = snapshotThreshold s"
  "configState (initLeaderState s) = configState s"
  "currentConfig (initLeaderState s) = currentConfig s" "oldConfig (initLeaderState s) = oldConfig s"
  "newConfig (initLeaderState s) = newConfig s" "votingMember (initLeaderState s) = votingMember s"
  "removed (initLeaderState s) = removed s" "leaving (initLeaderState s) = leaving s"
  "electionTimeoutMs (initLeaderState s) = electionTimeoutMs s" "rnd (initLeaderState s) = rnd s"
  by (simp_all add: initLeaderState_def)

lemma initLeaderState_effect [effect]:
  "nextIndex (initLeaderState s) = replicate (length (peers s)) (getLastLogIndex s + 1)"
  "matchIndex (initLeaderState s) = replicate (length (peers s)) 0"
  by (simp_all add: initLeaderState_def)

lemma becomeFollower_frame [frame]:
  "nid (becomeFollower t s) = nid s" "logs (becomeFollower t s) = logs s"
  "commitIndex (becomeFollower t s) = commitIndex s" "lastApplied (becomeFollower t s) = lastApplied s"
  "kvStore (becomeFollower t s) = kvStore s" "peers (becomeFollower t s) = peers s"
  "nextIndex (becomeFollower t s) = nextIndex s" "matchIndex (becomeFollower t s) = matchIndex s"
  "lastIncludedIndex (becomeFollower t s) = lastIncludedIndex s"
  "lastIncludedTerm (becomeFollower t s) = lastIncludedTerm s"
  "snapshotThreshold (becomeFollower t s) = snapshotThreshold s"
  "configState (becomeFollower t s) = configState s"
  "currentConfig (becomeFollower t s) = currentConfig s" "oldConfig (becomeFollower t s) = oldConfig s"
  "newConfig (becomeFollower t s) = newConfig s" "votingMember (becomeFollower t s) = votingMember s"
  "removed (becomeFollower t s) = removed s" "leaving (becomeFollower t s) = leaving s"
  "rnd (becomeFollower t s) = rnd s"
  by (simp_all add: becomeFollower_def frame)

lemma becomeFollower_effect [effect]:
  "nstate (becomeFollower t s) = FOLLOWER" "currentTerm (becomeFollower t s) = t"
  "votedFor (becomeFollower t s) = -1" "leaderId (becomeFollower t s) = -1"
  by (simp_all add: becomeFollower_def frame)

lemma becomeCandidate_frame [frame]:
  "nid (becomeCandidate s) = nid s" "logs (becomeCandidate s) = logs s"
  "commitIndex (becomeCandidate s) = commitIndex s" "lastApplied (becomeCandidate s) = lastApplied s"
  "kvStore (becomeCandidate s) = kvStore s" "peers (becomeCandidate s) = peers s"
  "nextIndex (becomeCandidate s) = nextIndex s" "matchIndex (becomeCandidate s) = matchIndex s"
  "lastIncludedIndex (becomeCandidate s) = lastIncludedIndex s"
  "lastIncludedTerm (becomeCandidate s) = lastIncludedTerm s"
  "snapshotThreshold (becomeCandidate s) = snapshotThreshold s"
  "configState (becomeCandidate s) = configState s"
  "currentConfig (becomeCandidate s) = currentConfig s" "oldConfig (becomeCandidate s) = oldConfig s"
  "newConfig (becomeCandidate s) = newConfig s" "votingMember (becomeCandidate s) = votingMember s"
  "removed (becomeCandidate s) = removed s" "leaving (becomeCandidate s) = leaving s"
  "rnd (becomeCandidate s) = rnd s"
  by (simp_all add: becomeCandidate_def frame)

lemma becomeCandidate_effect [effect]:
  "nstate (becomeCandidate s) = CANDIDATE" "currentTerm (becomeCandidate s) = currentTerm s + 1"
  "votedFor (becomeCandidate s) = nid s" "leaderId (becomeCandidate s) = -1"
  by (simp_all add: becomeCandidate_def frame)

lemma rebuild_frame [frame]:
  "nid (rebuildPeersFromCurrentConfig s) = nid s" "nid (rebuildPeersFromJointConfig s) = nid s"
  "currentTerm (rebuildPeersFromCurrentConfig s) = currentTerm s"
  "currentTerm (rebuildPeersFromJointConfig s) = currentTerm s"
  "votedFor (rebuildPeersFromCurrentConfig s) = votedFor s"
  "votedFor (rebuildPeersFromJointConfig s) = votedFor s"
  "logs (rebuildPeersFromCurrentConfig s) = logs s" "logs (rebuildPeersFromJointConfig s) = logs s"
  "commitIndex (rebuildPeersFromCurrentConfig s) = commitIndex s"
  "commitIndex (rebuildPeersFromJointConfig s) = commitIndex s"
  "lastApplied (rebuildPeersFromCurrentConfig s) = lastApplied s"
  "lastApplied (rebuildPeersFromJointConfig s) = lastApplied s"
  "kvStore (rebuildPeersFromCurrentConfig s) = kvStore s"
  "kvStore (rebuildPeersFromJointConfig s) = kvStore s"
  "storage (rebuildPeersFromCurrentConfig s) = storage s"
  "storage (rebuildPeersFromJointConfig s) = storage s"
  "lastIncludedIndex (rebuildPeersFromCurrentConfig s) = lastIncludedIndex s"
  "lastIncludedIndex (rebuildPeersFromJointConfig s) = lastIncludedIndex s"
  "lastIncludedTerm (rebuildPeersFromCurrentConfig s) = lastIncludedTerm s"
  "lastIncludedTerm (rebuildPeersFromJointConfig s) = lastIncludedTerm s"
  "snapshotThreshold (rebuildPeersFromCurrentConfig s) = snapshotThreshold s"
  "snapshotThreshold (rebuildPeersFromJointConfig s) = snapshotThreshold s"
  "nstate (rebuildPeersFromCurrentConfig s) = nstate s"
  "nstate (rebuildPeersFromJointConfig s) = nstate s"
  "oldConfig (rebuildPeersFromJointConfig s) = oldConfig s"
  "newConfig (rebuildPeersFromJointConfig s) = newConfig s"
  "currentConfig (rebuildPeersFromCurrentConfig s) = currentConfig s"
  "configState (rebuildPeersFromCurrentConfig s) = configState s"
  "configState (rebuildPeersFromJointConfig s) = configState s"
  "electionTimeoutMs (rebuildPeersFromCurrentConfig s) = electionTimeoutMs s"
  "electionTimeoutMs (rebuildPeersFromJointConfig s) = electionTimeoutMs s"
  "rnd (rebuildPeersFromCurrentConfig s) = rnd s" "rnd (rebuildPeersFromJointConfig s) = rnd s"
  by (simp_all add: rebuildPeersFromCurrentConfig_def rebuildPeersFromJointConfig_def Let_def frame)

lemma applyConfigEntry_frame [frame]:
  "nid (applyConfigEntry e s) = nid s" "currentTerm (applyConfigEntry e s) = currentTerm s"
  "votedFor (applyConfigEntry e s) = votedFor s" "logs (applyConfigEntry e s) = logs s"
  "commitIndex (applyConfigEntry e s) = commitIndex s"
  "lastApplied (applyConfigEntry e s) = lastApplied s" "kvStore (applyConfigEntry e s) = kvStore s"
  "storage (applyConfigEntry e s) = storage s"
  "lastIncludedIndex (applyConfigEntry e s) = lastIncludedIndex s"
  "lastIncludedTerm (applyConfigEntry e s) = lastIncludedTerm s"
  "snapshotThreshold (applyConfigEntry e s) = snapshotThreshold s"
  "electionTimeoutMs (applyConfigEntry e s) = electionTimeoutMs s"
  "rnd (applyConfigEntry e s) = rnd s"
  by (simp_all add: applyConfigEntry_def Let_def frame)

section \<open>The apply loop\<close>

function applyLoop :: "'db leveldb \<Rightarrow> 'db node \<Rightarrow> 'db node" where
  "applyLoop L s =
     (if lastApplied s < commitIndex s then
        let nextApplyIndex = lastApplied s + 1 in
        if nextApplyIndex \<le> lastIncludedIndex s then
          applyLoop L (s\<lparr>lastApplied := nextApplyIndex\<rparr>)
        else let pos = logIndexToPos nextApplyIndex s in
          if pos < 0 \<or> int (length (logs s)) \<le> pos then s
          else let entry = logs s ! nat pos;
                   s' = (if le_op entry = CONFIG_JOINT \<or> le_op entry = CONFIG_NEW
                         then applyConfigEntry entry s
                         else s\<lparr>kvStore := kv_apply L entry (kvStore s)\<rparr>)
               in applyLoop L (s'\<lparr>lastApplied := nextApplyIndex\<rparr>)
      else s)"
  by pat_completeness auto
termination
  by (relation "measure (\<lambda>(L, s). nat (commitIndex s - lastApplied s))")
    (auto simp: frame)

declare applyLoop.simps [simp del]

definition applyCommittedLogs :: "'db leveldb \<Rightarrow> 'db node \<Rightarrow> 'db node" where
  "applyCommittedLogs L s = maybeCreateSnapshot (applyLoop L s)"

section \<open>Start-up\<close>

definition loadPersistentState :: "'db node \<Rightarrow> 'db node" where
  "loadPersistentState s =
     (case storage_load (storage s) of
        None \<Rightarrow> s
      | Some v \<Rightarrow>
          s\<lparr>currentTerm := sv_currentTerm v, votedFor := sv_votedFor v,
            lastIncludedIndex := sv_lastIncludedIndex v,
            lastIncludedTerm := sv_lastIncludedTerm v,
            logs := filter (\<lambda>e. le_index e > sv_lastIncludedIndex v) (sv_logs v),
            commitIndex := sv_lastIncludedIndex v, lastApplied := sv_lastIncludedIndex v\<rparr>)"

text \<open>
  The constructor. The environment gives the state file, the clock and the random number.
\<close>

definition RaftNode_new ::
  "'db leveldb \<Rightarrow> int \<Rightarrow> string option \<Rightarrow> bool \<Rightarrow> int \<Rightarrow> int \<Rightarrow> 'db node" where
  "RaftNode_new L nodeId file writable now r =
     loadPersistentState
       \<lparr>nid = nodeId, selfIp = [], selfPort = 0, currentTerm = 0, votedFor = -1, logs = [],
        commitIndex = 0, lastApplied = 0, nstate = FOLLOWER, leaderId = -1,
        kvStore = snd (kv_open L (''./db/leveldb_node_'' @ show_int nodeId) KVStore_new),
        peers = [], running = False, lastHeartbeatTime = now,
        electionTimeoutMs = 1500 + r mod 1500,
        storage = mk_PersistentStorage (''raft_'' @ show_int nodeId) file writable,
        nextIndex = [], matchIndex = [], lastIncludedIndex = 0, lastIncludedTerm = 0,
        snapshotThreshold = 5, configState = STABLE, currentConfig = \<lparr>cfg_nodes = []\<rparr>,
        oldConfig = \<lparr>cfg_nodes = []\<rparr>, newConfig = \<lparr>cfg_nodes = []\<rparr>, votingMember = True,
        removed = False, leaving = False, clk = now, rnd = r\<rparr>"

definition setSelfAddress :: "string \<Rightarrow> int \<Rightarrow> 'db node \<Rightarrow> 'db node" where
  "setSelfAddress ip port s = s\<lparr>selfIp := ip, selfPort := port\<rparr>"

definition setPeers :: "PeerInfo list \<Rightarrow> 'db node \<Rightarrow> 'db node" where
  "setPeers ps s =
     s\<lparr>peers := ps,
       currentConfig := (currentConfig s)\<lparr>cfg_nodes :=
         \<lparr>pi_id = nid s, pi_ip = selfIp s, pi_port = selfPort s\<rparr> # ps\<rparr>\<rparr>"

definition raft_start :: "'db node \<Rightarrow> 'db node" where
  "raft_start s = resetElectionTimer (s\<lparr>running := True\<rparr>)"

definition raft_stop :: "'db node \<Rightarrow> 'db node" where
  "raft_stop s = s\<lparr>running := False\<rparr>"

end
