(* ===== verification/Raft_Log.thy ===== *)
theory Raft_Log
  imports Raft_State
begin

text \<open>
  What keeps a node's log and indices in order, and what compaction and the apply loop do. The
  log is well formed when its entries are numbered without gaps from \<open>lastIncludedIndex + 1\<close> on;
  then index arithmetic is list indexing, compaction is dropping a prefix, and the apply loop is
  a fold of the state machine over a slice of the log.
\<close>

section \<open>The invariant\<close>

definition log_wf :: "'db node \<Rightarrow> bool" where
  "log_wf s \<longleftrightarrow> numbered_from le_index (lastIncludedIndex s) (logs s)"

definition idx_wf :: "'db node \<Rightarrow> bool" where
  "idx_wf s \<longleftrightarrow>
     0 \<le> lastIncludedIndex s \<and> lastIncludedIndex s \<le> lastApplied s \<and> lastApplied s \<le> commitIndex s"

text \<open>A leader keeps one \<open>nextIndex\<close> and one \<open>matchIndex\<close> per peer.\<close>

definition lead_wf :: "'db node \<Rightarrow> bool" where
  "lead_wf s \<longleftrightarrow> (nstate s = LEADER \<longrightarrow>
     length (nextIndex s) = length (peers s) \<and> length (matchIndex s) = length (peers s))"

definition timer_wf :: "'db node \<Rightarrow> bool" where
  "timer_wf s \<longleftrightarrow> 1500 \<le> electionTimeoutMs s \<and> electionTimeoutMs s < 3000"

definition node_inv :: "'db node \<Rightarrow> bool" where
  "node_inv s \<longleftrightarrow> log_wf s \<and> idx_wf s \<and> lead_wf s \<and> timer_wf s"

text \<open>The state file holds what the node would have to remember.\<close>

definition durable :: "'db node \<Rightarrow> bool" where
  "durable s \<longleftrightarrow> st_writable (storage s) \<and> st_file (storage s) = Some (save_text (persistent_of s))"

lemma node_invI:
  "log_wf s \<Longrightarrow> idx_wf s \<Longrightarrow> lead_wf s \<Longrightarrow> timer_wf s \<Longrightarrow> node_inv s"
  by (simp add: node_inv_def)

section \<open>Reading the log\<close>

lemma getLastLogIndex_eq:
  "log_wf s \<Longrightarrow> getLastLogIndex s = lastIncludedIndex s + int (length (logs s))"
  by (auto simp: getLastLogIndex_def log_wf_def numbered_from_last)

lemma log_wf_last: "log_wf s \<Longrightarrow> lastIncludedIndex s \<le> getLastLogIndex s"
  by (simp add: getLastLogIndex_eq)

lemma hasLogAt_iff:
  "log_wf s \<Longrightarrow> hasLogAt i s \<longleftrightarrow> lastIncludedIndex s \<le> i \<and> i \<le> getLastLogIndex s"
  by (auto simp: hasLogAt_def logIndexToPos_def getLastLogIndex_eq)

lemma log_nth_index:
  "log_wf s \<Longrightarrow> n < length (logs s) \<Longrightarrow> le_index (logs s ! n) = lastIncludedIndex s + 1 + int n"
  by (simp add: log_wf_def numbered_from_nth)

lemma getLogTermAt_in:
  "lastIncludedIndex s < i \<Longrightarrow> i \<noteq> 0 \<Longrightarrow> i \<le> lastIncludedIndex s + int (length (logs s)) \<Longrightarrow>
     getLogTermAt i s = le_term (logs s ! nat (i - lastIncludedIndex s - 1))"
  by (auto simp: getLogTermAt_def logIndexToPos_def)

lemma getLogTermAt_out:
  "i \<noteq> 0 \<Longrightarrow> i < lastIncludedIndex s \<or> lastIncludedIndex s + int (length (logs s)) < i \<Longrightarrow>
     getLogTermAt i s = -1"
  by (auto simp: getLogTermAt_def logIndexToPos_def)

text \<open>The entries of the log with an index above \<open>a\<close> and up to \<open>b\<close>.\<close>

definition log_slice :: "int \<Rightarrow> int \<Rightarrow> 'db node \<Rightarrow> LogEntry list" where
  "log_slice a b s = take (nat (b - a)) (drop (nat (a - lastIncludedIndex s)) (logs s))"

lemma log_slice_empty [simp]: "b \<le> a \<Longrightarrow> log_slice a b s = []"
  by (simp add: log_slice_def)

lemma log_slice_step:
  assumes "lastIncludedIndex s \<le> a" and "a < b"
    and "nat (a - lastIncludedIndex s) < length (logs s)"
  shows "log_slice a b s = logs s ! nat (a - lastIncludedIndex s) # log_slice (a + 1) b s"
proof -
  have "nat (b - a) = Suc (nat (b - (a + 1)))"
    and "nat (a + 1 - lastIncludedIndex s) = Suc (nat (a - lastIncludedIndex s))"
    using assms by linarith+
  then show ?thesis
    by (simp add: log_slice_def Cons_nth_drop_Suc [OF assms(3), symmetric])
qed

section \<open>The order of logs is Raft's\<close>

definition last_pos :: "'db node \<Rightarrow> log_pos" where
  "last_pos s = LogPos (getLastLogTerm s) (getLastLogIndex s)"

lemma isCandidateLogUpToDate_order:
  "isCandidateLogUpToDate i t s \<longleftrightarrow> last_pos s \<le> LogPos t i"
  by (auto simp: isCandidateLogUpToDate_def last_pos_def less_eq_log_pos_def Let_def)

section \<open>Compaction\<close>

lemma createSnapshot_frame [frame]:
  "nid (createSnapshot u s) = nid s" "currentTerm (createSnapshot u s) = currentTerm s"
  "votedFor (createSnapshot u s) = votedFor s" "commitIndex (createSnapshot u s) = commitIndex s"
  "lastApplied (createSnapshot u s) = lastApplied s" "nstate (createSnapshot u s) = nstate s"
  "leaderId (createSnapshot u s) = leaderId s" "kvStore (createSnapshot u s) = kvStore s"
  "peers (createSnapshot u s) = peers s" "nextIndex (createSnapshot u s) = nextIndex s"
  "matchIndex (createSnapshot u s) = matchIndex s"
  "snapshotThreshold (createSnapshot u s) = snapshotThreshold s"
  "configState (createSnapshot u s) = configState s"
  "currentConfig (createSnapshot u s) = currentConfig s"
  "oldConfig (createSnapshot u s) = oldConfig s" "newConfig (createSnapshot u s) = newConfig s"
  "votingMember (createSnapshot u s) = votingMember s" "removed (createSnapshot u s) = removed s"
  "leaving (createSnapshot u s) = leaving s"
  "electionTimeoutMs (createSnapshot u s) = electionTimeoutMs s" "rnd (createSnapshot u s) = rnd s"
  by (simp_all add: createSnapshot_def Let_def frame)

lemma maybeCreateSnapshot_cases:
  "maybeCreateSnapshot s = s \<or> maybeCreateSnapshot s = createSnapshot (lastApplied s) s"
  by (simp add: maybeCreateSnapshot_def)

lemma maybeCreateSnapshot_frame [frame]:
  "nid (maybeCreateSnapshot s) = nid s" "currentTerm (maybeCreateSnapshot s) = currentTerm s"
  "votedFor (maybeCreateSnapshot s) = votedFor s"
  "commitIndex (maybeCreateSnapshot s) = commitIndex s"
  "lastApplied (maybeCreateSnapshot s) = lastApplied s" "nstate (maybeCreateSnapshot s) = nstate s"
  "leaderId (maybeCreateSnapshot s) = leaderId s" "kvStore (maybeCreateSnapshot s) = kvStore s"
  "peers (maybeCreateSnapshot s) = peers s" "nextIndex (maybeCreateSnapshot s) = nextIndex s"
  "matchIndex (maybeCreateSnapshot s) = matchIndex s"
  "configState (maybeCreateSnapshot s) = configState s"
  "currentConfig (maybeCreateSnapshot s) = currentConfig s"
  "oldConfig (maybeCreateSnapshot s) = oldConfig s"
  "newConfig (maybeCreateSnapshot s) = newConfig s"
  "votingMember (maybeCreateSnapshot s) = votingMember s" "removed (maybeCreateSnapshot s) = removed s"
  "leaving (maybeCreateSnapshot s) = leaving s"
  "electionTimeoutMs (maybeCreateSnapshot s) = electionTimeoutMs s"
  "rnd (maybeCreateSnapshot s) = rnd s"
  by (simp_all add: maybeCreateSnapshot_def frame)

text \<open>The logical content of a log: every index from the snapshot's on, with its term.\<close>

lemma createSnapshot_logs:
  assumes "log_wf s" and "createSnapshot u s \<noteq> s"
  shows "logs (createSnapshot u s) = drop (nat (u - lastIncludedIndex s)) (logs s)"
    and "lastIncludedIndex (createSnapshot u s) = u"
    and "lastIncludedTerm (createSnapshot u s) = getLogTermAt u s"
    and "lastIncludedIndex s < u" and "u \<le> lastApplied s"
  using assms numbered_from_filter [of le_index "lastIncludedIndex s" "logs s" u]
  by (auto simp: createSnapshot_def Let_def log_wf_def frame split: if_splits)

lemma createSnapshot_log_wf:
  assumes "log_wf s" and "u \<le> getLastLogIndex s"
  shows "log_wf (createSnapshot u s)"
proof (cases "createSnapshot u s = s")
  case True
  with assms show ?thesis by simp
next
  case False
  note c = createSnapshot_logs [OF assms(1) False]
  then have "numbered_from le_index (lastIncludedIndex s + int (nat (u - lastIncludedIndex s)))
      (drop (nat (u - lastIncludedIndex s)) (logs s))"
    using assms by (intro numbered_from_drop) (auto simp: log_wf_def getLastLogIndex_eq)
  with c show ?thesis by (simp add: log_wf_def)
qed

lemma createSnapshot_idx_wf: "idx_wf s \<Longrightarrow> idx_wf (createSnapshot u s)"
  by (auto simp: createSnapshot_def idx_wf_def Let_def frame)

lemma createSnapshot_last:
  assumes "log_wf s" and "0 \<le> lastIncludedIndex s" and "u \<le> getLastLogIndex s"
  shows "getLastLogIndex (createSnapshot u s) = getLastLogIndex s"
    and "getLastLogTerm (createSnapshot u s) = getLastLogTerm s"
proof -
  have wf: "log_wf (createSnapshot u s)"
    using assms(1,3) by (rule createSnapshot_log_wf)
  show "getLastLogIndex (createSnapshot u s) = getLastLogIndex s"
  proof (cases "createSnapshot u s = s")
    case False
    with createSnapshot_logs [OF assms(1) False] wf assms show ?thesis
      by (simp add: getLastLogIndex_eq)
  qed simp
  show "getLastLogTerm (createSnapshot u s) = getLastLogTerm s"
  proof (cases "createSnapshot u s = s")
    case False
    note c = createSnapshot_logs [OF assms(1) False]
    let ?k = "nat (u - lastIncludedIndex s)"
    have k: "0 < ?k" "?k \<le> length (logs s)"
      using c assms by (auto simp: getLastLogIndex_eq)
    then have "logs s \<noteq> []" by auto
    have "getLogTermAt u s = le_term (logs s ! (?k - 1))"
      using c k assms getLogTermAt_in [of s u]
      by (simp add: nat_diff_distrib' getLastLogIndex_eq)
    with c k \<open>logs s \<noteq> []\<close> show ?thesis
      by (cases "?k = length (logs s)") (auto simp: getLastLogTerm_def last_conv_nth)
  qed simp
qed

lemma createSnapshot_term:
  assumes "log_wf s" and "0 \<le> lastIncludedIndex s" and "u \<le> getLastLogIndex s"
    and "lastIncludedIndex (createSnapshot u s) \<le> i"
  shows "getLogTermAt i (createSnapshot u s) = getLogTermAt i s"
proof (cases "createSnapshot u s = s")
  case False
  note c = createSnapshot_logs [OF assms(1) False]
  with assms have u: "0 < u" "u \<le> i" "i \<noteq> 0" by auto
  show ?thesis
  proof (cases "i = u")
    case True
    with c u show ?thesis by (simp add: getLogTermAt_def)
  next
    case False
    with u c have pos: "nat (i - lastIncludedIndex s - 1) =
        nat (u - lastIncludedIndex s) + nat (i - u - 1)"
      by linarith
    show ?thesis
    proof (cases "i \<le> getLastLogIndex s")
      case True
      with False u c pos assms show ?thesis
        by (simp add: getLogTermAt_in getLastLogIndex_eq)
    next
      case out: False
      with False u c assms show ?thesis
        by (simp add: getLogTermAt_out getLastLogIndex_eq)
    qed
  qed
qed simp

section \<open>The apply loop\<close>

text \<open>What the loop reads and the configuration entries do not write.\<close>

definition core :: "'db node \<Rightarrow> int \<times> int \<times> int \<times> LogEntry list \<times> int \<times> PersistentStorage \<times> int \<times> int \<times>
    int \<times> int \<times> int" where
  "core s = (nid s, currentTerm s, votedFor s, logs s, commitIndex s, storage s,
     lastIncludedIndex s, lastIncludedTerm s, snapshotThreshold s, electionTimeoutMs s, rnd s)"

text \<open>One round of the loop: \<open>None\<close> where it ends.\<close>

definition applyNext :: "'db leveldb \<Rightarrow> 'db node \<Rightarrow> 'db node option" where
  "applyNext L s =
     (if \<not> lastApplied s < commitIndex s then None
      else if lastApplied s + 1 \<le> lastIncludedIndex s then Some (s\<lparr>lastApplied := lastApplied s + 1\<rparr>)
      else if \<not> hasLogAt (lastApplied s + 1) s then None
      else let e = logs s ! nat (logIndexToPos (lastApplied s + 1) s) in
        Some ((if le_op e = CONFIG_JOINT \<or> le_op e = CONFIG_NEW then applyConfigEntry e s
               else s\<lparr>kvStore := kv_apply L e (kvStore s)\<rparr>)\<lparr>lastApplied := lastApplied s + 1\<rparr>))"

lemma applyLoop_next: "applyLoop L s = (case applyNext L s of None \<Rightarrow> s | Some t \<Rightarrow> applyLoop L t)"
  by (subst applyLoop.simps) (auto simp: applyNext_def Let_def hasLogAt_def)

lemma applyNext_Some:
  assumes "applyNext L s = Some t"
  shows "core t = core s" and "lastApplied t = lastApplied s + 1"
    and "lastApplied s < commitIndex s"
  using assms by (auto simp: applyNext_def core_def Let_def frame split: if_splits)

lemma applyLoop_induct:
  assumes "\<And>s. (\<And>t. applyNext L s = Some t \<Longrightarrow> P t) \<Longrightarrow> P s"
  shows "P s"
proof (induction "nat (commitIndex s - lastApplied s)" arbitrary: s rule: less_induct)
  case less
  show ?case
  proof (rule assms)
    fix t
    assume "applyNext L s = Some t"
    from applyNext_Some [OF this] show "P t"
      by (intro less) (simp add: core_def)
  qed
qed

lemma core_applyLoop: "core (applyLoop L s) = core s"
proof (induction s rule: applyLoop_induct [of L])
  case (1 s)
  then show ?case
    using applyNext_Some(1) [of L s] by (subst applyLoop_next) (simp split: option.split)
qed

lemma applyLoop_frame [frame]:
  "nid (applyLoop L s) = nid s" "currentTerm (applyLoop L s) = currentTerm s"
  "votedFor (applyLoop L s) = votedFor s" "logs (applyLoop L s) = logs s"
  "commitIndex (applyLoop L s) = commitIndex s" "storage (applyLoop L s) = storage s"
  "lastIncludedIndex (applyLoop L s) = lastIncludedIndex s"
  "lastIncludedTerm (applyLoop L s) = lastIncludedTerm s"
  "snapshotThreshold (applyLoop L s) = snapshotThreshold s"
  "electionTimeoutMs (applyLoop L s) = electionTimeoutMs s" "rnd (applyLoop L s) = rnd s"
  using core_applyLoop [of L s] by (simp_all add: core_def)

lemma kv_apply_config: "is_config_op (le_op e) \<Longrightarrow> kv_apply L e k = k"
  by (auto simp: kv_apply_def is_config_op_def split: option.split)

text \<open>One round of the loop on an entry that is there.\<close>

definition applyOne :: "'db leveldb \<Rightarrow> LogEntry \<Rightarrow> 'db node \<Rightarrow> 'db node" where
  "applyOne L e s =
     (if le_op e = CONFIG_JOINT \<or> le_op e = CONFIG_NEW then applyConfigEntry e s
      else s\<lparr>kvStore := kv_apply L e (kvStore s)\<rparr>)"

lemma applyOne_frame [frame]: "core (applyOne L e s) = core s" "lastApplied (applyOne L e s) = lastApplied s"
  by (simp_all add: applyOne_def core_def frame)

lemma applyOne_kv [effect]: "kvStore (applyOne L e s) = kv_apply L e (kvStore s)"
  by (auto simp: applyOne_def frame kv_apply_config is_config_op_def)

text \<open>On a well-formed log the loop is a fold over the slice it has to apply.\<close>

lemma applyLoop_fold:
  assumes "log_wf s" and "lastIncludedIndex s \<le> lastApplied s"
    and "commitIndex s \<le> getLastLogIndex s"
  shows "applyLoop L s =
    fold (\<lambda>e s. (applyOne L e s)\<lparr>lastApplied := lastApplied s + 1\<rparr>)
      (log_slice (lastApplied s) (commitIndex s) s) s"
  using assms
proof (induction "nat (commitIndex s - lastApplied s)" arbitrary: s rule: less_induct)
  case less
  show ?case
  proof (cases "lastApplied s < commitIndex s")
    case False
    then show ?thesis by (subst applyLoop.simps) simp
  next
    case True
    let ?k = "nat (lastApplied s - lastIncludedIndex s)"
    define e where "e = logs s ! ?k"
    define t where "t = (applyOne L e s)\<lparr>lastApplied := lastApplied s + 1\<rparr>"
    have k: "?k < length (logs s)" "\<not> int (length (logs s)) \<le> lastApplied s - lastIncludedIndex s"
      using True less.prems by (simp_all add: getLastLogIndex_eq)
    have core: "core t = core s"
      using applyOne_frame(1) [of L e s] by (simp add: t_def core_def)
    have la: "lastApplied t = lastApplied s + 1"
      by (simp add: t_def)
    have unfold: "applyLoop L s = applyLoop L t"
      using True k less.prems
      by (subst applyLoop.simps) (simp add: Let_def logIndexToPos_def t_def applyOne_def e_def)
    have "applyLoop L t = fold (\<lambda>e s. (applyOne L e s)\<lparr>lastApplied := lastApplied s + 1\<rparr>)
        (log_slice (lastApplied t) (commitIndex t) t) t"
      using less.prems True core la
      by (intro less.hyps) (auto simp: core_def log_wf_def getLastLogIndex_def)
    with unfold core la log_slice_step [of s "lastApplied s" "commitIndex s"] True k less.prems
    show ?thesis
      by (simp add: core_def log_slice_def t_def e_def)
  qed
qed

lemma fold_applied:
  "lastApplied (fold (\<lambda>e s. (applyOne L e s)\<lparr>lastApplied := lastApplied s + 1\<rparr>) es s) =
     lastApplied s + int (length es)"
  "kvStore (fold (\<lambda>e s. (applyOne L e s)\<lparr>lastApplied := lastApplied s + 1\<rparr>) es s) =
     fold (kv_apply L) es (kvStore s)"
  by (induction es arbitrary: s) (simp_all add: effect)

lemma length_log_slice:
  assumes "log_wf s" and "lastIncludedIndex s \<le> a" and "a \<le> b" and "b \<le> getLastLogIndex s"
  shows "int (length (log_slice a b s)) = b - a"
  using assms by (simp add: log_slice_def getLastLogIndex_eq)

lemma applyLoop_effect:
  assumes "log_wf s" and "lastIncludedIndex s \<le> lastApplied s"
    and "commitIndex s \<le> getLastLogIndex s"
  shows "kvStore (applyLoop L s) =
      fold (kv_apply L) (log_slice (lastApplied s) (commitIndex s) s) (kvStore s)"
    and "lastApplied (applyLoop L s) = max (lastApplied s) (commitIndex s)"
  using length_log_slice [OF assms(1,2) _ assms(3)]
  by (simp_all add: applyLoop_fold [OF assms] fold_applied max_def)

text \<open>Without the bound on \<open>commitIndex\<close> the loop stops early, but never goes too far.\<close>

lemma applyLoop_bounds:
  "lastApplied s \<le> lastApplied (applyLoop L s) \<and>
   lastApplied (applyLoop L s) \<le> max (lastApplied s) (commitIndex s)"
proof (induction s rule: applyLoop_induct [of L])
  case (1 s)
  show ?case
  proof (cases "applyNext L s")
    case None
    then show ?thesis by (simp add: applyLoop_next)
  next
    case (Some t)
    with 1 applyNext_Some [OF Some] show ?thesis
      by (simp add: applyLoop_next [of L s] core_def)
  qed
qed

lemma initLeaderState_lead_wf: "lead_wf (initLeaderState s)"
  by (simp add: lead_wf_def effect frame)

lemma lead_wf_upd [simp]:
  "nstate s \<noteq> LEADER \<Longrightarrow> lead_wf s"
  "lead_wf (s\<lparr>votingMember := a, leaving := b, removed := c\<rparr>) = lead_wf s"
  by (simp_all add: lead_wf_def)

lemma rebuild_lead_wf:
  "lead_wf (rebuildPeersFromCurrentConfig s)" "lead_wf (rebuildPeersFromJointConfig s)"
  by (auto simp: rebuildPeersFromCurrentConfig_def rebuildPeersFromJointConfig_def Let_def
      initLeaderState_lead_wf)

lemma applyConfigEntry_lead_wf: "lead_wf s \<Longrightarrow> lead_wf (applyConfigEntry e s)"
  by (simp add: applyConfigEntry_def Let_def rebuild_lead_wf)

lemma applyNext_lead_wf: "applyNext L s = Some t \<Longrightarrow> lead_wf s \<Longrightarrow> lead_wf t"
  using applyConfigEntry_lead_wf [of s]
  by (auto simp: applyNext_def Let_def lead_wf_def split: if_splits)

lemma applyLoop_lead_wf: "lead_wf s \<Longrightarrow> lead_wf (applyLoop L s)"
proof (induction s rule: applyLoop_induct [of L])
  case (1 s)
  then show ?case
    by (subst applyLoop_next) (auto intro: applyNext_lead_wf split: option.split)
qed

section \<open>The invariant across the apply loop and compaction\<close>

lemma lead_wf_persist [simp]: "lead_wf (persist s) = lead_wf s"
  by (simp add: lead_wf_def frame)

lemma createSnapshot_lead_wf: "lead_wf s \<Longrightarrow> lead_wf (createSnapshot u s)"
  by (simp add: lead_wf_def frame)

lemma applyCommittedLogs_idx_wf:
  assumes "idx_wf s"
  shows "idx_wf (applyCommittedLogs L s)"
proof -
  have "idx_wf (applyLoop L s)"
    using assms applyLoop_bounds [of s L] by (auto simp: idx_wf_def frame)
  then show ?thesis
    using maybeCreateSnapshot_cases [of "applyLoop L s"]
    by (auto simp: applyCommittedLogs_def createSnapshot_idx_wf)
qed

lemma applyCommittedLogs_log_wf:
  assumes "log_wf s" and "lastApplied s \<le> getLastLogIndex s" and "commitIndex s \<le> getLastLogIndex s"
  shows "log_wf (applyCommittedLogs L s)"
proof -
  have wf: "log_wf (applyLoop L s)"
    using assms by (simp add: log_wf_def frame)
  have "lastApplied (applyLoop L s) \<le> getLastLogIndex (applyLoop L s)"
    using assms applyLoop_bounds [of s L] by (auto simp: getLastLogIndex_def frame)
  with wf maybeCreateSnapshot_cases [of "applyLoop L s"] show ?thesis
    by (auto simp: applyCommittedLogs_def createSnapshot_log_wf)
qed

lemma applyCommittedLogs_inv:
  assumes "node_inv s" and "commitIndex s \<le> getLastLogIndex s"
  shows "node_inv (applyCommittedLogs L s)"
proof (rule node_invI)
  have la: "lastApplied s \<le> getLastLogIndex s"
    using assms by (auto simp: node_inv_def idx_wf_def)
  show "log_wf (applyCommittedLogs L s)"
    using assms la by (auto simp: node_inv_def intro: applyCommittedLogs_log_wf)
  show "idx_wf (applyCommittedLogs L s)"
    using assms by (auto simp: node_inv_def intro: applyCommittedLogs_idx_wf)
  show "lead_wf (applyCommittedLogs L s)"
    using assms maybeCreateSnapshot_cases [of "applyLoop L s"]
    by (auto simp: node_inv_def applyCommittedLogs_def applyLoop_lead_wf createSnapshot_lead_wf)
  show "timer_wf (applyCommittedLogs L s)"
    using assms by (simp add: node_inv_def applyCommittedLogs_def timer_wf_def frame)
qed

lemma applyCommittedLogs_frame [frame]:
  "nid (applyCommittedLogs L s) = nid s" "currentTerm (applyCommittedLogs L s) = currentTerm s"
  "votedFor (applyCommittedLogs L s) = votedFor s" "commitIndex (applyCommittedLogs L s) = commitIndex s"
  "electionTimeoutMs (applyCommittedLogs L s) = electionTimeoutMs s"
  "rnd (applyCommittedLogs L s) = rnd s"
  by (simp_all add: applyCommittedLogs_def frame)

text \<open>Every entry up to \<open>commitIndex\<close> has been applied, in order and once.\<close>

lemma applyCommittedLogs_effect:
  assumes "log_wf s" and "lastIncludedIndex s \<le> lastApplied s" and "lastApplied s \<le> commitIndex s"
    and "commitIndex s \<le> getLastLogIndex s"
  shows "kvStore (applyCommittedLogs L s) =
      fold (kv_apply L) (log_slice (lastApplied s) (commitIndex s) s) (kvStore s)"
    and "lastApplied (applyCommittedLogs L s) = commitIndex s"
  using applyLoop_effect [OF assms(1,2,4), of L] assms(3)
  by (simp_all add: applyCommittedLogs_def frame)

text \<open>The log that is left reads as before, from the new snapshot index on.\<close>

lemma applyCommittedLogs_log:
  assumes "log_wf s" and "0 \<le> lastIncludedIndex s" and "lastIncludedIndex s \<le> lastApplied s"
    and "lastApplied s \<le> commitIndex s" and "commitIndex s \<le> getLastLogIndex s"
  shows "getLastLogIndex (applyCommittedLogs L s) = getLastLogIndex s"
    and "getLastLogTerm (applyCommittedLogs L s) = getLastLogTerm s"
    and "lastIncludedIndex s \<le> lastIncludedIndex (applyCommittedLogs L s)"
    and "lastIncludedIndex (applyCommittedLogs L s) \<le> i \<Longrightarrow>
      getLogTermAt i (applyCommittedLogs L s) = getLogTermAt i s"
proof -
  let ?t = "applyLoop L s"
  have same: "log_wf ?t = log_wf s" "getLastLogIndex ?t = getLastLogIndex s"
    "getLastLogTerm ?t = getLastLogTerm s" "getLogTermAt i ?t = getLogTermAt i s" for i
    by (simp_all add: log_wf_def getLastLogIndex_def getLastLogTerm_def getLogTermAt_def
        logIndexToPos_def frame)
  have la: "lastApplied ?t \<le> getLastLogIndex ?t"
    using applyLoop_effect(2) [OF assms(1,3,5), of L] assms(4,5) by (simp add: same)
  have c: "applyCommittedLogs L s = ?t \<or> applyCommittedLogs L s = createSnapshot (lastApplied ?t) ?t"
    using maybeCreateSnapshot_cases by (simp add: applyCommittedLogs_def)
  have li: "0 \<le> lastIncludedIndex ?t"
    using assms(2) by (simp add: frame)
  have wf: "log_wf ?t"
    using assms(1) by (simp add: same)
  show "getLastLogIndex (applyCommittedLogs L s) = getLastLogIndex s"
    using c createSnapshot_last(1) [OF wf li la] by (auto simp: same)
  show "getLastLogTerm (applyCommittedLogs L s) = getLastLogTerm s"
    using c createSnapshot_last(2) [OF wf li la] by (auto simp: same)
  show "lastIncludedIndex s \<le> lastIncludedIndex (applyCommittedLogs L s)"
    using c by (auto simp: createSnapshot_def Let_def frame)
  show "lastIncludedIndex (applyCommittedLogs L s) \<le> i \<Longrightarrow>
      getLogTermAt i (applyCommittedLogs L s) = getLogTermAt i s"
    using c createSnapshot_term [OF wf li la] by (auto simp: same)
qed

section \<open>Durability\<close>

lemma storage_save_writable [simp]: "st_writable (snd (storage_save v st)) = st_writable st"
  by (simp add: storage_save_def)

lemma durable_persist: "st_writable (storage s) \<Longrightarrow> durable (persist s)"
  by (simp add: durable_def persist_def storage_save_def persistent_of_def)

lemma durable_cong:
  "persistent_of s = persistent_of t \<Longrightarrow> storage s = storage t \<Longrightarrow> durable s = durable t"
  by (simp add: durable_def)

lemma writable_frame [frame]:
  "st_writable (storage (persist s)) = st_writable (storage s)"
  "st_writable (storage (becomeFollower t s)) = st_writable (storage s)"
  "st_writable (storage (becomeCandidate s)) = st_writable (storage s)"
  by (simp_all add: persist_def becomeFollower_def becomeCandidate_def resetElectionTimer_def)

lemma becomeFollower_durable: "st_writable (storage s) \<Longrightarrow> durable (becomeFollower t s)"
  by (simp add: becomeFollower_def durable_persist frame)

lemma becomeCandidate_durable: "st_writable (storage s) \<Longrightarrow> durable (becomeCandidate s)"
  by (simp add: becomeCandidate_def durable_persist frame)

lemma createSnapshot_durable: "durable s \<Longrightarrow> durable (createSnapshot u s)"
  by (auto simp: createSnapshot_def Let_def durable_def persist_def storage_save_def
      persistent_of_def)

lemma applyCommittedLogs_durable: "durable s \<Longrightarrow> durable (applyCommittedLogs L s)"
proof -
  assume "durable s"
  moreover have "persistent_of (applyLoop L s) = persistent_of s"
    by (simp add: persistent_of_def frame)
  ultimately have "durable (applyLoop L s)"
    using durable_cong [of "applyLoop L s" s] by (simp add: frame)
  then show ?thesis
    using maybeCreateSnapshot_cases [of "applyLoop L s"] createSnapshot_durable
    by (auto simp: applyCommittedLogs_def)
qed

text \<open>A restart finds what was written, through the storage contract.\<close>

lemma durable_load:
  assumes "durable s" and "saved_ok (persistent_of s)"
  shows "storage_load (storage s) = Some (persistent_of s)"
  using assms load_text_save by (simp add: durable_def storage_load_def)

end
