(* ===== verification/Raft_Quorum.thy ===== *)
theory Raft_Quorum
  imports Raft_Log
begin

text \<open>
  Majorities: votes counted by node id (elections) and log positions counted through
  \<open>matchIndex\<close> (commitment). The contract elections and commitment rest on, that two quorums
  share a member, is the locale \<open>quorum_system\<close>; majorities of a configuration satisfy it, and
  so do joint majorities.
\<close>

section \<open>Counting votes\<close>

definition containsNodeId :: "int list \<Rightarrow> int \<Rightarrow> bool" where
  "containsNodeId ids i \<longleftrightarrow> list_ex (\<lambda>x. x = i) ids"

definition hasMajorityInConfigByIds :: "ClusterConfig \<Rightarrow> int list \<Rightarrow> bool" where
  "hasMajorityInConfigByIds cfg grantedNodeIds \<longleftrightarrow>
     int (length (filter (\<lambda>n. containsNodeId grantedNodeIds (pi_id n)) (cfg_nodes cfg)))
       > cfg_size cfg div 2"

definition hasElectionMajority :: "int list \<Rightarrow> 'db node \<Rightarrow> bool" where
  "hasElectionMajority grantedNodeIds s \<longleftrightarrow>
     (if configState s = STABLE then hasMajorityInConfigByIds (currentConfig s) grantedNodeIds
      else hasMajorityInConfigByIds (oldConfig s) grantedNodeIds \<and>
           hasMajorityInConfigByIds (newConfig s) grantedNodeIds)"

section \<open>Counting replicas\<close>

text \<open>The position of a peer in \<open>peers_\<close>, or -1.\<close>

fun find_from :: "int \<Rightarrow> PeerInfo list \<Rightarrow> int \<Rightarrow> int" where
  "find_from i [] nodeId = -1"
| "find_from i (p # ps) nodeId = (if pi_id p = nodeId then i else find_from (i + 1) ps nodeId)"

definition findPeerIndexById :: "int \<Rightarrow> 'db node \<Rightarrow> int" where
  "findPeerIndexById nodeId s = find_from 0 (peers s) nodeId"

text \<open>Whether a member of the configuration counts as holding the log up to an index.\<close>

definition memberHolds :: "int \<Rightarrow> 'db node \<Rightarrow> PeerInfo \<Rightarrow> bool" where
  "memberHolds logIndex s n \<longleftrightarrow>
     (if pi_id n = nid s then getLastLogIndex s \<ge> logIndex
      else let peerIdx = findPeerIndexById (pi_id n) s in
        0 \<le> peerIdx \<and> peerIdx < int (length (matchIndex s)) \<and>
        matchIndex s ! nat peerIdx \<ge> logIndex)"

definition isMajorityInConfig :: "ClusterConfig \<Rightarrow> int \<Rightarrow> 'db node \<Rightarrow> bool" where
  "isMajorityInConfig config logIndex s \<longleftrightarrow>
     int (length (filter (memberHolds logIndex s) (cfg_nodes config))) > cfg_size config div 2"

definition isMajorityMatched :: "int \<Rightarrow> 'db node \<Rightarrow> bool" where
  "isMajorityMatched logIndex s \<longleftrightarrow>
     (if configState s = STABLE then isMajorityInConfig (currentConfig s) logIndex s
      else isMajorityInConfig (oldConfig s) logIndex s \<and>
           isMajorityInConfig (newConfig s) logIndex s)"

definition isMajorityMatchedForEntry :: "LogEntry \<Rightarrow> 'db node \<Rightarrow> bool" where
  "isMajorityMatchedForEntry entry s \<longleftrightarrow>
     (if le_op entry = CONFIG_JOINT then
        isMajorityInConfig \<lparr>cfg_nodes = le_oldConfig entry\<rparr> (le_index entry) s \<and>
        isMajorityInConfig \<lparr>cfg_nodes = le_newConfig entry\<rparr> (le_index entry) s
      else if configState s = JOINT then
        isMajorityInConfig (oldConfig s) (le_index entry) s \<and>
        isMajorityInConfig (newConfig s) (le_index entry) s
      else isMajorityInConfig (currentConfig s) (le_index entry) s)"

section \<open>The quorum contract\<close>

text \<open>
  A decision taken by a set of members, and the property elections need: two sets that can
  decide have a member in common.
\<close>

locale quorum_system =
  fixes decides :: "int set \<Rightarrow> bool" and members :: "int set"
  assumes intersect: "decides A \<Longrightarrow> decides B \<Longrightarrow> \<exists>x \<in> members. x \<in> A \<and> x \<in> B"
    and mono: "decides A \<Longrightarrow> A \<subseteq> B \<Longrightarrow> decides B"
begin

lemma nonempty: "decides A \<Longrightarrow> A \<noteq> {}"
  using intersect by blast

lemma not_both: "decides A \<Longrightarrow> \<not> decides (members - A)"
  using intersect by blast

text \<open>
  Members that promise to at most one candidate elect at most one: the core of election safety.
\<close>

lemma unique_choice:
  assumes "decides {x. vote x a}" and "decides {x. vote x b}"
    and "\<And>x c d. x \<in> members \<Longrightarrow> vote x c \<Longrightarrow> vote x d \<Longrightarrow> c = d"
  shows "a = b"
  using intersect [OF assms(1,2)] assms(3) by blast

end

text \<open>A majority of a configuration, as a set of ids.\<close>

definition majority :: "ClusterConfig \<Rightarrow> int set \<Rightarrow> bool" where
  "majority cfg A \<longleftrightarrow>
     int (length (filter (\<lambda>n. pi_id n \<in> A) (cfg_nodes cfg))) > cfg_size cfg div 2"

definition cfg_ids :: "ClusterConfig \<Rightarrow> int set" where
  "cfg_ids cfg = pi_id ` set (cfg_nodes cfg)"

lemma majority_overlap:
  assumes "majority cfg A" and "majority cfg B"
  shows "\<exists>x \<in> cfg_ids cfg. x \<in> A \<and> x \<in> B"
proof -
  have "length (cfg_nodes cfg) < length (filter (\<lambda>n. pi_id n \<in> A) (cfg_nodes cfg)) +
      length (filter (\<lambda>n. pi_id n \<in> B) (cfg_nodes cfg))"
    using assms unfolding majority_def cfg_size_def by linarith
  from filters_overlap [OF this] show ?thesis
    by (auto simp: cfg_ids_def)
qed

lemma majority_mono: "majority cfg A \<Longrightarrow> A \<subseteq> B \<Longrightarrow> majority cfg B"
  unfolding majority_def
  using length_filter_mono [of "cfg_nodes cfg" "\<lambda>n. pi_id n \<in> A" "\<lambda>n. pi_id n \<in> B"]
  by (smt (verit) of_nat_mono subsetD)

interpretation maj: quorum_system "majority cfg" "cfg_ids cfg" for cfg
  by unfold_locales (auto intro: majority_overlap majority_mono)

text \<open>
  During a membership change a decision needs a majority of the old and of the new
  configuration; it meets every joint decision, and every decision of either configuration.
\<close>

interpretation joint: quorum_system "\<lambda>A. majority old A \<and> majority new A" "cfg_ids old \<union> cfg_ids new"
  for old new
  by unfold_locales (use maj.intersect maj.mono in blast)+

lemma hasMajority_iff: "hasMajorityInConfigByIds cfg ids \<longleftrightarrow> majority cfg (set ids)"
  by (simp add: hasMajorityInConfigByIds_def majority_def containsNodeId_def list_ex_iff)

text \<open>What a node's current configuration requires of a decision.\<close>

definition node_decides :: "'db node \<Rightarrow> int set \<Rightarrow> bool" where
  "node_decides s A \<longleftrightarrow>
     (if configState s = STABLE then majority (currentConfig s) A
      else majority (oldConfig s) A \<and> majority (newConfig s) A)"

lemma hasElectionMajority_iff: "hasElectionMajority ids s \<longleftrightarrow> node_decides s (set ids)"
  by (simp add: hasElectionMajority_def node_decides_def hasMajority_iff)

section \<open>What a replica count means\<close>

lemma find_from_range: "find_from i ps n = -1 \<or> (i \<le> find_from i ps n \<and> find_from i ps n < i + int (length ps))"
  by (induction i ps n rule: find_from.induct) auto

lemma find_from_hit:
  "0 \<le> i \<Longrightarrow> find_from i ps n \<noteq> -1 \<Longrightarrow> pi_id (ps ! nat (find_from i ps n - i)) = n"
proof (induction i ps n rule: find_from.induct)
  case (2 i p ps n)
  show ?case
  proof (cases "pi_id p = n")
    case False
    with 2 find_from_range [of "i + 1" ps n] have
      "pi_id (ps ! nat (find_from (i + 1) ps n - (i + 1))) = n"
      "i + 1 \<le> find_from (i + 1) ps n"
      by auto
    moreover from this have
      "nat (find_from (i + 1) ps n - i) = Suc (nat (find_from (i + 1) ps n - (i + 1)))"
      by linarith
    ultimately show ?thesis
      using False by simp
  qed simp
qed simp

lemma find_from_miss: "0 \<le> i \<Longrightarrow> find_from i ps n = -1 \<longleftrightarrow> (\<forall>p \<in> set ps. pi_id p \<noteq> n)"
  by (induction i ps n rule: find_from.induct) auto

text \<open>The members a node believes to hold the log up to an index.\<close>

definition holders :: "int \<Rightarrow> 'db node \<Rightarrow> int set" where
  "holders logIndex s =
     {i. (i = nid s \<and> getLastLogIndex s \<ge> logIndex) \<or>
         (i \<noteq> nid s \<and> (let k = findPeerIndexById i s in
            0 \<le> k \<and> k < int (length (matchIndex s)) \<and> matchIndex s ! nat k \<ge> logIndex))}"

lemma isMajorityInConfig_iff: "isMajorityInConfig cfg i s \<longleftrightarrow> majority cfg (holders i s)"
proof -
  have "memberHolds i s = (\<lambda>n. pi_id n \<in> holders i s)"
    by (rule ext) (simp add: memberHolds_def holders_def Let_def)
  then show ?thesis
    by (simp add: isMajorityInConfig_def majority_def)
qed

lemma isMajorityMatched_iff: "isMajorityMatched i s \<longleftrightarrow> node_decides s (holders i s)"
  by (simp add: isMajorityMatched_def node_decides_def isMajorityInConfig_iff)

lemma isMajorityMatchedForEntry_iff:
  "isMajorityMatchedForEntry e s \<longleftrightarrow>
     (if le_op e = CONFIG_JOINT
      then majority \<lparr>cfg_nodes = le_oldConfig e\<rparr> (holders (le_index e) s) \<and>
           majority \<lparr>cfg_nodes = le_newConfig e\<rparr> (holders (le_index e) s)
      else node_decides s (holders (le_index e) s))"
  by (cases "configState s")
    (auto simp: isMajorityMatchedForEntry_def node_decides_def isMajorityInConfig_iff)

text \<open>
  A quorum that elected a leader and a quorum that holds an entry, of the same configuration
  state, meet: the intersection every commitment argument uses.
\<close>

lemma election_meets_commit:
  assumes "node_decides s A" and "node_decides t B"
    and "configState s = configState t" and "currentConfig s = currentConfig t"
    and "oldConfig s = oldConfig t" and "newConfig s = newConfig t"
  shows "\<exists>x. x \<in> A \<and> x \<in> B"
  using assms maj.intersect [of "currentConfig s" A B] maj.intersect [of "oldConfig s" A B]
  by (auto simp: node_decides_def split: if_splits)

end
