(* ===== verification/Raft_Handlers.thy ===== *)
theory Raft_Handlers
  imports Raft_Quorum
begin

text \<open>
  The three RPC handlers of \<open>raft_node.cpp\<close>. Each takes the node's mutex for its whole body, so
  a handler is one atomic step: the request and the node before give the reply and the node
  after.
\<close>

section \<open>RequestVote\<close>

definition handleRequestVote :: "RequestVoteArgs \<Rightarrow> 'db node \<Rightarrow> RequestVoteReply \<times> 'db node" where
  "handleRequestVote args s =
     (let reply = \<lparr>rvr_term = currentTerm s, rvr_voteGranted = False\<rparr> in
      if \<not> votingMember s then (reply, s)
      else if \<not> isNodeInCurrentVotingConfig (rv_candidateId args) s then (reply, s)
      else if rv_term args < currentTerm s then (reply, s)
      else
        let s1 = (if rv_term args > currentTerm s then becomeFollower (rv_term args) s else s);
            canVote = (votedFor s1 = -1 \<or> votedFor s1 = rv_candidateId args);
            logOk = isCandidateLogUpToDate (rv_lastLogIndex args) (rv_lastLogTerm args) s1
        in if canVote \<and> logOk then
             let s2 = s1\<lparr>votedFor := rv_candidateId args\<rparr>
             in (\<lparr>rvr_term = currentTerm s2, rvr_voteGranted = True\<rparr>,
                 persist (resetElectionTimer s2))
           else (reply, s1))"

section \<open>AppendEntries\<close>

text \<open>The loop over the received entries; the flag is \<open>logChanged\<close>.\<close>

fun appendLoop :: "LogEntry list \<Rightarrow> 'db node \<Rightarrow> bool \<Rightarrow> 'db node \<times> bool" where
  "appendLoop [] s logChanged = (s, logChanged)"
| "appendLoop (newEntry # es) s logChanged =
     (if le_index newEntry \<le> lastIncludedIndex s then appendLoop es s logChanged
      else let localPos = logIndexToPos (le_index newEntry) s in
        if localPos < int (length (logs s)) then
          if le_term (logs s ! nat localPos) \<noteq> le_term newEntry then
            appendLoop es (s\<lparr>logs := take (nat localPos) (logs s) @ [newEntry]\<rparr>) True
          else appendLoop es s logChanged
        else appendLoop es (s\<lparr>logs := logs s @ [newEntry]\<rparr>) True)"

definition handleAppendEntries ::
  "'db leveldb \<Rightarrow> AppendEntriesArgs \<Rightarrow> 'db node \<Rightarrow> AppendEntriesReply \<times> 'db node" where
  "handleAppendEntries L args s =
     (let reply = \<lparr>aer_term = currentTerm s, aer_success = False\<rparr> in
      if \<not> isNodeInCurrentVotingConfig (ae_leaderId args) s then (reply, s)
      else if ae_term args < currentTerm s then (reply, s)
      else
        let s1 = (if ae_term args > currentTerm s \<or> nstate s \<noteq> FOLLOWER
                  then becomeFollower (ae_term args) s else s);
            s2 = resetElectionTimer (s1\<lparr>leaderId := ae_leaderId args\<rparr>)
        in if ae_prevLogIndex args < lastIncludedIndex s2 then
             (\<lparr>aer_term = currentTerm s2, aer_success = True\<rparr>, s2)
           else if \<not> hasLogAt (ae_prevLogIndex args) s2 then (reply, s2)
           else if getLogTermAt (ae_prevLogIndex args) s2 \<noteq> ae_prevLogTerm args then (reply, s2)
           else
             let (s3, logChanged) = appendLoop (ae_entries args) s2 False;
                 s4 = (if logChanged then persist s3 else s3);
                 s5 = (if ae_leaderCommit args > commitIndex s4
                       then applyCommittedLogs L
                         (s4\<lparr>commitIndex := min (ae_leaderCommit args) (getLastLogIndex s4)\<rparr>)
                       else s4)
             in (\<lparr>aer_term = currentTerm s5, aer_success = True\<rparr>, s5))"

section \<open>InstallSnapshot\<close>

definition handleInstallSnapshot ::
  "'db leveldb \<Rightarrow> InstallSnapshotArgs \<Rightarrow> 'db node \<Rightarrow> InstallSnapshotReply \<times> 'db node" where
  "handleInstallSnapshot L args s =
     (let reply = \<lparr>isr_term = currentTerm s\<rparr> in
      if sn_term args < currentTerm s then (reply, s)
      else
        let s1 = (if sn_term args > currentTerm s \<or> nstate s \<noteq> FOLLOWER
                  then becomeFollower (sn_term args) s else s);
            s2 = resetElectionTimer (s1\<lparr>leaderId := sn_leaderId args\<rparr>)
        in if sn_lastIncludedIndex args \<le> lastIncludedIndex s2 then
             (\<lparr>isr_term = currentTerm s2\<rparr>, s2)
           else
             let s3 = s2\<lparr>kvStore := kv_loadFromSnapshot L (sn_kvData args) (kvStore s2)\<rparr>;
                 s4 = s3\<lparr>logs := filter (\<lambda>e. le_index e > sn_lastIncludedIndex args) (logs s3),
                         lastIncludedIndex := sn_lastIncludedIndex args,
                         lastIncludedTerm := sn_lastIncludedTerm args\<rparr>;
                 s5 = s4\<lparr>commitIndex := max (commitIndex s4) (lastIncludedIndex s4),
                         lastApplied := max (lastApplied s4) (lastIncludedIndex s4)\<rparr>;
                 s6 = persist s5
             in (\<lparr>isr_term = currentTerm s6\<rparr>, s6))"

section \<open>Facts about RequestVote\<close>

text \<open>The three early returns leave the node alone and refuse.\<close>

lemma handleRequestVote_refused:
  assumes "\<not> votingMember s \<or> \<not> isNodeInCurrentVotingConfig (rv_candidateId args) s \<or>
    rv_term args < currentTerm s"
  shows "handleRequestVote args s = (\<lparr>rvr_term = currentTerm s, rvr_voteGranted = False\<rparr>, s)"
  using assms by (auto simp: handleRequestVote_def Let_def)

lemma handleRequestVote_frame [frame]:
  "nid (snd (handleRequestVote args s)) = nid s"
  "logs (snd (handleRequestVote args s)) = logs s"
  "commitIndex (snd (handleRequestVote args s)) = commitIndex s"
  "lastApplied (snd (handleRequestVote args s)) = lastApplied s"
  "kvStore (snd (handleRequestVote args s)) = kvStore s"
  "peers (snd (handleRequestVote args s)) = peers s"
  "nextIndex (snd (handleRequestVote args s)) = nextIndex s"
  "matchIndex (snd (handleRequestVote args s)) = matchIndex s"
  "lastIncludedIndex (snd (handleRequestVote args s)) = lastIncludedIndex s"
  "lastIncludedTerm (snd (handleRequestVote args s)) = lastIncludedTerm s"
  "configState (snd (handleRequestVote args s)) = configState s"
  "currentConfig (snd (handleRequestVote args s)) = currentConfig s"
  "oldConfig (snd (handleRequestVote args s)) = oldConfig s"
  "newConfig (snd (handleRequestVote args s)) = newConfig s"
  "votingMember (snd (handleRequestVote args s)) = votingMember s"
  "st_writable (storage (snd (handleRequestVote args s))) = st_writable (storage s)"
  by (simp_all add: handleRequestVote_def Let_def frame)

text \<open>What a granted vote says about the voter before and after.\<close>

lemma handleRequestVote_granted:
  assumes "handleRequestVote args s = (r, t)" and "rvr_voteGranted r"
  shows "votingMember s" and "isNodeInCurrentVotingConfig (rv_candidateId args) s"
    and "currentTerm s \<le> rv_term args" and "currentTerm t = rv_term args"
    and "votedFor t = rv_candidateId args" and "rvr_term r = rv_term args"
    and "currentTerm s = rv_term args \<Longrightarrow> votedFor s = -1 \<or> votedFor s = rv_candidateId args"
    and "last_pos s \<le> LogPos (rv_lastLogTerm args) (rv_lastLogIndex args)"
    and "currentTerm s < rv_term args \<Longrightarrow> nstate t = FOLLOWER"
    and "currentTerm s = rv_term args \<Longrightarrow> nstate t = nstate s"
  using assms
  by (auto simp: handleRequestVote_def Let_def frame effect isCandidateLogUpToDate_order
      last_pos_def getLastLogIndex_def getLastLogTerm_def split: if_splits)

lemma handleRequestVote_not_granted:
  assumes "handleRequestVote args s = (r, t)" and "\<not> rvr_voteGranted r"
  shows "t = s \<or> (currentTerm s < rv_term args \<and> t = becomeFollower (rv_term args) s)"
    and "rvr_term r = currentTerm s"
  using assms by (auto simp: handleRequestVote_def Let_def split: if_splits)

lemma handleRequestVote_lead_wf: "lead_wf s \<Longrightarrow> lead_wf (snd (handleRequestVote args s))"
  by (auto simp: handleRequestVote_def Let_def lead_wf_def frame effect)

lemma timer_wf_reset: "timer_wf (resetElectionTimer s)"
  by (simp add: timer_wf_def resetElectionTimer_def)

lemma timer_wf_persist [simp]: "timer_wf (persist s) = timer_wf s"
  by (simp add: timer_wf_def frame)

lemma becomeFollower_timer_wf: "timer_wf (becomeFollower t s)"
  by (simp add: becomeFollower_def timer_wf_reset)

lemma becomeFollower_inv: "node_inv s \<Longrightarrow> node_inv (becomeFollower t s)"
  by (simp add: node_inv_def log_wf_def idx_wf_def lead_wf_def frame effect becomeFollower_timer_wf)

lemma becomeCandidate_inv: "node_inv s \<Longrightarrow> node_inv (becomeCandidate s)"
  by (simp add: node_inv_def log_wf_def idx_wf_def lead_wf_def frame effect)
    (simp add: becomeCandidate_def timer_wf_reset)

lemma becomeLeader_inv: "node_inv s \<Longrightarrow> node_inv (becomeLeader s)"
  by (auto simp: node_inv_def becomeLeader_def initLeaderState_lead_wf log_wf_def idx_wf_def
      timer_wf_def frame)

lemma handleRequestVote_inv_aux: "node_inv s \<Longrightarrow> node_inv (snd (handleRequestVote args s))"
  using handleRequestVote_lead_wf [of s args]
  by (auto simp: node_inv_def log_wf_def idx_wf_def frame)
    (auto simp: handleRequestVote_def Let_def timer_wf_reset becomeFollower_timer_wf)

lemma handleRequestVote_durable:
  assumes "durable s"
  shows "durable (snd (handleRequestVote args s))"
proof -
  have w: "st_writable (storage s)"
    using assms by (simp add: durable_def)
  show ?thesis
    using assms w by (auto simp: handleRequestVote_def Let_def frame becomeFollower_durable
        intro!: durable_persist)
qed

section \<open>Facts about the append loop\<close>

lemma appendLoop_frame:
  "\<exists>ls. fst (appendLoop es s c) = s\<lparr>logs := ls\<rparr>"
proof (induction es s c rule: appendLoop.induct)
  case (1 s c)
  show ?case by (rule exI [of _ "logs s"]) simp
qed (auto simp: Let_def)

text \<open>
  A reference definition of what the loop computes: find the first received entry that the
  local log does not have, by term; if there is one, cut there and append the rest.
\<close>

definition append_ref :: "nat \<Rightarrow> LogEntry list \<Rightarrow> LogEntry list \<Rightarrow> LogEntry list" where
  "append_ref p es ls =
     (let n = length (takeWhile (\<lambda>(a, b). le_term a = le_term b) (zip (drop p ls) es))
      in if n = length es then ls else take (p + n) ls @ drop n es)"

text \<open>Past the first difference every entry is new.\<close>

lemma appendLoop_tail:
  assumes "numbered_from le_index (lastIncludedIndex s + int (length (logs s))) es"
  shows "appendLoop es s c = (s\<lparr>logs := logs s @ es\<rparr>, c \<or> es \<noteq> [])"
  using assms
proof (induction es arbitrary: s c)
  case (Cons e es)
  let ?t = "s\<lparr>logs := logs s @ [e]\<rparr>"
  from Cons.prems have "appendLoop es ?t True = (?t\<lparr>logs := logs ?t @ es\<rparr>, True)"
    by (subst Cons.IH) (auto simp: algebra_simps)
  with Cons.prems show ?case
    by (simp add: logIndexToPos_def)
qed simp

lemma append_ref_match:
  "p < length ls \<Longrightarrow> le_term (ls ! p) = le_term e \<Longrightarrow>
     append_ref p (e # es) ls = append_ref (Suc p) es ls"
  by (simp add: append_ref_def Let_def Cons_nth_drop_Suc [symmetric])

lemma append_ref_conflict:
  "p < length ls \<Longrightarrow> le_term (ls ! p) \<noteq> le_term e \<Longrightarrow>
     append_ref p (e # es) ls = take p ls @ e # es"
  by (simp add: append_ref_def Let_def Cons_nth_drop_Suc [symmetric])

lemma append_ref_end: "length ls = p \<Longrightarrow> append_ref p es ls = ls @ es"
  by (simp add: append_ref_def)

lemma appendLoop_ref:
  assumes "log_wf s" and "numbered_from le_index prev es"
    and "lastIncludedIndex s \<le> prev" and "prev \<le> getLastLogIndex s"
  shows "fst (appendLoop es s c) = s\<lparr>logs := append_ref (nat (prev - lastIncludedIndex s)) es (logs s)\<rparr>"
  using assms
proof (induction es arbitrary: s prev c)
  case Nil
  then show ?case by (simp add: append_ref_def)
next
  case (Cons e es)
  let ?p = "nat (prev - lastIncludedIndex s)"
  have e: "le_index e = prev + 1" "numbered_from le_index (prev + 1) es"
    using Cons.prems by auto
  have len: "?p \<le> length (logs s)"
    using Cons.prems by (simp add: getLastLogIndex_eq)
  show ?case
  proof (cases "?p < length (logs s)")
    case False
    with len have p: "length (logs s) = ?p" by simp
    with Cons.prems have "appendLoop (e # es) s c = (s\<lparr>logs := logs s @ e # es\<rparr>, True)"
      by (subst appendLoop_tail) auto
    with p show ?thesis by (simp add: append_ref_end)
  next
    case True
    have pos: "nat (logIndexToPos (le_index e) s) = ?p" "logIndexToPos (le_index e) s < int (length (logs s))"
      using True e Cons.prems(3) by (auto simp: logIndexToPos_def)
    show ?thesis
    proof (cases "le_term (logs s ! ?p) = le_term e")
      case match: True
      have "nat (prev + 1 - lastIncludedIndex s) = Suc ?p"
        using Cons.prems(3) by simp
      with Cons.IH [of s "prev + 1" c] Cons.prems e True match pos append_ref_match show ?thesis
        by (simp add: Let_def getLastLogIndex_eq)
    next
      case conflict: False
      let ?t = "s\<lparr>logs := take ?p (logs s) @ [e]\<rparr>"
      have "appendLoop es ?t True = (?t\<lparr>logs := logs ?t @ es\<rparr>, True)"
        using e True Cons.prems(3) by (subst appendLoop_tail) (auto simp: min_def algebra_simps)
      with e True conflict pos Cons.prems(3) append_ref_conflict show ?thesis
        by (simp add: Let_def)
    qed
  qed
qed

lemma append_ref_numbered:
  assumes "numbered_from le_index b ls" and "numbered_from le_index (b + int p) es" and "p \<le> length ls"
  shows "numbered_from le_index b (append_ref p es ls)"
proof -
  define n where "n = length (takeWhile (\<lambda>(a, b). le_term a = le_term b) (zip (drop p ls) es))"
  have n: "n \<le> length ls - p" "n \<le> length es"
    using length_takeWhile_le [of _ "zip (drop p ls) es"] by (simp_all add: n_def)
  have "numbered_from le_index (b + int p + int n) (drop n es)"
    using assms(2) n(2) by (rule numbered_from_drop)
  moreover have "p + n \<le> length ls"
    using n(1) assms(3) by linarith
  moreover have "append_ref p es ls = (if n = length es then ls else take (p + n) ls @ drop n es)"
    by (simp add: append_ref_def Let_def n_def)
  ultimately show ?thesis
    using assms(1) numbered_from_take [OF assms(1), of "p + n"] by (simp add: algebra_simps)
qed

text \<open>After the loop the local log agrees with the received entries, term by term.\<close>

lemma append_ref_terms:
  assumes "p \<le> length ls" and "i < length es"
  shows "p + i < length (append_ref p es ls) \<and>
    le_term (append_ref p es ls ! (p + i)) = le_term (es ! i)"
proof -
  define n where "n = length (takeWhile (\<lambda>(a, b). le_term a = le_term b) (zip (drop p ls) es))"
  have n: "n \<le> length ls - p" "n \<le> length es"
    using length_takeWhile_le [of _ "zip (drop p ls) es"] by (simp_all add: n_def)
  have eq: "le_term (ls ! (p + j)) = le_term (es ! j)" if "j < n" for j
  proof -
    have "zip (drop p ls) es ! j \<in> set (takeWhile (\<lambda>(a, b). le_term a = le_term b) (zip (drop p ls) es))"
      using that by (auto simp: n_def in_set_conv_nth takeWhile_nth intro!: exI [of _ j])
    from set_takeWhileD [OF this] that n assms(1) show ?thesis
      by simp
  qed
  have ref: "append_ref p es ls = (if n = length es then ls else take (p + n) ls @ drop n es)"
    by (simp add: append_ref_def Let_def n_def)
  have "p + n \<le> length ls"
    using n(1) assms(1) by linarith
  with n assms eq [of i] show ?thesis
    by (simp add: ref nth_append)
qed

text \<open>What lies before the received entries, and every entry they agree with, is kept.\<close>

lemma append_ref_prefix: "p \<le> length ls \<Longrightarrow> take p (append_ref p es ls) = take p ls"
  by (simp add: append_ref_def Let_def min_def)

lemma append_ref_keeps:
  assumes "p \<le> length ls" and "m \<le> length ls"
    and "\<And>i. i < length es \<Longrightarrow> p + i < m \<Longrightarrow> le_term (ls ! (p + i)) = le_term (es ! i)"
  shows "take m (append_ref p es ls) = take m ls"
proof -
  define n where "n = length (takeWhile (\<lambda>(a, b). le_term a = le_term b) (zip (drop p ls) es))"
  have n: "n \<le> length ls - p" "n \<le> length es"
    using length_takeWhile_le [of _ "zip (drop p ls) es"] by (simp_all add: n_def)
  have ref: "append_ref p es ls = (if n = length es then ls else take (p + n) ls @ drop n es)"
    by (simp add: append_ref_def Let_def n_def)
  have "m \<le> p + n" if "n < length es"
  proof (rule ccontr)
    assume "\<not> m \<le> p + n"
    with assms(2) that n have lt: "n < length (zip (drop p ls) es)"
      by simp
    from nth_length_takeWhile [OF lt [unfolded n_def]] n that lt assms(1)
    have "le_term (ls ! (p + n)) \<noteq> le_term (es ! n)"
      by (simp add: n_def split: prod.splits)
    with assms(3) [of n] that \<open>\<not> m \<le> p + n\<close> show False by simp
  qed
  then show ?thesis
    using n assms(1) by (auto simp: ref min_def)
qed

end
