(* ===== verification/Handler_Facts.thy ===== *)
theory Handler_Facts
  imports Raft_Handlers
begin

text \<open>
  What AppendEntries and InstallSnapshot do on each of their branches, that they keep the
  node's invariant, and that whatever they change of the persistent state is on disk before
  they reply.
\<close>

section \<open>The node's invariant with its commit index\<close>

definition node_ok :: "'db node \<Rightarrow> bool" where
  "node_ok s \<longleftrightarrow> node_inv s \<and> commitIndex s \<le> getLastLogIndex s"

lemma node_okD:
  assumes "node_ok s"
  shows "log_wf s" "idx_wf s" "lead_wf s" "timer_wf s" "commitIndex s \<le> getLastLogIndex s"
    "0 \<le> lastIncludedIndex s" "lastIncludedIndex s \<le> lastApplied s" "lastApplied s \<le> commitIndex s"
  using assms by (auto simp: node_ok_def node_inv_def idx_wf_def)

section \<open>Stepping down on a message from a leader\<close>

text \<open>What both handlers do once they accept the sender's term.\<close>

definition stepDown :: "int \<Rightarrow> int \<Rightarrow> 'db node \<Rightarrow> 'db node" where
  "stepDown t l s =
     resetElectionTimer ((if t > currentTerm s \<or> nstate s \<noteq> FOLLOWER then becomeFollower t s else s)
       \<lparr>leaderId := l\<rparr>)"

lemma stepDown_frame [frame]:
  "nid (stepDown t l s) = nid s" "logs (stepDown t l s) = logs s"
  "commitIndex (stepDown t l s) = commitIndex s" "lastApplied (stepDown t l s) = lastApplied s"
  "kvStore (stepDown t l s) = kvStore s" "peers (stepDown t l s) = peers s"
  "nextIndex (stepDown t l s) = nextIndex s" "matchIndex (stepDown t l s) = matchIndex s"
  "lastIncludedIndex (stepDown t l s) = lastIncludedIndex s"
  "lastIncludedTerm (stepDown t l s) = lastIncludedTerm s"
  "snapshotThreshold (stepDown t l s) = snapshotThreshold s"
  "configState (stepDown t l s) = configState s"
  "currentConfig (stepDown t l s) = currentConfig s" "oldConfig (stepDown t l s) = oldConfig s"
  "newConfig (stepDown t l s) = newConfig s" "votingMember (stepDown t l s) = votingMember s"
  "st_writable (storage (stepDown t l s)) = st_writable (storage s)"
  by (simp_all add: stepDown_def frame)

lemma stepDown_effect [effect]:
  "nstate (stepDown t l s) = FOLLOWER"
  "leaderId (stepDown t l s) = l"
  "currentTerm s \<le> t \<Longrightarrow> currentTerm (stepDown t l s) = t"
  "votedFor (stepDown t l s) =
     (if t > currentTerm s \<or> nstate s \<noteq> FOLLOWER then -1 else votedFor s)"
  by (auto simp: stepDown_def frame effect)

lemma log_wf_stepDown [simp]: "log_wf (stepDown t l s) = log_wf s"
  by (simp add: log_wf_def frame)

lemma log_reads_stepDown [simp]:
  "getLastLogIndex (stepDown t l s) = getLastLogIndex s"
  "getLastLogTerm (stepDown t l s) = getLastLogTerm s"
  "getLogTermAt i (stepDown t l s) = getLogTermAt i s"
  "hasLogAt i (stepDown t l s) = hasLogAt i s"
  by (simp_all add: getLastLogIndex_def getLastLogTerm_def getLogTermAt_def hasLogAt_def
      logIndexToPos_def frame)

lemma stepDown_ok: "node_ok s \<Longrightarrow> node_ok (stepDown t l s)"
  by (simp add: node_ok_def node_inv_def idx_wf_def frame effect)
    (simp add: stepDown_def timer_wf_reset)

lemma stepDown_durable: "durable s \<Longrightarrow> durable (stepDown t l s)"
proof -
  assume d: "durable s"
  then have "durable (if t > currentTerm s \<or> nstate s \<noteq> FOLLOWER then becomeFollower t s else s)"
    by (simp add: becomeFollower_durable durable_def [of s])
  then show ?thesis
    unfolding stepDown_def
    by (rule durable_cong [THEN iffD1, rotated 2]) (simp_all add: persistent_of_def frame)
qed

section \<open>AppendEntries, branch by branch\<close>

definition ae_accepted :: "AppendEntriesArgs \<Rightarrow> 'db node \<Rightarrow> bool" where
  "ae_accepted args s \<longleftrightarrow>
     isNodeInCurrentVotingConfig (ae_leaderId args) s \<and> currentTerm s \<le> ae_term args"

definition ae_match :: "AppendEntriesArgs \<Rightarrow> 'db node \<Rightarrow> bool" where
  "ae_match args s \<longleftrightarrow>
     lastIncludedIndex s \<le> ae_prevLogIndex args \<and> hasLogAt (ae_prevLogIndex args) s \<and>
     getLogTermAt (ae_prevLogIndex args) s = ae_prevLogTerm args"

text \<open>The entries are numbered from the one after \<open>prevLogIndex\<close>, as a leader sends them.\<close>

definition ae_wf :: "AppendEntriesArgs \<Rightarrow> bool" where
  "ae_wf args \<longleftrightarrow> numbered_from le_index (ae_prevLogIndex args) (ae_entries args)"

text \<open>The state once the entries are in the log, before the commit index moves.\<close>

definition ae_append :: "AppendEntriesArgs \<Rightarrow> 'db node \<Rightarrow> 'db node" where
  "ae_append args s =
     (let (t, changed) = appendLoop (ae_entries args) (stepDown (ae_term args) (ae_leaderId args) s) False
      in if changed then persist t else t)"

definition ae_commit :: "'db leveldb \<Rightarrow> AppendEntriesArgs \<Rightarrow> 'db node \<Rightarrow> 'db node" where
  "ae_commit L args s =
     (if ae_leaderCommit args > commitIndex s
      then applyCommittedLogs L (s\<lparr>commitIndex := min (ae_leaderCommit args) (getLastLogIndex s)\<rparr>)
      else s)"

lemma handleAppendEntries_alt:
  "handleAppendEntries L args s =
     (if \<not> ae_accepted args s then (\<lparr>aer_term = currentTerm s, aer_success = False\<rparr>, s)
      else let s2 = stepDown (ae_term args) (ae_leaderId args) s in
        if ae_prevLogIndex args < lastIncludedIndex s2 then
          (\<lparr>aer_term = currentTerm s2, aer_success = True\<rparr>, s2)
        else if \<not> ae_match args s2 then (\<lparr>aer_term = currentTerm s, aer_success = False\<rparr>, s2)
        else let s5 = ae_commit L args (ae_append args s)
             in (\<lparr>aer_term = currentTerm s5, aer_success = True\<rparr>, s5))"
  by (simp add: handleAppendEntries_def ae_accepted_def ae_match_def ae_append_def ae_commit_def
      stepDown_def Let_def split_beta not_less)

lemma ae_match_stepDown [simp]: "ae_match args (stepDown t l s) = ae_match args s"
  by (simp add: ae_match_def frame)

lemma handleAppendEntries_rejected:
  "\<not> ae_accepted args s \<Longrightarrow>
     handleAppendEntries L args s = (\<lparr>aer_term = currentTerm s, aer_success = False\<rparr>, s)"
  by (simp add: handleAppendEntries_alt)

lemma handleAppendEntries_stale:
  "ae_accepted args s \<Longrightarrow> ae_prevLogIndex args < lastIncludedIndex s \<Longrightarrow>
     handleAppendEntries L args s =
       (\<lparr>aer_term = ae_term args, aer_success = True\<rparr>,
        stepDown (ae_term args) (ae_leaderId args) s)"
  using stepDown_effect(3) [of s "ae_term args" "ae_leaderId args"]
  by (simp add: handleAppendEntries_alt frame) (simp add: ae_accepted_def)

lemma handleAppendEntries_mismatch:
  "ae_accepted args s \<Longrightarrow> lastIncludedIndex s \<le> ae_prevLogIndex args \<Longrightarrow> \<not> ae_match args s \<Longrightarrow>
     handleAppendEntries L args s =
       (\<lparr>aer_term = currentTerm s, aer_success = False\<rparr>,
        stepDown (ae_term args) (ae_leaderId args) s)"
  by (simp add: handleAppendEntries_alt frame)

lemma appendLoop_core:
  "currentTerm (fst (appendLoop es s c)) = currentTerm s"
  "commitIndex (fst (appendLoop es s c)) = commitIndex s"
  using appendLoop_frame [of es s c] by auto

lemma ae_append_term: "ae_accepted args s \<Longrightarrow> currentTerm (ae_append args s) = ae_term args"
  by (simp add: ae_append_def ae_accepted_def split_beta frame effect appendLoop_core)

lemma ae_commit_term [simp]: "currentTerm (ae_commit L args s) = currentTerm s"
  by (simp add: ae_commit_def frame)

lemma handleAppendEntries_matched:
  "ae_accepted args s \<Longrightarrow> ae_match args s \<Longrightarrow>
     handleAppendEntries L args s =
       (\<lparr>aer_term = ae_term args, aer_success = True\<rparr>, ae_commit L args (ae_append args s))"
  by (simp add: handleAppendEntries_alt frame ae_append_term Let_def) (simp add: ae_match_def)

text \<open>The four branches cover every request.\<close>

lemma handleAppendEntries_cases:
  obtains (rejected) "\<not> ae_accepted args s"
  | (stale) "ae_accepted args s" "ae_prevLogIndex args < lastIncludedIndex s"
  | (mismatch) "ae_accepted args s" "lastIncludedIndex s \<le> ae_prevLogIndex args" "\<not> ae_match args s"
  | (matched) "ae_accepted args s" "ae_match args s"
  by (cases "ae_accepted args s"; cases "ae_prevLogIndex args < lastIncludedIndex s") auto

lemmas handleAppendEntries_simps =
  handleAppendEntries_rejected handleAppendEntries_stale handleAppendEntries_mismatch
  handleAppendEntries_matched

section \<open>The log after a matching AppendEntries\<close>

lemma appendLoop_changed: "snd (appendLoop es s True)"
  by (induction es arbitrary: s) (simp_all add: Let_def)

lemma appendLoop_unchanged: "\<not> snd (appendLoop es s False) \<Longrightarrow> fst (appendLoop es s False) = s"
  by (induction es) (simp_all add: Let_def appendLoop_changed split: if_split_asm)

lemma ae_append_durable:
  assumes "durable s"
  shows "durable (ae_append args s)"
proof -
  let ?a = "appendLoop (ae_entries args) (stepDown (ae_term args) (ae_leaderId args) s) False"
  have d: "durable (stepDown (ae_term args) (ae_leaderId args) s)"
    using assms by (rule stepDown_durable)
  have "st_writable (storage (fst ?a))"
    using d appendLoop_frame [of "ae_entries args" "stepDown (ae_term args) (ae_leaderId args) s" False]
    by (auto simp: durable_def)
  then show ?thesis
    using d appendLoop_unchanged [of "ae_entries args" "stepDown (ae_term args) (ae_leaderId args) s"]
    by (auto simp: ae_append_def split_beta durable_persist)
qed

lemma ae_append_frame [frame]:
  "nid (ae_append args s) = nid s" "commitIndex (ae_append args s) = commitIndex s"
  "lastApplied (ae_append args s) = lastApplied s" "kvStore (ae_append args s) = kvStore s"
  "peers (ae_append args s) = peers s" "nstate (ae_append args s) = FOLLOWER"
  "lastIncludedIndex (ae_append args s) = lastIncludedIndex s"
  "lastIncludedTerm (ae_append args s) = lastIncludedTerm s"
  "configState (ae_append args s) = configState s"
  "currentConfig (ae_append args s) = currentConfig s"
  "oldConfig (ae_append args s) = oldConfig s" "newConfig (ae_append args s) = newConfig s"
  "votingMember (ae_append args s) = votingMember s"
  "electionTimeoutMs (ae_append args s) =
     electionTimeoutMs (stepDown (ae_term args) (ae_leaderId args) s)"
  using appendLoop_frame [of "ae_entries args" "stepDown (ae_term args) (ae_leaderId args) s" False]
  by (auto simp: ae_append_def split_beta frame effect)

lemma ae_append_logs:
  assumes "log_wf s" and "ae_match args s" and "ae_wf args"
  shows "logs (ae_append args s) =
    append_ref (nat (ae_prevLogIndex args - lastIncludedIndex s)) (ae_entries args) (logs s)"
proof -
  let ?s = "stepDown (ae_term args) (ae_leaderId args) s"
  have "lastIncludedIndex ?s \<le> ae_prevLogIndex args" "ae_prevLogIndex args \<le> getLastLogIndex ?s"
    using assms(1,2) by (auto simp: ae_match_def hasLogAt_iff frame)
  with assms appendLoop_ref [of ?s "ae_prevLogIndex args" "ae_entries args" False] show ?thesis
    by (simp add: ae_append_def split_beta ae_wf_def frame)
qed

lemma ae_append_log_wf:
  assumes "log_wf s" and "ae_match args s" and "ae_wf args"
  shows "log_wf (ae_append args s)"
proof -
  let ?p = "nat (ae_prevLogIndex args - lastIncludedIndex s)"
  have "?p \<le> length (logs s)" "lastIncludedIndex s \<le> ae_prevLogIndex args"
    using assms(1,2) by (auto simp: ae_match_def hasLogAt_iff getLastLogIndex_eq)
  with assms show ?thesis
    by (simp add: log_wf_def frame ae_append_logs append_ref_numbered ae_wf_def)
qed

text \<open>The received entries are in the log.\<close>

lemma ae_append_terms:
  assumes "node_ok s" and "ae_match args s" and "ae_wf args" and "i < length (ae_entries args)"
  shows "ae_prevLogIndex args + 1 + int i \<le> getLastLogIndex (ae_append args s)"
    and "getLogTermAt (ae_prevLogIndex args + 1 + int i) (ae_append args s) =
      le_term (ae_entries args ! i)"
proof -
  let ?p = "nat (ae_prevLogIndex args - lastIncludedIndex s)"
  note ok = node_okD [OF assms(1)]
  have p: "?p \<le> length (logs s)" "lastIncludedIndex s \<le> ae_prevLogIndex args"
    using ok assms(2) by (auto simp: ae_match_def hasLogAt_iff getLastLogIndex_eq)
  have logs: "logs (ae_append args s) = append_ref ?p (ae_entries args) (logs s)"
    using ok assms by (intro ae_append_logs) auto
  have wf: "log_wf (ae_append args s)"
    using ok assms by (intro ae_append_log_wf) auto
  note terms = append_ref_terms [OF p(1) assms(4)]
  have "getLastLogIndex (ae_append args s) = lastIncludedIndex s +
      int (length (append_ref ?p (ae_entries args) (logs s)))"
    using wf by (simp add: getLastLogIndex_eq logs frame)
  with terms p(2) show last: "ae_prevLogIndex args + 1 + int i \<le> getLastLogIndex (ae_append args s)"
    by linarith
  have "nat (ae_prevLogIndex args + 1 + int i - lastIncludedIndex s - 1) = ?p + i"
    using p by simp
  with terms p ok last wf show "getLogTermAt (ae_prevLogIndex args + 1 + int i) (ae_append args s) =
      le_term (ae_entries args ! i)"
    by (subst getLogTermAt_in) (auto simp: frame getLastLogIndex_eq logs)
qed

text \<open>
  A request does not contradict what the node has committed when it agrees with it on every
  committed index it covers. Raft's Leader Completeness says leaders only send such requests.
\<close>

definition ae_consistent :: "AppendEntriesArgs \<Rightarrow> 'db node \<Rightarrow> bool" where
  "ae_consistent args s \<longleftrightarrow> (\<forall>i < length (ae_entries args).
     ae_prevLogIndex args + 1 + int i \<le> commitIndex s \<longrightarrow>
     getLogTermAt (ae_prevLogIndex args + 1 + int i) s = le_term (ae_entries args ! i))"

lemma ae_append_keeps:
  assumes "node_ok s" and "ae_match args s" and "ae_wf args" and "ae_consistent args s"
  shows "take (nat (commitIndex s - lastIncludedIndex s)) (logs (ae_append args s)) =
      take (nat (commitIndex s - lastIncludedIndex s)) (logs s)"
    and "commitIndex s \<le> getLastLogIndex (ae_append args s)"
proof -
  let ?p = "nat (ae_prevLogIndex args - lastIncludedIndex s)"
  let ?m = "nat (commitIndex s - lastIncludedIndex s)"
  note ok = node_okD [OF assms(1)]
  have p: "?p \<le> length (logs s)" "lastIncludedIndex s \<le> ae_prevLogIndex args"
    using ok assms(2) by (auto simp: ae_match_def hasLogAt_iff getLastLogIndex_eq)
  have m: "?m \<le> length (logs s)"
    using ok by (simp add: getLastLogIndex_eq)
  have logs: "logs (ae_append args s) = append_ref ?p (ae_entries args) (logs s)"
    using ok assms by (intro ae_append_logs) auto
  have "le_term (logs s ! (?p + i)) = le_term (ae_entries args ! i)"
    if "i < length (ae_entries args)" "?p + i < ?m" for i
  proof -
    have "ae_prevLogIndex args + 1 + int i \<le> commitIndex s"
      using that(2) p(2) by linarith
    with assms(4) that have "getLogTermAt (ae_prevLogIndex args + 1 + int i) s = le_term (ae_entries args ! i)"
      by (simp add: ae_consistent_def)
    moreover have "nat (ae_prevLogIndex args + 1 + int i - lastIncludedIndex s - 1) = ?p + i"
      using p by simp
    ultimately show ?thesis
      using p ok m that by (subst (asm) getLogTermAt_in) auto
  qed
  with p m show keep: "take ?m (logs (ae_append args s)) = take ?m (logs s)"
    unfolding logs by (intro append_ref_keeps) auto
  have "?m \<le> length (logs (ae_append args s))"
    using arg_cong [OF keep, of length] m by simp
  with ok ae_append_log_wf [OF _ assms(2,3)] show "commitIndex s \<le> getLastLogIndex (ae_append args s)"
    by (simp add: getLastLogIndex_eq frame)
qed

lemma ae_append_ok:
  assumes "node_ok s" and "ae_match args s" and "ae_wf args" and "ae_consistent args s"
  shows "node_ok (ae_append args s)"
proof -
  note ok = node_okD [OF assms(1)]
  have "timer_wf (stepDown (ae_term args) (ae_leaderId args) s)"
    by (simp add: stepDown_def timer_wf_reset)
  with ok ae_append_log_wf [OF ok(1) assms(2,3)] ae_append_keeps(2) [OF assms] show ?thesis
    by (simp add: node_ok_def node_inv_def idx_wf_def timer_wf_def frame)
qed

lemma ae_commit_ok:
  assumes "node_ok s"
  shows "node_ok (ae_commit L args s)"
proof (cases "ae_leaderCommit args > commitIndex s")
  case False
  with assms show ?thesis by (simp add: ae_commit_def)
next
  case True
  let ?t = "s\<lparr>commitIndex := min (ae_leaderCommit args) (getLastLogIndex s)\<rparr>"
  note ok = node_okD [OF assms]
  have last: "getLastLogIndex ?t = getLastLogIndex s"
    by (simp add: getLastLogIndex_def)
  have inv: "node_inv ?t"
    using ok True by (auto simp: node_inv_def log_wf_def idx_wf_def lead_wf_def timer_wf_def)
  have "commitIndex (applyCommittedLogs L ?t) \<le> getLastLogIndex (applyCommittedLogs L ?t)"
    using ok True last
    by (subst applyCommittedLogs_log(1)) (auto simp: log_wf_def frame)
  with applyCommittedLogs_inv [OF inv] True last show ?thesis
    by (simp add: ae_commit_def node_ok_def)
qed

lemma handleAppendEntries_ok_aux:
  assumes "node_ok s" and "ae_wf args" and "ae_consistent args s"
  shows "node_ok (snd (handleAppendEntries L args s))"
  using assms
  by (cases rule: handleAppendEntries_cases [of args s])
    (simp_all add: handleAppendEntries_simps stepDown_ok ae_append_ok ae_commit_ok)

lemma ae_commit_durable:
  assumes "durable s"
  shows "durable (ae_commit L args s)"
proof -
  have "durable (s\<lparr>commitIndex := i\<rparr>)" for i
    using assms by (rule durable_cong [THEN iffD1, rotated 2]) (simp_all add: persistent_of_def)
  then show ?thesis
    using assms by (simp add: ae_commit_def applyCommittedLogs_durable)
qed

lemma handleAppendEntries_durable:
  assumes "durable s"
  shows "durable (snd (handleAppendEntries L args s))"
  using assms
  by (cases rule: handleAppendEntries_cases [of args s])
    (simp_all add: handleAppendEntries_simps stepDown_durable ae_append_durable ae_commit_durable)

section \<open>InstallSnapshot\<close>

lemma handleInstallSnapshot_rejected:
  "sn_term args < currentTerm s \<Longrightarrow> handleInstallSnapshot L args s = (\<lparr>isr_term = currentTerm s\<rparr>, s)"
  by (simp add: handleInstallSnapshot_def Let_def)

lemma handleInstallSnapshot_old:
  "currentTerm s \<le> sn_term args \<Longrightarrow> sn_lastIncludedIndex args \<le> lastIncludedIndex s \<Longrightarrow>
     handleInstallSnapshot L args s =
       (\<lparr>isr_term = sn_term args\<rparr>, stepDown (sn_term args) (sn_leaderId args) s)"
  using stepDown_effect(3) [of s "sn_term args" "sn_leaderId args"]
  by (simp add: handleInstallSnapshot_def Let_def frame stepDown_def)

text \<open>The installed state.\<close>

definition sn_install :: "'db leveldb \<Rightarrow> InstallSnapshotArgs \<Rightarrow> 'db node \<Rightarrow> 'db node" where
  "sn_install L args s =
     persist (s\<lparr>kvStore := kv_loadFromSnapshot L (sn_kvData args) (kvStore s),
        logs := filter (\<lambda>e. le_index e > sn_lastIncludedIndex args) (logs s),
        lastIncludedIndex := sn_lastIncludedIndex args,
        lastIncludedTerm := sn_lastIncludedTerm args,
        commitIndex := max (commitIndex s) (sn_lastIncludedIndex args),
        lastApplied := max (lastApplied s) (sn_lastIncludedIndex args)\<rparr>)"

lemma handleInstallSnapshot_new:
  "currentTerm s \<le> sn_term args \<Longrightarrow> lastIncludedIndex s < sn_lastIncludedIndex args \<Longrightarrow>
     handleInstallSnapshot L args s =
       (\<lparr>isr_term = sn_term args\<rparr>,
        sn_install L args (stepDown (sn_term args) (sn_leaderId args) s))"
  using stepDown_effect(3) [of s "sn_term args" "sn_leaderId args"]
  by (simp add: handleInstallSnapshot_def Let_def frame stepDown_def sn_install_def)

lemmas handleInstallSnapshot_simps =
  handleInstallSnapshot_rejected handleInstallSnapshot_old handleInstallSnapshot_new

lemma sn_install_ok:
  assumes "node_ok s" and "nstate s = FOLLOWER" and "lastIncludedIndex s < sn_lastIncludedIndex args"
  shows "node_ok (sn_install L args s)"
proof -
  note ok = node_okD [OF assms(1)]
  let ?u = "sn_lastIncludedIndex args"
  let ?n = "nat (?u - lastIncludedIndex s)"
  let ?t = "sn_install L args s"
  have logs: "logs ?t = drop ?n (logs s)" and li: "lastIncludedIndex ?t = ?u"
    using ok(1) assms(3) numbered_from_filter [of le_index "lastIncludedIndex s" "logs s" ?u]
    by (simp_all add: sn_install_def frame log_wf_def)
  have wf: "log_wf ?t"
  proof (cases "?n \<le> length (logs s)")
    case True
    with ok(1) assms(3) numbered_from_drop [of le_index "lastIncludedIndex s" "logs s" ?n]
    show ?thesis by (simp add: log_wf_def logs li)
  next
    case False
    then show ?thesis by (simp add: log_wf_def logs)
  qed
  have "commitIndex ?t \<le> getLastLogIndex ?t"
    using ok assms(3) wf
    by (auto simp: getLastLogIndex_eq logs li) (auto simp: sn_install_def frame)
  with ok wf assms(2,3) show ?thesis
    by (auto simp: node_ok_def node_inv_def idx_wf_def timer_wf_def sn_install_def frame)
qed

lemma handleInstallSnapshot_ok_aux:
  assumes "node_ok s"
  shows "node_ok (snd (handleInstallSnapshot L args s))"
proof (cases "currentTerm s \<le> sn_term args \<and> lastIncludedIndex s < sn_lastIncludedIndex args")
  case True
  then show ?thesis
    using assms by (auto simp: handleInstallSnapshot_new frame effect intro!: sn_install_ok stepDown_ok)
next
  case False
  with assms show ?thesis
    by (cases "currentTerm s \<le> sn_term args")
      (simp_all add: handleInstallSnapshot_rejected handleInstallSnapshot_old stepDown_ok)
qed

lemma sn_install_durable: "st_writable (storage s) \<Longrightarrow> durable (sn_install L args s)"
  by (simp add: sn_install_def durable_persist)

lemma handleInstallSnapshot_durable:
  assumes "durable s"
  shows "durable (snd (handleInstallSnapshot L args s))"
proof -
  have "durable (stepDown (sn_term args) (sn_leaderId args) s)"
    using assms by (rule stepDown_durable)
  moreover from this have "st_writable (storage (stepDown (sn_term args) (sn_leaderId args) s))"
    by (simp add: durable_def)
  ultimately show ?thesis
    using assms
    by (cases "currentTerm s \<le> sn_term args"; cases "lastIncludedIndex s < sn_lastIncludedIndex args")
      (simp_all add: handleInstallSnapshot_simps sn_install_durable)
qed

section \<open>Slices across compaction and the handlers\<close>

lemma log_slice_cong:
  "logs t = logs s \<Longrightarrow> lastIncludedIndex t = lastIncludedIndex s \<Longrightarrow> log_slice a b t = log_slice a b s"
  by (simp add: log_slice_def)

lemma createSnapshot_slice:
  assumes "log_wf s" and "lastIncludedIndex (createSnapshot u s) \<le> a"
  shows "log_slice a b (createSnapshot u s) = log_slice a b s"
proof (cases "createSnapshot u s = s")
  case False
  note c = createSnapshot_logs [OF assms(1) False]
  with assms have "nat (a - u) + nat (u - lastIncludedIndex s) = nat (a - lastIncludedIndex s)"
    by linarith
  with c show ?thesis by (simp add: log_slice_def)
qed simp

lemma applyCommittedLogs_slice:
  assumes "log_wf s" and "lastIncludedIndex (applyCommittedLogs L s) \<le> a"
  shows "log_slice a b (applyCommittedLogs L s) = log_slice a b s"
proof -
  have wf: "log_wf (applyLoop L s)"
    using assms(1) by (simp add: log_wf_def frame)
  have "log_slice a b (applyCommittedLogs L s) = log_slice a b (applyLoop L s)"
    using maybeCreateSnapshot_cases [of "applyLoop L s"] assms(2) createSnapshot_slice [OF wf]
    by (auto simp: applyCommittedLogs_def)
  also have "\<dots> = log_slice a b s"
    by (rule log_slice_cong) (simp_all add: frame)
  finally show ?thesis .
qed

lemma take_eq_slice:
  assumes "take n (logs t) = take n (logs s)" and "lastIncludedIndex t = lastIncludedIndex s"
    and "n = nat (b - lastIncludedIndex s)" and "lastIncludedIndex s \<le> a"
  shows "log_slice a b t = log_slice a b s"
proof (cases "a \<le> b")
  case True
  then have "nat (a - lastIncludedIndex s) + nat (b - a) = n"
    using assms(3,4) by linarith
  with assms(1,2) show ?thesis
    by (simp add: log_slice_def take_drop add.commute)
qed simp

lemma handleAppendEntries_slice:
  assumes "node_ok s" and "ae_wf args" and "ae_consistent args s"
    and "handleAppendEntries L args s = (r, t)" and "lastIncludedIndex t \<le> a"
  shows "commitIndex s \<le> commitIndex t" and "log_slice a (commitIndex s) t = log_slice a (commitIndex s) s"
proof (atomize(full), cases args s rule: handleAppendEntries_cases)
  case matched
  let ?u = "ae_append args s"
  let ?v = "?u\<lparr>commitIndex := min (ae_leaderCommit args) (getLastLogIndex ?u)\<rparr>"
  have t: "t = ae_commit L args ?u"
    using handleAppendEntries_matched [OF matched, of L] assms(4) by simp
  note keep = ae_append_keeps [OF assms(1) matched(2) assms(2,3)]
  have u: "node_ok ?u"
    using assms matched by (intro ae_append_ok)
  have u_slice: "log_slice a (commitIndex s) ?u = log_slice a (commitIndex s) s"
    if "lastIncludedIndex s \<le> a"
    using take_eq_slice [OF keep(1)] that by (simp add: frame)
  show "commitIndex s \<le> commitIndex t \<and> log_slice a (commitIndex s) t = log_slice a (commitIndex s) s"
  proof (cases "commitIndex ?u < ae_leaderCommit args")
    case True
    then have tv: "t = applyCommittedLogs L ?v"
      by (simp add: t ae_commit_def)
    have v: "log_wf ?v" "0 \<le> lastIncludedIndex ?v" "lastIncludedIndex ?v \<le> lastApplied ?v"
      "lastApplied ?v \<le> commitIndex ?v" "commitIndex ?v \<le> getLastLogIndex ?v"
      using node_okD [OF u] True keep(2) by (auto simp: log_wf_def getLastLogIndex_def frame)
    from applyCommittedLogs_log(3) [OF v, of L] assms(5) tv have "lastIncludedIndex s \<le> a"
      by (simp add: frame)
    then have "log_slice a (commitIndex s) t = log_slice a (commitIndex s) s"
      using applyCommittedLogs_slice [OF v(1)] assms(5) tv u_slice log_slice_cong [of ?v ?u]
      by simp
    then show ?thesis
      using True keep(2) by (simp add: tv frame)
  next
    case False
    then show ?thesis
      using u_slice assms(5) by (simp add: t ae_commit_def frame)
  qed
qed (use assms in \<open>auto simp: handleAppendEntries_rejected handleAppendEntries_stale
    handleAppendEntries_mismatch log_slice_def frame\<close>)

lemma ae_consistent_code [code]:
  "ae_consistent args s \<longleftrightarrow> list_all (\<lambda>(i, e).
     ae_prevLogIndex args + 1 + int i \<le> commitIndex s \<longrightarrow>
     getLogTermAt (ae_prevLogIndex args + 1 + int i) s = le_term e) (enumerate 0 (ae_entries args))"
  by (auto simp: ae_consistent_def list_all_length nth_enumerate_eq)

section \<open>The election timer\<close>

definition timers :: "'db node \<Rightarrow> int \<times> int \<times> int" where
  "timers s = (clk s, lastHeartbeatTime s, electionTimeoutMs s)"

lemma timers_applyConfigEntry: "timers (applyConfigEntry e s) = timers s"
  by (simp add: timers_def applyConfigEntry_def Let_def rebuildPeersFromCurrentConfig_def
      rebuildPeersFromJointConfig_def initLeaderState_def)

lemma timers_applyNext: "applyNext L s = Some t \<Longrightarrow> timers t = timers s"
  using timers_applyConfigEntry [of _ s]
  by (auto simp: applyNext_def Let_def timers_def split: if_splits)

lemma timers_applyLoop: "timers (applyLoop L s) = timers s"
proof (induction s rule: applyLoop_induct [of L])
  case (1 s)
  then show ?case
    using timers_applyNext [of L s] by (subst applyLoop_next) (simp split: option.split)
qed

lemma timers_applyCommittedLogs: "timers (applyCommittedLogs L s) = timers s"
  using maybeCreateSnapshot_cases [of "applyLoop L s"] timers_applyLoop [of L s]
  by (auto simp: applyCommittedLogs_def createSnapshot_def Let_def timers_def frame)

lemma timers_ae_commit: "timers (ae_commit L args s) = timers s"
  by (simp add: ae_commit_def timers_applyCommittedLogs) (simp add: timers_def)

lemma timers_ae_append: "timers (ae_append args s) = timers (stepDown (ae_term args) (ae_leaderId args) s)"
  using appendLoop_frame [of "ae_entries args" "stepDown (ae_term args) (ae_leaderId args) s" False]
  by (auto simp: ae_append_def timers_def frame split: prod.splits)

lemma timers_stepDown: "timers (stepDown T l s) = (clk s, clk s, 1500 + rnd s mod 1500)"
  by (simp add: timers_def stepDown_def resetElectionTimer_def becomeFollower_def persist_def)

lemma timers_handleAppendEntries:
  "ae_accepted args s \<Longrightarrow> timers (snd (handleAppendEntries L args s)) = (clk s, clk s, 1500 + rnd s mod 1500)"
  by (simp add: handleAppendEntries_alt Let_def timers_ae_commit timers_ae_append timers_stepDown)

text \<open>Whatever the indices are, applying and compacting leave the log above the snapshot as it is.\<close>

lemma createSnapshot_in_log:
  assumes "log_wf s" and "0 \<le> lastIncludedIndex s" and "createSnapshot u s \<noteq> s"
  shows "u \<le> getLastLogIndex s"
proof -
  have "getLogTermAt u s \<noteq> -1"
    using assms(3) by (auto simp: createSnapshot_def Let_def split: if_splits)
  with createSnapshot_logs(4) [OF assms(1,3)] assms(2) show ?thesis
    using getLogTermAt_out [of u s] getLastLogIndex_eq [OF assms(1)] by force
qed

lemma applyCommittedLogs_same_log:
  assumes "log_wf s" and "0 \<le> lastIncludedIndex s"
  shows "getLastLogIndex (applyCommittedLogs L s) = getLastLogIndex s"
    and "lastIncludedIndex (applyCommittedLogs L s) \<le> i \<Longrightarrow>
      getLogTermAt i (applyCommittedLogs L s) = getLogTermAt i s"
proof -
  let ?t = "applyLoop L s"
  have t: "log_wf ?t" "0 \<le> lastIncludedIndex ?t" "getLastLogIndex ?t = getLastLogIndex s"
    "getLogTermAt j ?t = getLogTermAt j s" for j
    using assms by (simp_all add: log_wf_def getLastLogIndex_def getLogTermAt_def logIndexToPos_def frame)
  have "getLastLogIndex (createSnapshot u ?t) = getLastLogIndex ?t \<and>
      (lastIncludedIndex (createSnapshot u ?t) \<le> i \<longrightarrow> getLogTermAt i (createSnapshot u ?t) = getLogTermAt i ?t)" for u
    using createSnapshot_in_log [OF t(1,2), of u] createSnapshot_last(1) [OF t(1,2), of u]
      createSnapshot_term [OF t(1,2), of u i] by (cases "createSnapshot u ?t = ?t") auto
  with t(3,4) maybeCreateSnapshot_cases [of ?t]
  show "getLastLogIndex (applyCommittedLogs L s) = getLastLogIndex s"
    and "lastIncludedIndex (applyCommittedLogs L s) \<le> i \<Longrightarrow>
      getLogTermAt i (applyCommittedLogs L s) = getLogTermAt i s"
    unfolding applyCommittedLogs_def by metis+
qed

lemma ae_commit_log:
  assumes "log_wf s" and "0 \<le> lastIncludedIndex s"
  shows "getLastLogIndex (ae_commit L args s) = getLastLogIndex s"
    and "lastIncludedIndex (ae_commit L args s) \<le> i \<Longrightarrow>
      getLogTermAt i (ae_commit L args s) = getLogTermAt i s"
proof -
  let ?v = "s\<lparr>commitIndex := min (ae_leaderCommit args) (getLastLogIndex s)\<rparr>"
  have "log_wf ?v" "0 \<le> lastIncludedIndex ?v" "getLastLogIndex ?v = getLastLogIndex s"
    "getLogTermAt i ?v = getLogTermAt i s" for i
    using assms by (simp_all add: log_wf_def getLastLogIndex_def getLogTermAt_def logIndexToPos_def)
  with applyCommittedLogs_same_log [of ?v L] show "getLastLogIndex (ae_commit L args s) = getLastLogIndex s"
    and "lastIncludedIndex (ae_commit L args s) \<le> i \<Longrightarrow>
      getLogTermAt i (ae_commit L args s) = getLogTermAt i s"
    by (auto simp: ae_commit_def split: if_splits)
qed

text \<open>A message that contradicts a committed entry overwrites it.\<close>

lemma disagreeing_append_overwrites:
  assumes "node_ok s" and "ae_wf args" and "ae_accepted args s" and "ae_match args s" and "\<not> ae_consistent args s"
    and "handleAppendEntries L args s = (r, t)"
  shows "\<exists>i \<le> commitIndex s. lastIncludedIndex s < i \<and>
    (lastIncludedIndex t \<le> i \<longrightarrow> getLogTermAt i t \<noteq> getLogTermAt i s)"
proof -
  let ?u = "ae_append args s"
  note ok = node_okD [OF assms(1)]
  from assms(5) obtain j where j: "j < length (ae_entries args)" "ae_prevLogIndex args + 1 + int j \<le> commitIndex s"
    "getLogTermAt (ae_prevLogIndex args + 1 + int j) s \<noteq> le_term (ae_entries args ! j)"
    unfolding ae_consistent_def by blast
  have "t = ae_commit L args ?u"
    using handleAppendEntries_matched [OF assms(3,4), of L] assms(6) by simp
  moreover have "log_wf ?u"
    using ok(1) assms(4,2) by (rule ae_append_log_wf)
  moreover have "0 \<le> lastIncludedIndex ?u"
    using ok(6) by (simp add: frame)
  ultimately have "getLogTermAt i t = getLogTermAt i ?u" if "lastIncludedIndex t \<le> i" for i
    using ae_commit_log(2) [of ?u L args i] that by simp
  moreover have "lastIncludedIndex s \<le> ae_prevLogIndex args"
    using assms(4) ok(1) by (simp add: ae_match_def hasLogAt_iff)
  ultimately show ?thesis
    using j ae_append_terms(2) [OF assms(1,4,2) j(1)]
    by (intro exI [of _ "ae_prevLogIndex args + 1 + int j"]) simp
qed

end
