(* ===== verification/Wire.thy ===== *)
theory Wire
  imports Raft_Types
begin

text \<open>
  The text protocol of \<open>src/src/raftCore/raft_node.cpp\<close>: one \<open>build\<close> and one \<open>parse\<close> function
  per message, and the round trip of each: what a node writes, its peer reads back. A \<open>parse\<close>
  function that returns \<open>false\<close> is \<open>None\<close>; its callers do not look at the half-filled message.
\<close>

section \<open>RequestVote\<close>

definition buildRequestVoteRpc :: "RequestVoteArgs \<Rightarrow> string" where
  "buildRequestVoteRpc args =
     ''RV '' @ show_int (rv_term args) @ '' '' @ show_int (rv_candidateId args) @ '' '' @
     show_int (rv_lastLogIndex args) @ '' '' @ show_int (rv_lastLogTerm args)"

definition parseRequestVoteRpc :: "string \<Rightarrow> RequestVoteArgs option" where
  "parseRequestVoteRpc req =
     (let (type, s0) = read_string [] (istringstream req)
      in if type \<noteq> ''RV'' then None
         else let (t, s1) = read_int 0 s0;
                  (c, s2) = read_int (-1) s1;
                  (i, s3) = read_int 0 s2;
                  (lt, s4) = read_int 0 s3
              in if is_fail s4 then None
                 else Some \<lparr>rv_term = t, rv_candidateId = c, rv_lastLogIndex = i,
                            rv_lastLogTerm = lt\<rparr>)"

definition buildRequestVoteReply :: "RequestVoteReply \<Rightarrow> string" where
  "buildRequestVoteReply reply =
     ''RVR '' @ show_int (rvr_term reply) @ '' '' @ (if rvr_voteGranted reply then ''1'' else ''0'')"

definition parseRequestVoteReply :: "string \<Rightarrow> RequestVoteReply option" where
  "parseRequestVoteReply resp =
     (let (type, s0) = read_string [] (istringstream resp);
          (t, s1) = read_int 0 s0;
          (granted, s2) = read_int 0 s1
      in if type \<noteq> ''RVR'' then None
         else if is_fail s2 then None
         else Some \<lparr>rvr_term = t, rvr_voteGranted = (granted = 1)\<rparr>)"

section \<open>AppendEntries\<close>

definition buildAppendEntriesRpc :: "AppendEntriesArgs \<Rightarrow> string" where
  "buildAppendEntriesRpc args =
     ''AE '' @ show_int (ae_term args) @ '' '' @ show_int (ae_leaderId args) @ '' '' @
     show_int (ae_prevLogIndex args) @ '' '' @ show_int (ae_prevLogTerm args) @ '' '' @
     show_int (ae_leaderCommit args) @ '' '' @ show_nat (length (ae_entries args)) @ [CHR 0x0A] @
     concat (map (\<lambda>e. show_entry e @ [CHR 0x0A]) (ae_entries args))"

definition parseAppendEntriesRpc :: "string \<Rightarrow> AppendEntriesArgs option" where
  "parseAppendEntriesRpc req =
     (let (type, s0) = read_string [] (istringstream req)
      in if type \<noteq> ''AE'' then None
         else let (t, s1) = read_int 0 s0;
                  (l, s2) = read_int (-1) s1;
                  (pi, s3) = read_int 0 s2;
                  (pt, s4) = read_int 0 s3;
                  (lc, s5) = read_int 0 s4;
                  (entryCount, s6) = read_size 0 s5
              in if is_fail s6 then None
                 else case read_n entryCount read_entry s6 of
                        None \<Rightarrow> None
                      | Some (es, _) \<Rightarrow>
                          Some \<lparr>ae_term = t, ae_leaderId = l, ae_prevLogIndex = pi,
                                ae_prevLogTerm = pt, ae_entries = es, ae_leaderCommit = lc\<rparr>)"

definition buildAppendEntriesReply :: "AppendEntriesReply \<Rightarrow> string" where
  "buildAppendEntriesReply reply =
     ''AER '' @ show_int (aer_term reply) @ '' '' @ (if aer_success reply then ''1'' else ''0'')"

definition parseAppendEntriesReply :: "string \<Rightarrow> AppendEntriesReply option" where
  "parseAppendEntriesReply resp =
     (let (type, s0) = read_string [] (istringstream resp);
          (t, s1) = read_int 0 s0;
          (success, s2) = read_int 0 s1
      in if type \<noteq> ''AER'' then None
         else if is_fail s2 then None
         else Some \<lparr>aer_term = t, aer_success = (success = 1)\<rparr>)"

section \<open>InstallSnapshot\<close>

definition show_kv :: "string \<times> string \<Rightarrow> string" where
  "show_kv p = fst p @ '' '' @ snd p"

definition read_kv :: "istream \<Rightarrow> ((string \<times> string) \<times> istream) option" where
  "read_kv s =
     (let (key, s1) = read_string [] s; (val, s2) = read_string [] s1
      in if is_fail s2 then None else Some ((key, val), s2))"

definition buildInstallSnapshotRpc :: "InstallSnapshotArgs \<Rightarrow> string" where
  "buildInstallSnapshotRpc args =
     ''IS '' @ show_int (sn_term args) @ '' '' @ show_int (sn_leaderId args) @ '' '' @
     show_int (sn_lastIncludedIndex args) @ '' '' @ show_int (sn_lastIncludedTerm args) @ '' '' @
     show_nat (length (sn_kvData args)) @ [CHR 0x0A] @
     concat (map (\<lambda>p. show_kv p @ [CHR 0x0A]) (sn_kvData args))"

text \<open>The loop stores each pair into the map as it is read.\<close>

fun read_kvs :: "nat \<Rightarrow> istream \<Rightarrow> str_map \<Rightarrow> str_map option" where
  "read_kvs 0 s m = Some m"
| "read_kvs (Suc n) s m =
     (case read_kv s of
        None \<Rightarrow> None
      | Some ((key, val), s') \<Rightarrow> read_kvs n s' (smap_set key val m))"

definition parseInstallSnapshotRpc :: "string \<Rightarrow> InstallSnapshotArgs option" where
  "parseInstallSnapshotRpc req =
     (let (type, s0) = read_string [] (istringstream req)
      in if type \<noteq> ''IS'' then None
         else let (t, s1) = read_int 0 s0;
                  (l, s2) = read_int (-1) s1;
                  (i, s3) = read_int 0 s2;
                  (lt, s4) = read_int 0 s3;
                  (kvCount, s5) = read_size 0 s4
              in if is_fail s5 then None
                 else case read_kvs kvCount s5 [] of
                        None \<Rightarrow> None
                      | Some m \<Rightarrow>
                          Some \<lparr>sn_term = t, sn_leaderId = l, sn_lastIncludedIndex = i,
                                sn_lastIncludedTerm = lt, sn_kvData = m\<rparr>)"

definition buildInstallSnapshotReply :: "InstallSnapshotReply \<Rightarrow> string" where
  "buildInstallSnapshotReply reply = ''ISR '' @ show_int (isr_term reply)"

definition parseInstallSnapshotReply :: "string \<Rightarrow> InstallSnapshotReply option" where
  "parseInstallSnapshotReply resp =
     (let (type, s0) = read_string [] (istringstream resp);
          (t, s1) = read_int 0 s0
      in if type \<noteq> ''ISR'' then None
         else if is_fail s1 then None
         else Some \<lparr>isr_term = t\<rparr>)"

section \<open>Round trips\<close>

definition rv_ok :: "RequestVoteArgs \<Rightarrow> bool" where
  "rv_ok args \<longleftrightarrow> int_ok (rv_term args) \<and> int_ok (rv_candidateId args) \<and>
     int_ok (rv_lastLogIndex args) \<and> int_ok (rv_lastLogTerm args)"

definition ae_ok :: "AppendEntriesArgs \<Rightarrow> bool" where
  "ae_ok args \<longleftrightarrow> int_ok (ae_term args) \<and> int_ok (ae_leaderId args) \<and>
     int_ok (ae_prevLogIndex args) \<and> int_ok (ae_prevLogTerm args) \<and>
     int_ok (ae_leaderCommit args) \<and> size_ok (length (ae_entries args)) \<and>
     (\<forall>e \<in> set (ae_entries args). entry_ok e)"

definition kv_ok :: "string \<times> string \<Rightarrow> bool" where
  "kv_ok p \<longleftrightarrow> tokenp (fst p) \<and> tokenp (snd p)"

definition sn_ok :: "InstallSnapshotArgs \<Rightarrow> bool" where
  "sn_ok args \<longleftrightarrow> int_ok (sn_term args) \<and> int_ok (sn_leaderId args) \<and>
     int_ok (sn_lastIncludedIndex args) \<and> int_ok (sn_lastIncludedTerm args) \<and>
     size_ok (length (sn_kvData args)) \<and> smap_ok (sn_kvData args) \<and>
     (\<forall>p \<in> set (sn_kvData args). kv_ok p)"

text \<open>The message tags, read off the front of a message.\<close>

lemma read_tag [stream_simps]:
  "read_string old (stream_at (CHR ''R'' # CHR ''V'' # CHR '' '' # r)) = (''RV'', stream_at (CHR '' '' # r))"
  "read_string old (stream_at (CHR ''R'' # CHR ''V'' # CHR ''R'' # CHR '' '' # r)) =
     (''RVR'', stream_at (CHR '' '' # r))"
  "read_string old (stream_at (CHR ''A'' # CHR ''E'' # CHR '' '' # r)) = (''AE'', stream_at (CHR '' '' # r))"
  "read_string old (stream_at (CHR ''A'' # CHR ''E'' # CHR ''R'' # CHR '' '' # r)) =
     (''AER'', stream_at (CHR '' '' # r))"
  "read_string old (stream_at (CHR ''I'' # CHR ''S'' # CHR '' '' # r)) = (''IS'', stream_at (CHR '' '' # r))"
  "read_string old (stream_at (CHR ''I'' # CHR ''S'' # CHR ''R'' # CHR '' '' # r)) =
     (''ISR'', stream_at (CHR '' '' # r))"
  using read_string_put [of "''RV''" "[]" "CHR '' '' # r" old]
    read_string_put [of "''RVR''" "[]" "CHR '' '' # r" old]
    read_string_put [of "''AE''" "[]" "CHR '' '' # r" old]
    read_string_put [of "''AER''" "[]" "CHR '' '' # r" old]
    read_string_put [of "''IS''" "[]" "CHR '' '' # r" old]
    read_string_put [of "''ISR''" "[]" "CHR '' '' # r" old]
  by (simp_all add: tokenp_def isspace_def)

text \<open>A flag is written as the number 1 or 0.\<close>

lemma show_flag: "(if b then ''1'' else ''0'') = show_int (if b then 1 else 0)"
  by (simp add: show_int_def show_nat.simps digit_char_def)

lemma RequestVote_roundtrip:
  "rv_ok args \<Longrightarrow> parseRequestVoteRpc (buildRequestVoteRpc args) = Some args"
  by (simp add: parseRequestVoteRpc_def buildRequestVoteRpc_def rv_ok_def stream_simps)

lemma RequestVoteReply_roundtrip:
  "int_ok (rvr_term r) \<Longrightarrow> parseRequestVoteReply (buildRequestVoteReply r) = Some r"
  by (simp add: parseRequestVoteReply_def buildRequestVoteReply_def stream_simps show_flag
      del: if_split)

lemma AppendEntriesReply_roundtrip:
  "int_ok (aer_term r) \<Longrightarrow> parseAppendEntriesReply (buildAppendEntriesReply r) = Some r"
  by (simp add: parseAppendEntriesReply_def buildAppendEntriesReply_def stream_simps show_flag
      del: if_split)

lemma InstallSnapshotReply_roundtrip:
  "int_ok (isr_term r) \<Longrightarrow> parseInstallSnapshotReply (buildInstallSnapshotReply r) = Some r"
  by (simp add: parseInstallSnapshotReply_def buildInstallSnapshotReply_def stream_simps)

lemma AppendEntries_roundtrip_aux:
  assumes "ae_ok args"
  shows "parseAppendEntriesRpc (buildAppendEntriesRpc args) = Some args"
  using assms entry_codec.read_n_put_lines [of "ae_entries args" "[CHR 0x0A]"]
  by (simp add: parseAppendEntriesRpc_def buildAppendEntriesRpc_def ae_ok_def stream_simps)

interpretation kv_codec: stream_codec show_kv read_kv kv_ok
proof unfold_locales
  fix p :: "string \<times> string" and sp r
  assume p: "kv_ok p" and sp: "\<forall>c \<in> set sp. isspace c" and r: "delimited r"
  have "read_string [] (stream_at (sp @ fst p @ CHR '' '' # r')) =
      (fst p, stream_at (CHR '' '' # r'))" for r'
    using read_string_put [of "fst p" sp "CHR '' '' # r'" "[]"] p sp by (simp add: kv_ok_def)
  with p r show "read_kv (stream_at (sp @ show_kv p @ r)) = Some (p, stream_after r)"
    by (simp add: read_kv_def show_kv_def stream_simps kv_ok_def)
qed

lemma read_kvs_read_n:
  "read_kvs n s m = map_option (\<lambda>(ps, _). foldl (\<lambda>a (k, v). smap_set k v a) m ps) (read_n n read_kv s)"
  by (induction n arbitrary: s m) (auto split: option.splits)

lemma InstallSnapshot_roundtrip_aux:
  assumes "sn_ok args"
  shows "parseInstallSnapshotRpc (buildInstallSnapshotRpc args) = Some args"
  using assms kv_codec.read_n_put_lines [of "sn_kvData args" "[CHR 0x0A]"]
  by (simp add: parseInstallSnapshotRpc_def buildInstallSnapshotRpc_def sn_ok_def stream_simps
      read_kvs_read_n smap_rebuild)

end
