(* ===== verification/Raft_Leader.thy ===== *)
theory Raft_Leader
  imports Handler_Facts Wire "HOL-Library.Monad_Syntax"
begin

text \<open>
  The leader's side of \<open>raft_node.cpp\<close>: replication to one peer, snapshots to a peer that is too
  far behind, the commit index, client writes and the read index. These operations hold the
  mutex only for parts of their bodies and send messages in between, so they run in a world: the
  node and the rest of the system. A locked part is a definition on the node alone
  (\<open>rtp_prepare\<close>, \<open>rtp_finish\<close> and so on) and the operation composes the parts as the code does.

  An access to a vector out of its range is undefined behaviour; an operation that does it has
  no result, \<open>None\<close>.
\<close>

section \<open>The world\<close>

text \<open>
  \<open>acquire\<close> is what the other threads of the node do to it until this thread holds the mutex;
  \<open>send_message\<close> is \<open>TcpClient::sendMessage\<close> with the peer behind it (\<open>None\<close> for \<open>false\<close>);
  \<open>sleep_ms\<close> is \<open>sleep_for\<close>. All three are parameters.
\<close>

type_synonym ('db, 'w) world = "'db node \<times> 'w"

record ('db, 'w) env =
  acquire :: "('db, 'w) world \<Rightarrow> ('db, 'w) world"
  send_message :: "string \<Rightarrow> int \<Rightarrow> string \<Rightarrow> 'w \<Rightarrow> string option \<times> 'w"
  sleep_ms :: "int \<Rightarrow> 'w \<Rightarrow> 'w"

text \<open>A locked part that only reads, or reads and writes, the node.\<close>

definition locked :: "('db, 'w) env \<Rightarrow> ('db node \<Rightarrow> 'a \<times> 'db node) \<Rightarrow> ('db, 'w) world \<Rightarrow>
    'a \<times> ('db, 'w) world" where
  "locked E f w = (let (s, x) = acquire E w; (r, s') = f s in (r, (s', x)))"

definition locked_ub :: "('db, 'w) env \<Rightarrow> ('db node \<Rightarrow> ('a \<times> 'db node) option) \<Rightarrow>
    ('db, 'w) world \<Rightarrow> ('a \<times> ('db, 'w) world) option" where
  "locked_ub E f w = (let (s, x) = acquire E w in
     case f s of None \<Rightarrow> None | Some (r, s') \<Rightarrow> Some (r, (s', x)))"

definition send_to :: "('db, 'w) env \<Rightarrow> PeerInfo \<Rightarrow> string \<Rightarrow> ('db, 'w) world \<Rightarrow>
    string option \<times> ('db, 'w) world" where
  "send_to E p req w = (let (resp, x) = send_message E (pi_ip p) (pi_port p) req (snd w)
     in (resp, (fst w, x)))"

section \<open>Vectors\<close>

definition vec_get :: "'a list \<Rightarrow> nat \<Rightarrow> 'a option" where
  "vec_get xs i = (if i < length xs then Some (xs ! i) else None)"

definition vec_set :: "'a list \<Rightarrow> nat \<Rightarrow> 'a \<Rightarrow> 'a list option" where
  "vec_set xs i x = (if i < length xs then Some (xs[i := x]) else None)"

section \<open>The commit index\<close>

definition canCommit :: "'db node \<Rightarrow> int \<Rightarrow> bool" where
  "canCommit s N \<longleftrightarrow>
     getLogTermAt N s = currentTerm s \<and>
     (let pos = logIndexToPos N s in
        0 \<le> pos \<and> pos < int (length (logs s)) \<and> isMajorityMatchedForEntry (logs s ! nat pos) s)"

definition updateCommitIndex :: "'db leveldb \<Rightarrow> 'db node \<Rightarrow> 'db node" where
  "updateCommitIndex L s =
     (if nstate s \<noteq> LEADER then s
      else case List.find (canCommit s) (rev [commitIndex s + 1..getLastLogIndex s]) of
             None \<Rightarrow> s
           | Some N \<Rightarrow> applyCommittedLogs L (s\<lparr>commitIndex := N\<rparr>))"

section \<open>Snapshots to a peer\<close>

text \<open>\<open>Some None\<close> is the early \<open>return false\<close>.\<close>

definition sstp_prepare ::
  "'db leveldb \<Rightarrow> nat \<Rightarrow> 'db node \<Rightarrow> (PeerInfo \<times> int \<times> InstallSnapshotArgs) option" where
  "sstp_prepare L peerIdx s =
     (if nstate s \<noteq> LEADER \<or> peerIdx \<ge> length (peers s) then None
      else Some (peers s ! peerIdx, currentTerm s,
        \<lparr>sn_term = currentTerm s, sn_leaderId = nid s,
         sn_lastIncludedIndex = lastIncludedIndex s, sn_lastIncludedTerm = lastIncludedTerm s,
         sn_kvData = kv_dump L (kvStore s)\<rparr>))"

definition sstp_finish ::
  "nat \<Rightarrow> int \<Rightarrow> InstallSnapshotReply \<Rightarrow> 'db node \<Rightarrow> (bool \<times> 'db node) option" where
  "sstp_finish peerIdx termSnapshot reply s =
     (if nstate s \<noteq> LEADER \<or> currentTerm s \<noteq> termSnapshot then Some (False, s)
      else if isr_term reply > currentTerm s then Some (False, becomeFollower (isr_term reply) s)
      else do {
        m \<leftarrow> vec_get (matchIndex s) peerIdx;
        ms \<leftarrow> vec_set (matchIndex s) peerIdx (max m (lastIncludedIndex s));
        ns \<leftarrow> vec_set (nextIndex s) peerIdx (lastIncludedIndex s + 1);
        Some (True, s\<lparr>matchIndex := ms, nextIndex := ns\<rparr>)
      })"

definition sendSnapshotToPeer ::
  "'db leveldb \<Rightarrow> ('db, 'w) env \<Rightarrow> nat \<Rightarrow> ('db, 'w) world \<Rightarrow> (bool \<times> ('db, 'w) world) option" where
  "sendSnapshotToPeer L E peerIdx w =
     (case locked E (\<lambda>s. (sstp_prepare L peerIdx s, s)) w of
        (None, w1) \<Rightarrow> Some (False, w1)
      | (Some (peer, termSnapshot, args), w1) \<Rightarrow>
          (case send_to E peer (buildInstallSnapshotRpc args) w1 of
             (None, w2) \<Rightarrow> Some (False, w2)
           | (Some resp, w2) \<Rightarrow>
               (case parseInstallSnapshotReply resp of
                  None \<Rightarrow> Some (False, w2)
                | Some reply \<Rightarrow> locked_ub E (sstp_finish peerIdx termSnapshot reply) w2)))"

section \<open>Replication to a peer\<close>

text \<open>The first locked part: \<open>Some None\<close> returns false, otherwise whether a snapshot is needed.\<close>

definition rtp_check :: "nat \<Rightarrow> 'db node \<Rightarrow> bool option option" where
  "rtp_check peerIdx s =
     (if nstate s \<noteq> LEADER \<or> peerIdx \<ge> length (peers s) then Some None
      else do {
        n \<leftarrow> vec_get (nextIndex s) peerIdx;
        Some (Some (n \<le> lastIncludedIndex s))
      })"

definition rtp_prepare ::
  "nat \<Rightarrow> 'db node \<Rightarrow> (PeerInfo \<times> int \<times> AppendEntriesArgs) option option" where
  "rtp_prepare peerIdx s =
     (if nstate s \<noteq> LEADER then Some None
      else do {
        peer \<leftarrow> vec_get (peers s) peerIdx;
        nextIdx \<leftarrow> vec_get (nextIndex s) peerIdx;
        Some (Some (peer, currentTerm s,
          \<lparr>ae_term = currentTerm s, ae_leaderId = nid s, ae_prevLogIndex = nextIdx - 1,
           ae_prevLogTerm = getLogTermAt (nextIdx - 1) s,
           ae_entries = map (\<lambda>i. logs s ! nat (logIndexToPos i s))
             (filter (\<lambda>i. 0 \<le> logIndexToPos i s \<and> logIndexToPos i s < int (length (logs s)))
               [nextIdx..getLastLogIndex s]),
           ae_leaderCommit = commitIndex s\<rparr>))
      })"

definition rtp_finish ::
  "nat \<Rightarrow> int \<Rightarrow> AppendEntriesArgs \<Rightarrow> AppendEntriesReply \<Rightarrow> 'db node \<Rightarrow> (bool \<times> 'db node) option" where
  "rtp_finish peerIdx termSnapshot args reply s =
     (if nstate s \<noteq> LEADER \<or> currentTerm s \<noteq> termSnapshot then Some (False, s)
      else if aer_term reply > currentTerm s then Some (False, becomeFollower (aer_term reply) s)
      else if aer_success reply then do {
        m \<leftarrow> vec_get (matchIndex s) peerIdx;
        ms \<leftarrow> vec_set (matchIndex s) peerIdx
          (max m (ae_prevLogIndex args + int (length (ae_entries args))));
        m' \<leftarrow> vec_get ms peerIdx;
        ns \<leftarrow> vec_set (nextIndex s) peerIdx (m' + 1);
        Some (True, s\<lparr>matchIndex := ms, nextIndex := ns\<rparr>)
      }
      else do {
        n \<leftarrow> vec_get (nextIndex s) peerIdx;
        ns \<leftarrow> vec_set (nextIndex s) peerIdx
          (if n > lastIncludedIndex s + 1 then n - 1 else lastIncludedIndex s);
        Some (False, s\<lparr>nextIndex := ns\<rparr>)
      })"

definition replicateToPeer ::
  "'db leveldb \<Rightarrow> ('db, 'w) env \<Rightarrow> nat \<Rightarrow> ('db, 'w) world \<Rightarrow> (bool \<times> ('db, 'w) world) option" where
  "replicateToPeer L E peerIdx w =
     (case locked E (\<lambda>s. (rtp_check peerIdx s, s)) w of
        (None, _) \<Rightarrow> None
      | (Some None, w1) \<Rightarrow> Some (False, w1)
      | (Some (Some True), w1) \<Rightarrow> sendSnapshotToPeer L E peerIdx w1
      | (Some (Some False), w1) \<Rightarrow>
          (case locked E (\<lambda>s. (rtp_prepare peerIdx s, s)) w1 of
             (None, _) \<Rightarrow> None
           | (Some None, w2) \<Rightarrow> Some (False, w2)
           | (Some (Some (peer, termSnapshot, args)), w2) \<Rightarrow>
               (case send_to E peer (buildAppendEntriesRpc args) w2 of
                  (None, w3) \<Rightarrow> Some (False, w3)
                | (Some resp, w3) \<Rightarrow>
                    (case parseAppendEntriesReply resp of
                       None \<Rightarrow> Some (False, w3)
                     | Some reply \<Rightarrow> locked_ub E (rtp_finish peerIdx termSnapshot args reply) w3))))"

text \<open>
  \<open>for (size_t i = 0; i < peers_.size(); i++) replicateToPeer(i)\<close>: the size is read again in
  every round, without the mutex, so nothing in the loop itself bounds it.
\<close>

partial_function (option) replicateFrom ::
  "'db leveldb \<Rightarrow> ('db, 'w) env \<Rightarrow> nat \<Rightarrow> ('db, 'w) world \<Rightarrow> ('db, 'w) world option" where
  "replicateFrom L E i w =
     (if i < length (peers (fst w)) then
        Option.bind (replicateToPeer L E i w) (\<lambda>r. replicateFrom L E (Suc i) (snd r))
      else Some w)"

text \<open>One round to every peer, then the commit index: the tail of every leader operation.\<close>

definition replicateAndCommit ::
  "'db leveldb \<Rightarrow> ('db, 'w) env \<Rightarrow> ('db, 'w) world \<Rightarrow> ('db, 'w) world option" where
  "replicateAndCommit L E w = do {
     w1 \<leftarrow> replicateFrom L E 0 w;
     Some (snd (locked E (\<lambda>s. ((), updateCommitIndex L s)) w1))
   }"

definition sendHeartbeats ::
  "'db leveldb \<Rightarrow> ('db, 'w) env \<Rightarrow> ('db, 'w) world \<Rightarrow> ('db, 'w) world option" where
  "sendHeartbeats L E w = replicateAndCommit L E w"

section \<open>Client writes\<close>

text \<open>\<open>logs_.push_back\<close> of an entry that is already complete, then \<open>persist\<close>.\<close>

definition appendLocal :: "LogEntry \<Rightarrow> 'db node \<Rightarrow> 'db node" where
  "appendLocal e s = persist (s\<lparr>logs := logs s @ [e]\<rparr>)"

definition leaderPut_append :: "string \<Rightarrow> string \<Rightarrow> 'db node \<Rightarrow> bool \<times> 'db node" where
  "leaderPut_append key val s =
     (if nstate s \<noteq> LEADER then (False, s)
      else (True, appendLocal
        (mk_LogEntry (currentTerm s) (getLastLogIndex s + 1) PUT key val) s))"

definition leaderPut ::
  "'db leveldb \<Rightarrow> ('db, 'w) env \<Rightarrow> string \<Rightarrow> string \<Rightarrow> ('db, 'w) world \<Rightarrow>
    (bool \<times> ('db, 'w) world) option" where
  "leaderPut L E key val w =
     (case locked E (leaderPut_append key val) w of
        (False, w1) \<Rightarrow> Some (False, w1)
      | (True, w1) \<Rightarrow> do {
          w2 \<leftarrow> replicateAndCommit L E w1;
          Some (locked E (\<lambda>s. (commitIndex s \<ge> getLastLogIndex s, s)) w2)
        })"

definition leaderDelete_append :: "string \<Rightarrow> 'db node \<Rightarrow> int option \<times> 'db node" where
  "leaderDelete_append key s =
     (if nstate s \<noteq> LEADER then (None, s)
      else (Some (getLastLogIndex s + 1), appendLocal
        (mk_LogEntry (currentTerm s) (getLastLogIndex s + 1) DEL key ''__del__'') s))"

definition leaderDelete ::
  "'db leveldb \<Rightarrow> ('db, 'w) env \<Rightarrow> string \<Rightarrow> ('db, 'w) world \<Rightarrow> (bool \<times> ('db, 'w) world) option" where
  "leaderDelete L E key w =
     (case locked E (leaderDelete_append key) w of
        (None, w1) \<Rightarrow> Some (False, w1)
      | (Some deleteIndex, w1) \<Rightarrow> do {
          w2 \<leftarrow> replicateAndCommit L E w1;
          Some (locked E (\<lambda>s. (commitIndex s \<ge> deleteIndex, s)) w2)
        })"

text \<open>The first locked part of the client handlers: is this node the leader?\<close>

definition isLeader :: "'db node \<Rightarrow> bool \<times> 'db node" where
  "isLeader s = (nstate s = LEADER, s)"

definition handleClientPut ::
  "'db leveldb \<Rightarrow> ('db, 'w) env \<Rightarrow> string \<Rightarrow> string \<Rightarrow> ('db, 'w) world \<Rightarrow>
    (string \<times> ('db, 'w) world) option" where
  "handleClientPut L E key val w =
     (case locked E isLeader w of
        (False, w1) \<Rightarrow> Some (''NOT_LEADER'', w1)
      | (True, w1) \<Rightarrow> do {
          (ok, w2) \<leftarrow> leaderPut L E key val w1;
          Some (if ok then ''OK'' else ''FAIL'', w2)
        })"

definition handleClientDelete ::
  "'db leveldb \<Rightarrow> ('db, 'w) env \<Rightarrow> string \<Rightarrow> ('db, 'w) world \<Rightarrow> (string \<times> ('db, 'w) world) option" where
  "handleClientDelete L E key w =
     (case locked E isLeader w of
        (False, w1) \<Rightarrow> Some (''NOT_LEADER'', w1)
      | (True, w1) \<Rightarrow> do {
          (ok, w2) \<leftarrow> leaderDelete L E key w1;
          Some (if ok then ''OK'' else ''FAIL'', w2)
        })"

section \<open>Client reads: the read index\<close>

text \<open>\<open>Some b\<close> returns \<open>b\<close>; \<open>None\<close> goes on to append a no-op.\<close>

definition etc_check :: "'db node \<Rightarrow> bool option" where
  "etc_check s =
     (if nstate s \<noteq> LEADER then Some False
      else if commitIndex s > lastIncludedIndex s \<and> getLogTermAt (commitIndex s) s = currentTerm s
      then Some True
      else None)"

definition etc_append :: "'db node \<Rightarrow> int option \<times> 'db node" where
  "etc_append s =
     (if nstate s \<noteq> LEADER then (None, s)
      else (Some (getLastLogIndex s + 1), appendLocal
        (mk_LogEntry (currentTerm s) (getLastLogIndex s + 1) NONE ''__noop__'' ''__noop__'') s))"

definition ensureCurrentTermCommitted ::
  "'db leveldb \<Rightarrow> ('db, 'w) env \<Rightarrow> ('db, 'w) world \<Rightarrow> (bool \<times> ('db, 'w) world) option" where
  "ensureCurrentTermCommitted L E w =
     (case locked E (\<lambda>s. (etc_check s, s)) w of
        (Some b, w1) \<Rightarrow> Some (b, w1)
      | (None, w1) \<Rightarrow>
          (case locked E etc_append w1 of
             (None, w2) \<Rightarrow> Some (False, w2)
           | (Some noopIndex, w2) \<Rightarrow> do {
               w3 \<leftarrow> replicateAndCommit L E w2;
               Some (locked E (\<lambda>s. (commitIndex s \<ge> noopIndex \<and>
                 getLogTermAt (commitIndex s) s = currentTerm s, s)) w3)
             }))"

definition srih_prepare :: "int \<Rightarrow> 'db node \<Rightarrow> AppendEntriesArgs option" where
  "srih_prepare termSnapshot s =
     (if nstate s \<noteq> LEADER \<or> currentTerm s \<noteq> termSnapshot then None
      else Some \<lparr>ae_term = currentTerm s, ae_leaderId = nid s,
                 ae_prevLogIndex = getLastLogIndex s, ae_prevLogTerm = getLastLogTerm s,
                 ae_entries = [], ae_leaderCommit = commitIndex s\<rparr>)"

text \<open>\<open>None\<close> returns false, otherwise whether the peer counts.\<close>

definition srih_finish :: "int \<Rightarrow> AppendEntriesReply \<Rightarrow> 'db node \<Rightarrow> bool option \<times> 'db node" where
  "srih_finish termSnapshot reply s =
     (if aer_term reply > currentTerm s then (None, becomeFollower (aer_term reply) s)
      else if nstate s \<noteq> LEADER \<or> currentTerm s \<noteq> termSnapshot then (None, s)
      else (Some (aer_success reply), s))"

text \<open>The loop over the peers, from \<open>successCount\<close> on, with \<open>totalNodes\<close> nodes.\<close>

fun srih_loop ::
  "('db, 'w) env \<Rightarrow> int \<Rightarrow> int \<Rightarrow> PeerInfo list \<Rightarrow> int \<Rightarrow> ('db, 'w) world \<Rightarrow> bool \<times> ('db, 'w) world"
  where
  "srih_loop E termSnapshot totalNodes [] successCount w = (successCount > totalNodes div 2, w)"
| "srih_loop E termSnapshot totalNodes (peer # ps) successCount w =
     (case locked E (\<lambda>s. (srih_prepare termSnapshot s, s)) w of
        (None, w1) \<Rightarrow> (False, w1)
      | (Some args, w1) \<Rightarrow>
          (case send_to E peer (buildAppendEntriesRpc args) w1 of
             (None, w2) \<Rightarrow> srih_loop E termSnapshot totalNodes ps successCount w2
           | (Some resp, w2) \<Rightarrow>
               (case parseAppendEntriesReply resp of
                  None \<Rightarrow> srih_loop E termSnapshot totalNodes ps successCount w2
                | Some reply \<Rightarrow>
                    (case locked E (srih_finish termSnapshot reply) w2 of
                       (None, w3) \<Rightarrow> (False, w3)
                     | (Some success, w3) \<Rightarrow>
                         let n = (if success then successCount + 1 else successCount)
                         in if n > totalNodes div 2 then (True, w3)
                            else srih_loop E termSnapshot totalNodes ps n w3))))"

definition sendReadIndexHeartbeats ::
  "('db, 'w) env \<Rightarrow> int \<Rightarrow> ('db, 'w) world \<Rightarrow> bool \<times> ('db, 'w) world" where
  "sendReadIndexHeartbeats E termSnapshot w =
     srih_loop E termSnapshot (int (length (peers (fst w))) + 1) (peers (fst w)) 1 w"

text \<open>\<open>Some b\<close> returns \<open>b\<close>; \<open>None\<close> sleeps and tries again.\<close>

definition wat_check :: "int \<Rightarrow> int \<Rightarrow> 'db node \<Rightarrow> bool option" where
  "wat_check readIndex termSnapshot s =
     (if nstate s \<noteq> LEADER \<or> currentTerm s \<noteq> termSnapshot then Some False
      else if lastApplied s \<ge> readIndex then Some True
      else None)"

function wat_loop ::
  "('db, 'w) env \<Rightarrow> int \<Rightarrow> int \<Rightarrow> int \<Rightarrow> ('db, 'w) world \<Rightarrow> bool \<times> ('db, 'w) world" where
  "wat_loop E readIndex termSnapshot waitedMs w =
     (if waitedMs < 1000 then
        (case locked E (\<lambda>s. (wat_check readIndex termSnapshot s, s)) w of
           (Some b, w1) \<Rightarrow> (b, w1)
         | (None, w1) \<Rightarrow>
             wat_loop E readIndex termSnapshot (waitedMs + 10) (fst w1, sleep_ms E 10 (snd w1)))
      else (False, w))"
  by pat_completeness auto
termination
  by (relation "measure (\<lambda>(E, readIndex, termSnapshot, waitedMs, w). nat (1000 - waitedMs))") auto

declare wat_loop.simps [simp del]

definition waitAppliedTo ::
  "('db, 'w) env \<Rightarrow> int \<Rightarrow> int \<Rightarrow> ('db, 'w) world \<Rightarrow> bool \<times> ('db, 'w) world" where
  "waitAppliedTo E readIndex termSnapshot w = wat_loop E readIndex termSnapshot 0 w"

text \<open>The result and, where it is \<open>READ_OK\<close>, the value.\<close>

definition lget_final ::
  "'db leveldb \<Rightarrow> string \<Rightarrow> int \<Rightarrow> 'db node \<Rightarrow> (ReadResult \<times> string) \<times> 'db node" where
  "lget_final L key termSnapshot s =
     ((if nstate s \<noteq> LEADER \<or> currentTerm s \<noteq> termSnapshot then (NOT_LEADER, [])
       else case kv_get L key (kvStore s) of
              Some val \<Rightarrow> (READ_OK, val)
            | None \<Rightarrow> (NO_KEY, [])), s)"

definition linearizableGet ::
  "'db leveldb \<Rightarrow> ('db, 'w) env \<Rightarrow> string \<Rightarrow> ('db, 'w) world \<Rightarrow>
    ((ReadResult \<times> string) \<times> ('db, 'w) world) option" where
  "linearizableGet L E key w =
     (case locked E (\<lambda>s. (if nstate s \<noteq> LEADER then None else Some (currentTerm s), s)) w of
        (None, w1) \<Rightarrow> Some ((NOT_LEADER, []), w1)
      | (Some termSnapshot, w1) \<Rightarrow> do {
          (ok, w2) \<leftarrow> ensureCurrentTermCommitted L E w1;
          if \<not> ok then Some ((READ_FAIL, []), w2)
          else case locked E (\<lambda>s. (if nstate s \<noteq> LEADER \<or> currentTerm s \<noteq> termSnapshot then None
                                   else Some (commitIndex s), s)) w2 of
                 (None, w3) \<Rightarrow> Some ((NOT_LEADER, []), w3)
               | (Some readIndex, w3) \<Rightarrow>
                   (case sendReadIndexHeartbeats E termSnapshot w3 of
                      (False, w4) \<Rightarrow> Some ((READ_FAIL, []), w4)
                    | (True, w4) \<Rightarrow>
                        (case waitAppliedTo E readIndex termSnapshot w4 of
                           (False, w5) \<Rightarrow> Some ((READ_FAIL, []), w5)
                         | (True, w5) \<Rightarrow> Some (locked E (lget_final L key termSnapshot) w5)))
        })"

definition handleClientGet ::
  "'db leveldb \<Rightarrow> ('db, 'w) env \<Rightarrow> string \<Rightarrow> ('db, 'w) world \<Rightarrow> (string \<times> ('db, 'w) world) option" where
  "handleClientGet L E key w = do {
     ((result, val), w1) \<leftarrow> linearizableGet L E key w;
     Some (case result of
             READ_OK \<Rightarrow> ''VALUE '' @ val
           | NO_KEY \<Rightarrow> ''NO_KEY''
           | NOT_LEADER \<Rightarrow> ''NOT_LEADER''
           | READ_FAIL \<Rightarrow> ''READ_FAIL'', w1)
   }"

section \<open>The unused single-entry replication\<close>

text \<open>
  \<open>replicateLogEntry\<close> has no caller. It indexes \<open>logs_\<close> by \<open>prevLogIndex - 1\<close>, as if nothing had
  been compacted.
\<close>

definition rle_prepare :: "LogEntry \<Rightarrow> 'db node \<Rightarrow> AppendEntriesArgs option option" where
  "rle_prepare entry s =
     (if nstate s \<noteq> LEADER then Some None
      else do {
        pt \<leftarrow> (if le_index entry - 1 = 0 then Some 0
               else if le_index entry - 2 < 0 then None
               else map_option le_term (vec_get (logs s) (nat (le_index entry - 2))));
        Some (Some \<lparr>ae_term = currentTerm s, ae_leaderId = nid s,
                    ae_prevLogIndex = le_index entry - 1, ae_prevLogTerm = pt,
                    ae_entries = [entry], ae_leaderCommit = commitIndex s\<rparr>)
      })"

text \<open>\<open>None\<close> returns false, otherwise the count after this peer.\<close>

definition rle_finish :: "int \<Rightarrow> AppendEntriesReply \<Rightarrow> int \<Rightarrow> 'db node \<Rightarrow> int option \<times> 'db node" where
  "rle_finish termSnapshot reply successCount s =
     (if nstate s \<noteq> LEADER \<or> currentTerm s \<noteq> termSnapshot then (None, s)
      else if aer_term reply > currentTerm s then (None, becomeFollower (aer_term reply) s)
      else (Some (if aer_success reply then successCount + 1 else successCount), s))"

fun rle_loop ::
  "('db, 'w) env \<Rightarrow> LogEntry \<Rightarrow> int \<Rightarrow> PeerInfo list \<Rightarrow> int \<Rightarrow> ('db, 'w) world \<Rightarrow>
    (int option \<times> ('db, 'w) world) option" where
  "rle_loop E entry termSnapshot [] successCount w = Some (Some successCount, w)"
| "rle_loop E entry termSnapshot (peer # ps) successCount w =
     (case locked E (\<lambda>s. (rle_prepare entry s, s)) w of
        (None, _) \<Rightarrow> None
      | (Some None, w1) \<Rightarrow> Some (None, w1)
      | (Some (Some args), w1) \<Rightarrow>
          (case send_to E peer (buildAppendEntriesRpc args) w1 of
             (None, w2) \<Rightarrow> rle_loop E entry termSnapshot ps successCount w2
           | (Some resp, w2) \<Rightarrow>
               (case parseAppendEntriesReply resp of
                  None \<Rightarrow> rle_loop E entry termSnapshot ps successCount w2
                | Some reply \<Rightarrow>
                    (case locked E (rle_finish termSnapshot reply successCount) w2 of
                       (None, w3) \<Rightarrow> Some (None, w3)
                     | (Some n, w3) \<Rightarrow> rle_loop E entry termSnapshot ps n w3))))"

definition replicateLogEntry ::
  "'db leveldb \<Rightarrow> ('db, 'w) env \<Rightarrow> LogEntry \<Rightarrow> ('db, 'w) world \<Rightarrow> (bool \<times> ('db, 'w) world) option" where
  "replicateLogEntry L E entry w =
     (let (termSnapshot, w1) = locked E (\<lambda>s. (currentTerm s, s)) w
      in case rle_loop E entry termSnapshot (peers (fst w1)) 1 w1 of
           None \<Rightarrow> None
         | Some (None, w2) \<Rightarrow> Some (False, w2)
         | Some (Some successCount, w2) \<Rightarrow>
             Some (locked E (\<lambda>s.
               if successCount > (int (length (peers s)) + 1) div 2
               then (True, applyCommittedLogs L (s\<lparr>commitIndex := le_index entry\<rparr>))
               else (False, s)) w2))"

end
