(* ===== verification/Raft_Server.thy ===== *)
theory Raft_Server
  imports Raft_Leader
begin

text \<open>
  The rest of \<open>raft_node.cpp\<close>: elections and the two background loops, membership changes, and
  \<open>handleRpcText\<close>, which every message to the node goes through.
\<close>

section \<open>Elections\<close>

text \<open>The first locked part of \<open>startElection\<close>; \<open>None\<close> is the early return.\<close>

definition se_begin :: "'db node \<Rightarrow> RequestVoteArgs option \<times> 'db node" where
  "se_begin s =
     (if removed s \<or> leaving s \<or> \<not> votingMember s then (None, s)
      else if \<not> isNodeInCurrentVotingConfig (nid s) s then (None, s\<lparr>votingMember := False\<rparr>)
      else let s1 = becomeCandidate s in
        (Some \<lparr>rv_term = currentTerm s1, rv_candidateId = nid s1,
               rv_lastLogIndex = getLastLogIndex s1, rv_lastLogTerm = getLastLogTerm s1\<rparr>, s1))"

text \<open>
  The locked part after a reply from a peer: the ids that granted so far, or \<open>None\<close> where
  \<open>startElection\<close> returns.
\<close>

definition se_reply ::
  "int \<Rightarrow> int \<Rightarrow> RequestVoteReply \<Rightarrow> int list \<Rightarrow> 'db node \<Rightarrow> int list option \<times> 'db node" where
  "se_reply termSnapshot peerId reply grantedNodeIds s =
     (if nstate s \<noteq> CANDIDATE \<or> currentTerm s \<noteq> termSnapshot then (None, s)
      else if rvr_term reply > currentTerm s then (None, becomeFollower (rvr_term reply) s)
      else if rvr_voteGranted reply then
        let granted = grantedNodeIds @ [peerId] in
        if hasElectionMajority granted s then (None, becomeLeader s)
        else (Some granted, s)
      else (Some grantedNodeIds, s))"

text \<open>
  The loop over \<open>peers_\<close>. The code iterates over the vector without the mutex; the model
  iterates over the peers as they are when the loop starts.
\<close>

fun se_loop ::
  "('db, 'w) env \<Rightarrow> RequestVoteArgs \<Rightarrow> PeerInfo list \<Rightarrow> int list \<Rightarrow> ('db, 'w) world \<Rightarrow> ('db, 'w) world"
  where
  "se_loop E args [] granted w = w"
| "se_loop E args (peer # ps) granted w =
     (case send_to E peer (buildRequestVoteRpc args) w of
        (None, w1) \<Rightarrow> se_loop E args ps granted w1
      | (Some resp, w1) \<Rightarrow>
          (case parseRequestVoteReply resp of
             None \<Rightarrow> se_loop E args ps granted w1
           | Some reply \<Rightarrow>
               (case locked E (se_reply (rv_term args) (pi_id peer) reply granted) w1 of
                  (None, w2) \<Rightarrow> w2
                | (Some granted', w2) \<Rightarrow> se_loop E args ps granted' w2)))"

definition startElection :: "('db, 'w) env \<Rightarrow> ('db, 'w) world \<Rightarrow> ('db, 'w) world" where
  "startElection E w =
     (case locked E se_begin w of
        (None, w1) \<Rightarrow> w1
      | (Some args, w1) \<Rightarrow> se_loop E args (peers (fst w1)) [rv_candidateId args] w1)"

section \<open>The background loops, one round each\<close>

definition el_check :: "'db node \<Rightarrow> bool \<times> 'db node" where
  "el_check s =
     (if removed s then (False, s)
      else if leaving s then (False, s)
      else if \<not> votingMember s then (False, s)
      else if \<not> isNodeInCurrentVotingConfig (nid s) s then (False, s\<lparr>votingMember := False\<rparr>)
      else (nstate s \<noteq> LEADER \<and> isElectionTimeout s, s))"

definition electionLoop_round :: "('db, 'w) env \<Rightarrow> ('db, 'w) world \<Rightarrow> ('db, 'w) world" where
  "electionLoop_round E w =
     (case locked E el_check w of
        (shouldStartElection, w1) \<Rightarrow>
          let w2 = (if shouldStartElection then startElection E w1 else w1)
          in (fst w2, sleep_ms E 100 (snd w2)))"

definition heartbeatLoop_round ::
  "'db leveldb \<Rightarrow> ('db, 'w) env \<Rightarrow> ('db, 'w) world \<Rightarrow> ('db, 'w) world option" where
  "heartbeatLoop_round L E w =
     (case locked E isLeader w of
        (leader, w1) \<Rightarrow> do {
          w2 \<leftarrow> (if leader then sendHeartbeats L E w1 else Some w1);
          Some (fst w2, sleep_ms E 500 (snd w2))
        })"

section \<open>Membership changes\<close>

definition config_entry :: "CommandType \<Rightarrow> string \<Rightarrow> PeerInfo list \<Rightarrow> PeerInfo list \<Rightarrow> 'db node \<Rightarrow> LogEntry"
  where
  "config_entry cmd tag oc nc s =
     \<lparr>le_term = currentTerm s, le_index = getLastLogIndex s + 1, le_op = cmd, le_key = tag,
      le_value = tag, le_oldConfig = oc, le_newConfig = nc\<rparr>"

definition acj_append :: "ClusterConfig \<Rightarrow> ClusterConfig \<Rightarrow> 'db node \<Rightarrow> bool \<times> 'db node" where
  "acj_append oldCfg newCfg s =
     (if nstate s \<noteq> LEADER then (False, s)
      else (True, appendLocal
        (config_entry CONFIG_JOINT ''__config_joint__'' (cfg_nodes oldCfg) (cfg_nodes newCfg) s) s))"

definition appendConfigJoint ::
  "'db leveldb \<Rightarrow> ('db, 'w) env \<Rightarrow> ClusterConfig \<Rightarrow> ClusterConfig \<Rightarrow> ('db, 'w) world \<Rightarrow>
    (bool \<times> ('db, 'w) world) option" where
  "appendConfigJoint L E oldCfg newCfg w =
     (case locked E (acj_append oldCfg newCfg) w of
        (False, w1) \<Rightarrow> Some (False, w1)
      | (True, w1) \<Rightarrow> do { w2 \<leftarrow> replicateAndCommit L E w1; Some (True, w2) })"

definition acn_append :: "ClusterConfig \<Rightarrow> 'db node \<Rightarrow> bool \<times> 'db node" where
  "acn_append newCfg s =
     (if nstate s \<noteq> LEADER then (False, s)
      else (True, appendLocal
        (config_entry CONFIG_NEW ''__config_new__'' [] (cfg_nodes newCfg) s) s))"

definition appendConfigNew ::
  "'db leveldb \<Rightarrow> ('db, 'w) env \<Rightarrow> ClusterConfig \<Rightarrow> ('db, 'w) world \<Rightarrow>
    (bool \<times> ('db, 'w) world) option" where
  "appendConfigNew L E newCfg w =
     (case locked E (acn_append newCfg) w of
        (False, w1) \<Rightarrow> Some (False, w1)
      | (True, w1) \<Rightarrow> do { w2 \<leftarrow> replicateAndCommit L E w1; Some (True, w2) })"

text \<open>\<open>Some b\<close> returns \<open>b\<close>; \<open>None\<close> pushes replication on and waits.\<close>

definition wcs_check :: "ConfigState \<Rightarrow> 'db node \<Rightarrow> bool option" where
  "wcs_check target s =
     (if nstate s \<noteq> LEADER then Some False
      else if configState s = target then Some True
      else None)"

function wcs_loop ::
  "'db leveldb \<Rightarrow> ('db, 'w) env \<Rightarrow> ConfigState \<Rightarrow> int \<Rightarrow> int \<Rightarrow> ('db, 'w) world \<Rightarrow>
    (bool \<times> ('db, 'w) world) option" where
  "wcs_loop L E target timeoutMs waited w =
     (if waited < timeoutMs then
        (case locked E (\<lambda>s. (wcs_check target s, s)) w of
           (Some b, w1) \<Rightarrow> Some (b, w1)
         | (None, w1) \<Rightarrow>
             (case replicateAndCommit L E w1 of
                None \<Rightarrow> None
              | Some w2 \<Rightarrow>
                  wcs_loop L E target timeoutMs (waited + 20) (fst w2, sleep_ms E 20 (snd w2))))
      else Some (False, w))"
  by pat_completeness auto
termination
  by (relation "measure (\<lambda>(L, E, target, timeoutMs, waited, w). nat (timeoutMs - waited))") auto

declare wcs_loop.simps [simp del]

definition waitConfigState ::
  "'db leveldb \<Rightarrow> ('db, 'w) env \<Rightarrow> ConfigState \<Rightarrow> int \<Rightarrow> ('db, 'w) world \<Rightarrow>
    (bool \<times> ('db, 'w) world) option" where
  "waitConfigState L E target timeoutMs w = wcs_loop L E target timeoutMs 0 w"

text \<open>The old and the new configuration of a change, or \<open>None\<close> where it is refused.\<close>

definition addNode_check :: "PeerInfo \<Rightarrow> 'db node \<Rightarrow> (ClusterConfig \<times> ClusterConfig) option" where
  "addNode_check newNode s =
     (if nstate s \<noteq> LEADER then None
      else if configState s \<noteq> STABLE then None
      else if cfg_contains (currentConfig s) (pi_id newNode) then None
      else Some (currentConfig s,
        (currentConfig s)\<lparr>cfg_nodes := cfg_nodes (currentConfig s) @ [newNode]\<rparr>))"

definition removeNode_check :: "int \<Rightarrow> 'db node \<Rightarrow> (ClusterConfig \<times> ClusterConfig) option" where
  "removeNode_check removeNodeId s =
     (if nstate s \<noteq> LEADER then None
      else if configState s \<noteq> STABLE then None
      else if \<not> cfg_contains (currentConfig s) removeNodeId then None
      else let newCfg = \<lparr>cfg_nodes =
             filter (\<lambda>n. pi_id n \<noteq> removeNodeId) (cfg_nodes (currentConfig s))\<rparr>
        in if cfg_nodes newCfg = [] then None else Some (currentConfig s, newCfg))"

text \<open>The four steps both changes share: append, wait for JOINT, append, wait for STABLE.\<close>

definition changeConfig ::
  "'db leveldb \<Rightarrow> ('db, 'w) env \<Rightarrow> ClusterConfig \<Rightarrow> ClusterConfig \<Rightarrow> ('db, 'w) world \<Rightarrow>
    (bool \<times> ('db, 'w) world) option" where
  "changeConfig L E oldCfg newCfg w = do {
     (ok1, w1) \<leftarrow> appendConfigJoint L E oldCfg newCfg w;
     if \<not> ok1 then Some (False, w1)
     else do {
       (ok2, w2) \<leftarrow> waitConfigState L E JOINT 3000 w1;
       if \<not> ok2 then Some (False, w2)
       else do {
         (ok3, w3) \<leftarrow> appendConfigNew L E newCfg w2;
         if \<not> ok3 then Some (False, w3)
         else waitConfigState L E STABLE 3000 w3
       }
     }
   }"

definition addNode ::
  "'db leveldb \<Rightarrow> ('db, 'w) env \<Rightarrow> PeerInfo \<Rightarrow> ('db, 'w) world \<Rightarrow> (bool \<times> ('db, 'w) world) option"
  where
  "addNode L E newNode w =
     (case locked E (\<lambda>s. (addNode_check newNode s, s)) w of
        (None, w1) \<Rightarrow> Some (False, w1)
      | (Some (oldCfg, newCfg), w1) \<Rightarrow> changeConfig L E oldCfg newCfg w1)"

definition removeNode ::
  "'db leveldb \<Rightarrow> ('db, 'w) env \<Rightarrow> int \<Rightarrow> ('db, 'w) world \<Rightarrow> (bool \<times> ('db, 'w) world) option" where
  "removeNode L E removeNodeId w =
     (case locked E (\<lambda>s. (removeNode_check removeNodeId s, s)) w of
        (None, w1) \<Rightarrow> Some (False, w1)
      | (Some (oldCfg, newCfg), w1) \<Rightarrow> do {
          (ok, w2) \<leftarrow> changeConfig L E oldCfg newCfg w1;
          if \<not> ok then Some (False, w2)
          else if removeNodeId = nid (fst w2) then Some (True, (raft_stop (fst w2), snd w2))
          else Some (True, w2)
        })"

section \<open>The dispatcher\<close>

text \<open>A handler under the mutex, its reply as text.\<close>

definition rpc_vote :: "('db, 'w) env \<Rightarrow> RequestVoteArgs \<Rightarrow> ('db, 'w) world \<Rightarrow> string \<times> ('db, 'w) world"
  where
  "rpc_vote E args w =
     (let (reply, w1) = locked E (handleRequestVote args) w in (buildRequestVoteReply reply, w1))"

definition rpc_append ::
  "'db leveldb \<Rightarrow> ('db, 'w) env \<Rightarrow> AppendEntriesArgs \<Rightarrow> ('db, 'w) world \<Rightarrow> string \<times> ('db, 'w) world"
  where
  "rpc_append L E args w =
     (let (reply, w1) = locked E (handleAppendEntries L args) w in (buildAppendEntriesReply reply, w1))"

definition rpc_snapshot ::
  "'db leveldb \<Rightarrow> ('db, 'w) env \<Rightarrow> InstallSnapshotArgs \<Rightarrow> ('db, 'w) world \<Rightarrow> string \<times> ('db, 'w) world"
  where
  "rpc_snapshot L E args w =
     (let (reply, w1) = locked E (handleInstallSnapshot L args) w
      in (buildInstallSnapshotReply reply, w1))"

text \<open>
  The commands of the client, by the first word of the request; \<open>None\<close> where the request is
  none of them. The inner result is that of the operation.
\<close>

definition client_command ::
  "'db leveldb \<Rightarrow> ('db, 'w) env \<Rightarrow> string \<Rightarrow> ('db, 'w) world \<Rightarrow>
    (string \<times> ('db, 'w) world) option option" where
  "client_command L E req w =
     (let (type, s0) = read_string [] (istringstream req) in
      if type = ''CPUT'' then
        Some (let (key, s1) = read_string [] s0; (val, s2) = read_string [] s1
              in if is_fail s2 then Some (''ERR'', w) else handleClientPut L E key val w)
      else if type = ''CGET'' then
        Some (let (key, s1) = read_string [] s0
              in if is_fail s1 then Some (''ERR'', w) else handleClientGet L E key w)
      else if type = ''CADD'' then
        Some (let (i, s1) = read_int 0 s0; (ip, s2) = read_string [] s1; (port, s3) = read_int 0 s2
              in if is_fail s3 then Some (''ERR'', w)
                 else case locked E isLeader w of
                        (False, w1) \<Rightarrow> Some (''NOT_LEADER'', w1)
                      | (True, w1) \<Rightarrow> do {
                          (ok, w2) \<leftarrow> addNode L E \<lparr>pi_id = i, pi_ip = ip, pi_port = port\<rparr> w1;
                          Some (if ok then ''OK'' else ''FAIL'', w2)
                        })
      else if type = ''CREMOVE'' then
        Some (let (i, s1) = read_int 0 s0
              in if is_fail s1 then Some (''ERR'', w)
                 else case locked E isLeader w of
                        (False, w1) \<Rightarrow> Some (''NOT_LEADER'', w1)
                      | (True, w1) \<Rightarrow> do {
                          (ok, w2) \<leftarrow> removeNode L E i w1;
                          Some (if ok then ''OK'' else ''FAIL'', w2)
                        })
      else if type = ''CDEL'' then
        Some (let (key, s1) = read_string [] s0
              in if is_fail s1 then Some (''ERR'', w) else handleClientDelete L E key w)
      else None)"

definition handleRpcText ::
  "'db leveldb \<Rightarrow> ('db, 'w) env \<Rightarrow> string \<Rightarrow> ('db, 'w) world \<Rightarrow> (string \<times> ('db, 'w) world) option"
  where
  "handleRpcText L E req w =
     (case client_command L E req w of
        Some result \<Rightarrow> result
      | None \<Rightarrow>
     (case parseRequestVoteRpc req of
        Some args \<Rightarrow> Some (rpc_vote E args w)
      | None \<Rightarrow>
     (case parseAppendEntriesRpc req of
        Some args \<Rightarrow> Some (rpc_append L E args w)
      | None \<Rightarrow>
     (case parseInstallSnapshotRpc req of
        Some args \<Rightarrow> Some (rpc_snapshot L E args w)
      | None \<Rightarrow> Some (''ERR'', w)))))"

end
