(* ===== verification/Client.thy ===== *)
theory Client
  imports Raft_Server
begin

text \<open>
  The two programs around the node: the client library (\<open>src/src/client/clerk.cpp\<close>), its
  command loop (\<open>client_main.cpp\<close>) and the start of a node (\<open>node_main.cpp\<close>). The file system
  and the network are parameters.
\<close>

section \<open>The cluster file\<close>

text \<open>
  Both programs have their own copy of \<open>loadClusterConfig\<close>: one line per node, empty lines and
  lines that begin with \<open>#\<close> skipped, a line that does not parse ends the load.
\<close>

definition parse_node_line :: "string \<Rightarrow> PeerInfo option" where
  "parse_node_line line =
     (let (i, s1) = read_int 0 (istringstream line);
          (ip, s2) = read_string [] s1;
          (port, s3) = read_int 0 s2
      in if is_fail s3 then None else Some \<lparr>pi_id = i, pi_ip = ip, pi_port = port\<rparr>)"

function load_nodes :: "string \<Rightarrow> istream \<Rightarrow> PeerInfo list \<Rightarrow> PeerInfo list option" where
  "load_nodes line s nodes =
     (let (line', s') = stream_getline line s in
      if is_fail s' then Some nodes
      else if line' = [] then load_nodes line' s' nodes
      else if hd line' = CHR 0x23 then load_nodes line' s' nodes
      else case parse_node_line line' of
             None \<Rightarrow> None
           | Some n \<Rightarrow> load_nodes line' s' (nodes @ [n]))"
  by pat_completeness auto
termination
  by (relation "measure (\<lambda>(line, s, nodes). length (is_rest s))") (auto dest: getline_shrinks [OF sym])

declare load_nodes.simps [simp del]

text \<open>The file as \<open>open\<close> finds it; \<open>None\<close> where it cannot be opened.\<close>

definition loadClusterConfig :: "string option \<Rightarrow> PeerInfo list option" where
  "loadClusterConfig file =
     (case file of None \<Rightarrow> None | Some txt \<Rightarrow> load_nodes [] (istringstream txt) [])"

section \<open>The clerk\<close>

record clerk =
  ck_configPath :: string
  ck_servers :: "PeerInfo list"
  ck_leaderHint :: int

text \<open>What the clerk sees of the system: files by path, and \<open>TcpClient::sendMessage\<close>.\<close>

record 'w clerk_env =
  read_file :: "string \<Rightarrow> 'w \<Rightarrow> string option"
  send_request :: "string \<Rightarrow> int \<Rightarrow> string \<Rightarrow> 'w \<Rightarrow> string option \<times> 'w"

definition reloadServersFromConfig :: "'w clerk_env \<Rightarrow> clerk \<Rightarrow> 'w \<Rightarrow> bool \<times> clerk" where
  "reloadServersFromConfig E c w =
     (case loadClusterConfig (read_file E (ck_configPath c) w) of
        None \<Rightarrow> (False, c)
      | Some nodes \<Rightarrow>
          let c' = c\<lparr>ck_servers := nodes\<rparr> in
          (True, if ck_leaderHint c' \<ge> int (length (ck_servers c'))
                 then c'\<lparr>ck_leaderHint := 0\<rparr> else c'))"

definition Clerk_new :: "'w clerk_env \<Rightarrow> string \<Rightarrow> 'w \<Rightarrow> clerk" where
  "Clerk_new E path w =
     snd (reloadServersFromConfig E \<lparr>ck_configPath = path, ck_servers = [], ck_leaderHint = 0\<rparr> w)"

definition findNodeById :: "'w clerk_env \<Rightarrow> int \<Rightarrow> clerk \<Rightarrow> 'w \<Rightarrow> PeerInfo option" where
  "findNodeById E nodeId c w =
     (case loadClusterConfig (read_file E (ck_configPath c) w) of
        None \<Rightarrow> None
      | Some nodes \<Rightarrow> List.find (\<lambda>n. pi_id n = nodeId) nodes)"

text \<open>
  The loop all four operations have: the servers from the hint on, around the ring, until a
  response decides (\<open>decide\<close>: \<open>None\<close> continues with the next server). The result is the index of
  the deciding server and its decision.
\<close>

fun ring_loop ::
  "'w clerk_env \<Rightarrow> PeerInfo list \<Rightarrow> int \<Rightarrow> string \<Rightarrow> (string \<Rightarrow> 'r option) \<Rightarrow> nat list \<Rightarrow> 'w \<Rightarrow>
    (int \<times> 'r) option \<times> 'w" where
  "ring_loop E servers start req decide [] w = (None, w)"
| "ring_loop E servers start req decide (i # is) w =
     (let idx = (start + int i) mod int (length servers); server = servers ! nat idx
      in case send_request E (pi_ip server) (pi_port server) req w of
           (None, w1) \<Rightarrow> ring_loop E servers start req decide is w1
         | (Some resp, w1) \<Rightarrow>
             (case decide resp of
                None \<Rightarrow> ring_loop E servers start req decide is w1
              | Some r \<Rightarrow> (Some (idx, r), w1)))"

definition decide_OK :: "string \<Rightarrow> bool option" where
  "decide_OK resp = (if resp = ''OK'' then Some True else None)"

text \<open>\<open>get\<close>: the result and the new content of the caller's \<open>value\<close>.\<close>

definition decide_get :: "string \<Rightarrow> (bool \<times> string) option" where
  "decide_get resp =
     (if take 6 resp = ''VALUE '' then Some (True, drop 6 resp)
      else if resp = ''NO_KEY'' then Some (False, [])
      else None)"

definition clerk_ask ::
  "'w clerk_env \<Rightarrow> string \<Rightarrow> (string \<Rightarrow> 'r option) \<Rightarrow> clerk \<Rightarrow> 'w \<Rightarrow> 'r option \<times> clerk \<times> 'w" where
  "clerk_ask E req decide c w =
     (let c1 = snd (reloadServersFromConfig E c w) in
      if ck_servers c1 = [] then (None, c1, w)
      else case ring_loop E (ck_servers c1) (ck_leaderHint c1) req decide
                  [0..<length (ck_servers c1)] w of
             (None, w1) \<Rightarrow> (None, c1, w1)
           | (Some (idx, r), w1) \<Rightarrow> (Some r, c1\<lparr>ck_leaderHint := idx\<rparr>, w1))"

definition put_request :: "string \<Rightarrow> string \<Rightarrow> string" where
  "put_request key val = ''CPUT '' @ key @ '' '' @ val"

definition clerk_put :: "'w clerk_env \<Rightarrow> string \<Rightarrow> string \<Rightarrow> clerk \<Rightarrow> 'w \<Rightarrow> bool \<times> clerk \<times> 'w" where
  "clerk_put E key val c w =
     (case clerk_ask E (put_request key val) decide_OK c w of
        (None, r) \<Rightarrow> (False, r) | (Some b, r) \<Rightarrow> (b, r))"

definition clerk_get ::
  "'w clerk_env \<Rightarrow> string \<Rightarrow> string \<Rightarrow> clerk \<Rightarrow> 'w \<Rightarrow> (bool \<times> string) \<times> clerk \<times> 'w" where
  "clerk_get E key old c w =
     (case clerk_ask E (''CGET '' @ key) decide_get c w of
        (None, r) \<Rightarrow> ((False, old), r) | (Some b, r) \<Rightarrow> (b, r))"

definition clerk_del :: "'w clerk_env \<Rightarrow> string \<Rightarrow> clerk \<Rightarrow> 'w \<Rightarrow> bool \<times> clerk \<times> 'w" where
  "clerk_del E key c w =
     (case clerk_ask E (''CDEL '' @ key) decide_OK c w of
        (None, r) \<Rightarrow> (False, r) | (Some b, r) \<Rightarrow> (b, r))"

definition sendAdminCommand :: "'w clerk_env \<Rightarrow> string \<Rightarrow> clerk \<Rightarrow> 'w \<Rightarrow> bool \<times> clerk \<times> 'w" where
  "sendAdminCommand E req c w =
     (case clerk_ask E req decide_OK c w of
        (None, r) \<Rightarrow> (False, r)
      | (Some b, c1, w1) \<Rightarrow> (b, snd (reloadServersFromConfig E c1 w1), w1))"

definition add_request :: "PeerInfo \<Rightarrow> string" where
  "add_request n = ''CADD '' @ show_int (pi_id n) @ '' '' @ pi_ip n @ '' '' @ show_int (pi_port n)"

definition clerk_addNode :: "'w clerk_env \<Rightarrow> int \<Rightarrow> clerk \<Rightarrow> 'w \<Rightarrow> bool \<times> clerk \<times> 'w" where
  "clerk_addNode E nodeId c w =
     (case findNodeById E nodeId c w of
        None \<Rightarrow> (False, c, w)
      | Some newNode \<Rightarrow> sendAdminCommand E (add_request newNode) c w)"

definition clerk_removeNode :: "'w clerk_env \<Rightarrow> int \<Rightarrow> clerk \<Rightarrow> 'w \<Rightarrow> bool \<times> clerk \<times> 'w" where
  "clerk_removeNode E nodeId c w = sendAdminCommand E (''CREMOVE '' @ show_int nodeId) c w"

section \<open>The command loop of the client program\<close>

text \<open>
  \<open>while (std::cin >> cmd)\<close>. The texts printed are collected. \<open>int nodeId\<close> is read without being
  initialised: \<open>junk\<close> is what it holds where the extraction leaves it alone.
\<close>

definition client_command_line ::
  "'w clerk_env \<Rightarrow> int \<Rightarrow> string \<Rightarrow> istream \<Rightarrow> clerk \<Rightarrow> 'w \<Rightarrow> string \<times> istream \<times> clerk \<times> 'w" where
  "client_command_line E junk cmd s c w =
     (if cmd = ''put'' then
        let (key, s1) = read_string [] s; (val, s2) = read_string [] s1;
            (ok, c', w') = clerk_put E key val c w
        in (if ok then ''put success'' else ''put failed'', s2, c', w')
      else if cmd = ''get'' then
        let (key, s1) = read_string [] s; ((ok, val), c', w') = clerk_get E key [] c w
        in (if ok then ''value = '' @ val else ''get failed or no key'', s1, c', w')
      else if cmd = ''del'' then
        let (key, s1) = read_string [] s; (ok, c', w') = clerk_del E key c w
        in (if ok then ''delete success'' else ''delete failed'', s1, c', w')
      else if cmd = ''add'' then
        let (i, s1) = read_int junk s; (ok, c', w') = clerk_addNode E i c w
        in (if ok then ''add success'' else ''add failed'', s1, c', w')
      else if cmd = ''remove'' then
        let (i, s1) = read_int junk s; (ok, c', w') = clerk_removeNode E i c w
        in (if ok then ''remove success'' else ''remove failed'', s1, c', w')
      else (''Unknown command: '' @ cmd, s, c, w))"

lemma sentry_le: "stream_sentry s = (b, s') \<Longrightarrow> length (is_rest s') \<le> length (is_rest s)"
  by (auto simp: stream_sentry_def Let_def length_dropWhile_le split: if_splits)

lemma read_string_le: "read_string old s = (t, s') \<Longrightarrow> length (is_rest s') \<le> length (is_rest s)"
  by (auto simp: read_string_def Let_def split: prod.splits bool.splits
      dest!: sentry_le intro: order_trans [OF length_dropWhile_le])

lemma scan_le: "scan_number r = (neg, ds, r') \<Longrightarrow> length r' \<le> length r"
  by (auto simp: scan_number_def Let_def split: if_splits
      intro: order_trans [OF length_dropWhile_le])

lemma read_int_le: "read_int old s = (v, s') \<Longrightarrow> length (is_rest s') \<le> length (is_rest s)"
  by (auto simp: read_int_def Let_def split: prod.splits bool.splits if_splits
      dest!: sentry_le scan_le intro: order_trans)

lemma read_string_shrinks:
  assumes "read_string old s = (t, s')" and "\<not> is_fail s'"
  shows "length (is_rest s') < length (is_rest s)"
proof -
  obtain b s1 where s1: "stream_sentry s = (b, s1)" by (cases "stream_sentry s")
  have "b" using assms s1
    by (cases b) (auto simp: read_string_def stream_sentry_def Let_def split: if_splits)
  with s1 have r: "is_rest s1 = dropWhile isspace (is_rest s)" "is_rest s1 \<noteq> []"
    by (auto simp: stream_sentry_def Let_def split: if_splits)
  then have "\<not> isspace (hd (is_rest s1))"
    by (metis hd_dropWhile)
  with r(2) have "length (dropWhile (\<lambda>c. \<not> isspace c) (is_rest s1)) < length (is_rest s1)"
    by (cases "is_rest s1") (auto simp: le_imp_less_Suc length_dropWhile_le)
  with sentry_le [OF s1] \<open>b\<close> s1 assms(1) show ?thesis
    by (auto simp: read_string_def Let_def)
qed

lemma client_command_line_le:
  "client_command_line E junk cmd s c w = (out, s', c', w') \<Longrightarrow>
     length (is_rest s') \<le> length (is_rest s)"
  by (auto simp: client_command_line_def split: if_splits prod.splits
      dest!: read_string_le read_int_le)

function client_main ::
  "'w clerk_env \<Rightarrow> int \<Rightarrow> string \<Rightarrow> istream \<Rightarrow> clerk \<Rightarrow> 'w \<Rightarrow> string list \<times> clerk \<times> 'w" where
  "client_main E junk cmd s c w =
     (let (cmd', s') = read_string cmd s in
      if is_fail s' then ([], c, w)
      else if cmd' = ''quit'' then ([], c, w)
      else case client_command_line E junk cmd' s' c w of
             (out, s'', c', w') \<Rightarrow>
               (case client_main E junk cmd' s'' c' w' of (outs, r) \<Rightarrow> (out # outs, r)))"
  by pat_completeness auto
termination
  by (relation "measure (\<lambda>(E, junk, cmd, s, c, w). length (is_rest s))")
    (auto dest!: read_string_shrinks [OF sym] client_command_line_le [OF sym])

declare client_main.simps [simp del]

section \<open>The start of a node\<close>

definition findSelfNode :: "PeerInfo list \<Rightarrow> string \<Rightarrow> int \<Rightarrow> PeerInfo option" where
  "findSelfNode allNodes ip port =
     List.find (\<lambda>n. pi_ip n = ip \<and> pi_port n = port) allNodes"

definition buildPeers :: "PeerInfo list \<Rightarrow> int \<Rightarrow> PeerInfo list" where
  "buildPeers allNodes selfId = filter (\<lambda>n. pi_id n \<noteq> selfId) allNodes"

text \<open>\<open>std::atoi\<close>: a result out of the range of \<open>int\<close> is undefined there and exact here.\<close>

definition c_atoi :: "string \<Rightarrow> int" where
  "c_atoi s =
     (case scan_number (dropWhile isspace s) of (neg, ds, _) \<Rightarrow>
        if neg then - int (digits_val ds) else int (digits_val ds))"

text \<open>
  \<open>main\<close> up to the start of the loops; \<open>None\<close> is \<open>return 1\<close>. The arguments are \<open>argv\<close> without the
  program's name; \<open>saved\<close> gives the content of a state file by its name, \<open>now\<close> and \<open>r\<close> the clock
  and the random number.
\<close>

definition node_main ::
  "'db leveldb \<Rightarrow> string list \<Rightarrow> string option \<Rightarrow> (int \<Rightarrow> string option) \<Rightarrow> bool \<Rightarrow> int \<Rightarrow> int \<Rightarrow>
    'db node option" where
  "node_main L args config saved writable now r =
     (if length args < 2 then None
      else let ip = args ! 0; port = c_atoi (args ! 1);
               learner = list_ex (\<lambda>a. a = ''--learner'') (drop 2 args)
      in case loadClusterConfig config of
           None \<Rightarrow> None
         | Some allNodes \<Rightarrow>
             (case findSelfNode allNodes ip port of
                None \<Rightarrow> None
              | Some self \<Rightarrow>
                  let nodeId = pi_id self;
                      s1 = RaftNode_new L nodeId (saved nodeId) writable now r;
                      s2 = setPeers (buildPeers allNodes nodeId) (setSelfAddress ip port s1);
                      s3 = (if learner then setVotingMember False s2 else s2)
                  in Some (raft_start s3)))"

section \<open>What the file load computes\<close>

text \<open>The text of a file from its lines, and the lines that count.\<close>

definition file_of :: "string list \<Rightarrow> string" where
  "file_of ls = concat (map (\<lambda>l. l @ [CHR 0x0A]) ls)"

definition node_line :: "string \<Rightarrow> bool" where
  "node_line l \<longleftrightarrow> l \<noteq> [] \<and> hd l \<noteq> CHR 0x23"

text \<open>All the parsed lines, or \<open>None\<close> where one fails.\<close>

fun parse_all :: "string list \<Rightarrow> PeerInfo list option" where
  "parse_all [] = Some []"
| "parse_all (l # ls) =
     (case parse_node_line l of None \<Rightarrow> None | Some n \<Rightarrow> map_option ((#) n) (parse_all ls))"

lemma getline_line:
  assumes "CHR 0x0A \<notin> set l"
  shows "stream_getline old (stream_at (l @ CHR 0x0A # r)) = (l, stream_at r)"
proof -
  have "takeWhile (\<lambda>c. c \<noteq> CHR 0x0A) (l @ CHR 0x0A # r) = l"
    "dropWhile (\<lambda>c. c \<noteq> CHR 0x0A) (l @ CHR 0x0A # r) = CHR 0x0A # r"
    using assms by (auto simp: takeWhile_append dropWhile_append)
  then show ?thesis
    by (simp add: stream_getline_def stream_at_def is_good_def)
qed

lemma load_nodes_lines:
  assumes "\<forall>l \<in> set ls. CHR 0x0A \<notin> set l"
  shows "load_nodes old (stream_at (file_of ls)) ns =
    map_option ((@) ns) (parse_all (filter node_line ls))"
  using assms
proof (induction ls arbitrary: old ns)
  case Nil
  then show ?case
    by (simp add: load_nodes.simps file_of_def stream_getline_def stream_at_def is_good_def)
next
  case (Cons l ls)
  have f: "file_of (l # ls) = l @ CHR 0x0A # file_of ls" by (simp add: file_of_def)
  from Cons.prems have g: "stream_getline old (stream_at (file_of (l # ls))) = (l, stream_at (file_of ls))"
    by (simp add: f getline_line)
  show ?case
  proof (cases "node_line l")
    case True
    then have "l \<noteq> []" "hd l \<noteq> CHR 0x23" by (simp_all add: node_line_def)
    with True show ?thesis
      using g Cons.IH [of l "ns @ [n]" for n] Cons.prems
      by (subst load_nodes.simps) (auto simp: option.map_comp comp_def split: option.split)
  next
    case False
    then have "l = [] \<or> hd l = CHR 0x23" by (simp add: node_line_def)
    with False show ?thesis
      using g Cons.IH [of l ns] Cons.prems
      by (subst load_nodes.simps) auto
  qed
qed

section \<open>The ring\<close>

text \<open>The specification of the loop: ask the servers of a list, each once, until one decides.\<close>

fun ask_in_order ::
  "'w clerk_env \<Rightarrow> string \<Rightarrow> (string \<Rightarrow> 'r option) \<Rightarrow> PeerInfo list \<Rightarrow> 'w \<Rightarrow>
    (PeerInfo \<times> 'r) option \<times> 'w" where
  "ask_in_order E req decide [] w = (None, w)"
| "ask_in_order E req decide (p # ps) w =
     (case send_request E (pi_ip p) (pi_port p) req w of
        (None, w1) \<Rightarrow> ask_in_order E req decide ps w1
      | (Some resp, w1) \<Rightarrow>
          (case decide resp of
             None \<Rightarrow> ask_in_order E req decide ps w1
           | Some r \<Rightarrow> (Some (p, r), w1)))"

lemma ring_loop_order:
  "ask_in_order E req decide (map (\<lambda>i. ss ! nat ((start + int i) mod int (length ss))) is) w =
   (case ring_loop E ss start req decide is w of
      (None, w1) \<Rightarrow> (None, w1)
    | (Some (idx, r), w1) \<Rightarrow> (Some (ss ! nat idx, r), w1))"
  by (induction "is" arbitrary: w) (auto simp: Let_def split: prod.splits option.splits)

lemma ring_loop_range:
  "ring_loop E ss start req decide is w = (Some (idx, r), w1) \<Longrightarrow> ss \<noteq> [] \<Longrightarrow>
     0 \<le> idx \<and> idx < int (length ss)"
  by (induction "is" arbitrary: w) (auto simp: Let_def split: prod.splits option.splits)

lemma ring_indices:
  assumes "0 \<le> h" and "h < int (length ss)"
  shows "map (\<lambda>i. ss ! nat ((h + int i) mod int (length ss))) [0..<length ss] = rotate (nat h) ss"
proof (rule nth_equalityI)
  fix i assume "i < length (map (\<lambda>i. ss ! nat ((h + int i) mod int (length ss))) [0..<length ss])"
  then have "i < length ss" by simp
  moreover have "nat ((h + int i) mod int (length ss)) = (nat h + i) mod length ss"
    using assms(1) by (metis int_nat_eq nat_int of_nat_add zmod_int)
  ultimately show "map (\<lambda>i. ss ! nat ((h + int i) mod int (length ss))) [0..<length ss] ! i =
      rotate (nat h) ss ! i"
    by (simp add: nth_rotate)
qed simp

definition clerk_ok :: "clerk \<Rightarrow> bool" where
  "clerk_ok c \<longleftrightarrow> 0 \<le> ck_leaderHint c \<and>
     (ck_leaderHint c < int (length (ck_servers c)) \<or> ck_servers c = [] \<and> ck_leaderHint c = 0)"

lemma reload_ok: "clerk_ok c \<Longrightarrow> clerk_ok (snd (reloadServersFromConfig E c w))"
  by (auto simp: reloadServersFromConfig_def clerk_ok_def Let_def split: option.splits)

lemma Clerk_new_ok_aux: "clerk_ok (Clerk_new E path w)"
  unfolding Clerk_new_def by (rule reload_ok) (simp add: clerk_ok_def)

lemma clerk_ask_ok:
  assumes "clerk_ok c" and "clerk_ask E req decide c w = (r, c', w')"
  shows "clerk_ok c'"
  using assms reload_ok [OF assms(1), of E w]
  by (auto simp: clerk_ask_def Let_def clerk_ok_def split: if_splits prod.splits option.splits
      dest!: ring_loop_range)

text \<open>Every server of the file is asked once, the hinted one first, until one decides.\<close>

lemma clerk_ask_order:
  fixes E :: "'w clerk_env" and w :: 'w
  assumes "clerk_ok c"
  defines "c1 \<equiv> snd (reloadServersFromConfig E c w)"
  shows "ask_in_order E req decide (rotate (nat (ck_leaderHint c1)) (ck_servers c1)) w =
    (case clerk_ask E req decide c w of
       (None, c', w') \<Rightarrow> (None, w')
     | (Some r, c', w') \<Rightarrow> (Some (ck_servers c' ! nat (ck_leaderHint c'), r), w'))"
proof (cases "ck_servers c1 = []")
  case True
  then show ?thesis by (simp add: clerk_ask_def c1_def [symmetric] Let_def)
next
  case False
  with reload_ok [OF assms(1), of E w] have "0 \<le> ck_leaderHint c1"
    "ck_leaderHint c1 < int (length (ck_servers c1))"
    by (auto simp: clerk_ok_def c1_def)
  from ring_loop_order [of E req decide "ck_servers c1" "ck_leaderHint c1" "[0..<length (ck_servers c1)]" w]
  show ?thesis
    unfolding ring_indices [OF \<open>0 \<le> ck_leaderHint c1\<close> \<open>ck_leaderHint c1 < _\<close>]
    using False
    by (auto simp: clerk_ask_def c1_def [symmetric] Let_def split: prod.splits option.splits)
qed

lemma ask_in_order_Some:
  "ask_in_order E req decide ps w = (Some (p, r), w') \<Longrightarrow>
     \<exists>before after w0 w1 resp. ps = before @ p # after \<and>
       ask_in_order E req decide before w = (None, w0) \<and>
       send_request E (pi_ip p) (pi_port p) req w0 = (Some resp, w1) \<and> decide resp = Some r"
proof (induction ps arbitrary: w)
  case Nil
  then show ?case by simp
next
  case (Cons q ps)
  obtain resp w1 where s: "send_request E (pi_ip q) (pi_port q) req w = (resp, w1)"
    by (cases "send_request E (pi_ip q) (pi_port q) req w")
  show ?case
  proof (cases "\<exists>x d. resp = Some x \<and> decide x = Some d")
    case True
    with s Cons.prems show ?thesis
      by (intro exI [of _ "[]"] exI [of _ ps]) auto
  next
    case False
    then have nxt: "ask_in_order E req decide (q # qs) w = ask_in_order E req decide qs w1" for qs
      using s by (auto split: option.splits)
    from Cons.IH [of w1] Cons.prems obtain before after w0 w2 x where
      "ps = before @ p # after" "ask_in_order E req decide before w1 = (None, w0)"
      "send_request E (pi_ip p) (pi_port p) req w0 = (Some x, w2)" "decide x = Some r"
      unfolding nxt by blast
    then show ?thesis
      by (intro exI [of _ "q # before"] exI [of _ after] exI [of _ w0] exI [of _ w2] exI [of _ x])
        (simp_all only: nxt append_Cons simp_thms)
  qed
qed

section \<open>The requests of the clerk at the server\<close>

lemma command_dispatch:
  assumes "tokenp key"
  shows "tokenp val \<Longrightarrow> handleRpcText L E (put_request key val) w = handleClientPut L E key val w"
    and "handleRpcText L E (''CGET '' @ key) w = handleClientGet L E key w"
    and "handleRpcText L E (''CDEL '' @ key) w = handleClientDelete L E key w"
proof -
  have t: "tokenp ''CPUT''" "tokenp ''CGET''" "tokenp ''CDEL''"
    by (simp_all add: tokenp_def isspace_def)
  have r: "read_string old (stream_at (''CPUT'' @ CHR '' '' # x)) = (''CPUT'', stream_at (CHR '' '' # x))"
    "read_string old (stream_at (''CGET'' @ CHR '' '' # x)) = (''CGET'', stream_at (CHR '' '' # x))"
    "read_string old (stream_at (''CDEL'' @ CHR '' '' # x)) = (''CDEL'', stream_at (CHR '' '' # x))" for old x
    using read_first(3) [OF t(1), of "CHR '' '' # x" old] read_first(3) [OF t(2), of "CHR '' '' # x" old]
      read_first(3) [OF t(3), of "CHR '' '' # x" old] by simp_all
  show "handleRpcText L E (''CGET '' @ key) w = handleClientGet L E key w"
    using assms r(2) [of "[]" key]
    by (simp add: handleRpcText_def client_command_def stream_simps)
  show "handleRpcText L E (''CDEL '' @ key) w = handleClientDelete L E key w"
    using assms r(3) [of "[]" key]
    by (simp add: handleRpcText_def client_command_def stream_simps)
  show "handleRpcText L E (put_request key val) w = handleClientPut L E key val w" if "tokenp val"
    using assms that r(1) [of "[]" "key @ CHR '' '' # val"]
    by (simp add: handleRpcText_def client_command_def stream_simps put_request_def)
qed


lemma node_message_dispatch:
  shows "rv_ok a \<Longrightarrow> handleRpcText L E (buildRequestVoteRpc a) w = Some (rpc_vote E a w)"
    and "ae_ok b \<Longrightarrow> handleRpcText L E (buildAppendEntriesRpc b) w = Some (rpc_append L E b w)"
    and "sn_ok c \<Longrightarrow> handleRpcText L E (buildInstallSnapshotRpc c) w = Some (rpc_snapshot L E c w)"
proof -
  have rv: "client_command L E (''RV '' @ x) w = None" "client_command L E (''AE '' @ x) w = None"
    "client_command L E (''IS '' @ x) w = None" for x
    by (simp_all add: client_command_def stream_simps)
  have p: "parseRequestVoteRpc (''AE '' @ x) = None" "parseRequestVoteRpc (''IS '' @ x) = None"
    "parseAppendEntriesRpc (''IS '' @ x) = None" for x
    by (simp_all add: parseRequestVoteRpc_def parseAppendEntriesRpc_def stream_simps)
  show "handleRpcText L E (buildRequestVoteRpc a) w = Some (rpc_vote E a w)" if "rv_ok a"
    using RequestVote_roundtrip [OF that] rv(1)
    by (simp only: handleRpcText_def buildRequestVoteRpc_def option.case)
  show "handleRpcText L E (buildAppendEntriesRpc b) w = Some (rpc_append L E b w)" if "ae_ok b"
    using AppendEntries_roundtrip_aux [OF that] rv(2) p(1)
    by (simp only: handleRpcText_def buildAppendEntriesRpc_def option.case)
  show "handleRpcText L E (buildInstallSnapshotRpc c) w = Some (rpc_snapshot L E c w)" if "sn_ok c"
    using InstallSnapshot_roundtrip_aux [OF that] rv(3) p(2,3)
    by (simp only: handleRpcText_def buildInstallSnapshotRpc_def option.case)
qed

lemma load_members:
  assumes "\<forall>l \<in> set ls. CHR 0x0A \<notin> set l" and "filter node_line ls = map show_peer ns"
    and "\<forall>n \<in> set ns. peer_ok n"
  shows "loadClusterConfig (Some (file_of ls)) = Some ns"
proof -
  have "parse_node_line (show_peer n) = Some n" if "peer_ok n" for n
    using that by (simp add: parse_node_line_def show_peer_def stream_simps peer_ok_def)
  with assms(3) have "parse_all (map show_peer ns) = Some ns"
    by (induction ns) auto
  with assms(1,2) show ?thesis
    by (simp add: loadClusterConfig_def load_nodes_lines istringstream_eq)
qed

lemma admin_dispatch:
  shows "int_ok i \<Longrightarrow> tokenp ip \<Longrightarrow> int_ok p \<Longrightarrow>
      handleRpcText L E (add_request \<lparr>pi_id = i, pi_ip = ip, pi_port = p\<rparr>) w =
      (case locked E isLeader w of
         (False, w1) \<Rightarrow> Some (''NOT_LEADER'', w1)
       | (True, w1) \<Rightarrow> Option.bind (addNode L E \<lparr>pi_id = i, pi_ip = ip, pi_port = p\<rparr> w1)
           (\<lambda>(ok, w2). Some (if ok then ''OK'' else ''FAIL'', w2)))"
    and "int_ok i \<Longrightarrow> handleRpcText L E (''CREMOVE '' @ show_int i) w =
      (case locked E isLeader w of
         (False, w1) \<Rightarrow> Some (''NOT_LEADER'', w1)
       | (True, w1) \<Rightarrow> Option.bind (removeNode L E i w1) (\<lambda>(ok, w2). Some (if ok then ''OK'' else ''FAIL'', w2)))"
proof -
  have t: "tokenp ''CADD''" "tokenp ''CREMOVE''"
    by (simp_all add: tokenp_def isspace_def)
  have r: "read_string old (stream_at (''CADD'' @ CHR '' '' # x)) = (''CADD'', stream_at (CHR '' '' # x))"
    "read_string old (stream_at (''CREMOVE'' @ CHR '' '' # x)) = (''CREMOVE'', stream_at (CHR '' '' # x))" for old x
    using read_first(3) [OF t(1), of "CHR '' '' # x" old] read_first(3) [OF t(2), of "CHR '' '' # x" old] by simp_all
  show "int_ok i \<Longrightarrow> tokenp ip \<Longrightarrow> int_ok p \<Longrightarrow>
      handleRpcText L E (add_request \<lparr>pi_id = i, pi_ip = ip, pi_port = p\<rparr>) w =
      (case locked E isLeader w of
         (False, w1) \<Rightarrow> Some (''NOT_LEADER'', w1)
       | (True, w1) \<Rightarrow> Option.bind (addNode L E \<lparr>pi_id = i, pi_ip = ip, pi_port = p\<rparr> w1)
           (\<lambda>(ok, w2). Some (if ok then ''OK'' else ''FAIL'', w2)))"
    using r(1) [of "[]" "show_int i @ CHR '' '' # ip @ CHR '' '' # show_int p"]
    by (simp add: handleRpcText_def client_command_def stream_simps add_request_def)
  show "int_ok i \<Longrightarrow> handleRpcText L E (''CREMOVE '' @ show_int i) w =
      (case locked E isLeader w of
         (False, w1) \<Rightarrow> Some (''NOT_LEADER'', w1)
       | (True, w1) \<Rightarrow> Option.bind (removeNode L E i w1) (\<lambda>(ok, w2). Some (if ok then ''OK'' else ''FAIL'', w2)))"
    using r(2) [of "[]" "show_int i"]
    by (simp add: handleRpcText_def client_command_def stream_simps)
qed

end
