(* ===== verification/Leader_Facts.thy ===== *)
theory Leader_Facts
  imports Raft_Server "HOL-Library.Sublist"
begin

text \<open>
  What the leader's operations guarantee: the commit index moves only to an entry of the current
  term that a quorum holds; an AppendEntries request is a slice of the leader's log, and a
  follower that accepts it holds that slice; the operations that release the mutex return, and
  stay inside their vectors, while the membership does not change under them; a read that
  succeeds was confirmed by a majority and served from the applied state.
\<close>

section \<open>The commit index\<close>

lemma canCommit_iff:
  assumes "node_ok s"
  shows "canCommit s N \<longleftrightarrow> lastIncludedIndex s < N \<and> N \<le> getLastLogIndex s \<and>
    getLogTermAt N s = currentTerm s \<and>
    isMajorityMatchedForEntry (logs s ! nat (N - lastIncludedIndex s - 1)) s"
  using node_okD(1) [OF assms] by (auto simp: canCommit_def logIndexToPos_def getLastLogIndex_eq Let_def)

lemma find_rev_upto:
  "List.find P (rev [a..b]) = Some N \<longleftrightarrow> a \<le> N \<and> N \<le> b \<and> P N \<and> (\<forall>M. N < M \<and> M \<le> b \<longrightarrow> \<not> P M)"
proof (induction "nat (b - a + 1)" arbitrary: b)
  case 0
  then show ?case by simp
next
  case (Suc n)
  then have "a \<le> b" by linarith
  then have r: "rev [a..b] = b # rev [a..b - 1]"
    by (simp add: upto_rec2)
  have IH: "List.find P (rev [a..b - 1]) = Some N \<longleftrightarrow>
      a \<le> N \<and> N \<le> b - 1 \<and> P N \<and> (\<forall>M. N < M \<and> M \<le> b - 1 \<longrightarrow> \<not> P M)"
    using Suc.hyps(2) by (intro Suc.hyps(1)) linarith
  show ?case
  proof (cases "P b")
    case True
    with r \<open>a \<le> b\<close> show ?thesis by auto (metis nle_le order_less_le)
  next
    case False
    with r IH \<open>a \<le> b\<close> show ?thesis
      by auto (metis (no_types, opaque_lifting) zle_diff1_eq order_le_less)+
  qed
qed

lemma updateCommitIndex_cases:
  obtains (same) "updateCommitIndex L s = s"
    "nstate s \<noteq> LEADER \<or> (\<forall>M. commitIndex s < M \<and> M \<le> getLastLogIndex s \<longrightarrow> \<not> canCommit s M)"
  | (moved) N where "nstate s = LEADER" "commitIndex s < N" "N \<le> getLastLogIndex s" "canCommit s N"
    "\<And>M. N < M \<Longrightarrow> M \<le> getLastLogIndex s \<Longrightarrow> \<not> canCommit s M"
    "updateCommitIndex L s = applyCommittedLogs L (s\<lparr>commitIndex := N\<rparr>)"
proof (cases "nstate s = LEADER")
  case False
  then show thesis by (intro same) (simp_all add: updateCommitIndex_def)
next
  case True
  show thesis
  proof (cases "List.find (canCommit s) (rev [commitIndex s + 1..getLastLogIndex s])")
    case None
    with True show thesis
      by (intro same) (simp add: updateCommitIndex_def, auto simp: find_None_iff)
  next
    case (Some N)
    with True have "updateCommitIndex L s = applyCommittedLogs L (s\<lparr>commitIndex := N\<rparr>)"
      by (simp add: updateCommitIndex_def)
    with Some True show thesis
      unfolding find_rev_upto by (intro moved [of N]) auto
  qed
qed

lemma commit_to_ok:
  assumes "node_ok s" and "commitIndex s \<le> N" and "N \<le> getLastLogIndex s"
  shows "node_ok (applyCommittedLogs L (s\<lparr>commitIndex := N\<rparr>))"
    and "getLastLogIndex (applyCommittedLogs L (s\<lparr>commitIndex := N\<rparr>)) = getLastLogIndex s"
    and "kvStore (applyCommittedLogs L (s\<lparr>commitIndex := N\<rparr>)) =
      fold (kv_apply L) (log_slice (lastApplied s) N s) (kvStore s)"
    and "lastApplied (applyCommittedLogs L (s\<lparr>commitIndex := N\<rparr>)) = N"
proof -
  let ?t = "s\<lparr>commitIndex := N\<rparr>"
  note ok = node_okD [OF assms(1)]
  have last: "getLastLogIndex ?t = getLastLogIndex s" "log_wf ?t"
    using ok(1) by (simp_all add: getLastLogIndex_def log_wf_def)
  have inv: "node_inv ?t"
    using ok assms(2) by (auto simp: node_inv_def log_wf_def idx_wf_def lead_wf_def timer_wf_def)
  show same: "getLastLogIndex (applyCommittedLogs L ?t) = getLastLogIndex s"
    using ok assms last by (subst applyCommittedLogs_log(1)) auto
  show "node_ok (applyCommittedLogs L ?t)"
    using applyCommittedLogs_inv [OF inv] assms(3) last same by (simp add: node_ok_def frame)
  show "kvStore (applyCommittedLogs L ?t) = fold (kv_apply L) (log_slice (lastApplied s) N s) (kvStore s)"
    "lastApplied (applyCommittedLogs L ?t) = N"
    using applyCommittedLogs_effect [of ?t L] ok assms last
    by (simp_all add: log_slice_def)
qed

lemma updateCommitIndex_ok_aux: "node_ok s \<Longrightarrow> node_ok (updateCommitIndex L s)"
  by (cases rule: updateCommitIndex_cases [of L s]) (auto intro: commit_to_ok)

lemma updateCommitIndex_durable: "durable s \<Longrightarrow> durable (updateCommitIndex L s)"
proof (cases rule: updateCommitIndex_cases [of L s])
  case (moved N)
  assume "durable s"
  then have "durable (s\<lparr>commitIndex := N\<rparr>)"
    by (rule durable_cong [THEN iffD1, rotated 2]) (simp_all add: persistent_of_def)
  with moved show ?thesis by (simp add: applyCommittedLogs_durable)
qed simp

text \<open>What the quorum is that the new commit index rests on.\<close>

lemma updateCommitIndex_quorum_aux:
  assumes "node_ok s" and "commitIndex (updateCommitIndex L s) \<noteq> commitIndex s"
  defines "N \<equiv> commitIndex (updateCommitIndex L s)"
  defines "e \<equiv> logs s ! nat (N - lastIncludedIndex s - 1)"
  shows "nstate s = LEADER" and "commitIndex s < N" and "N \<le> getLastLogIndex s"
    and "getLogTermAt N s = currentTerm s" and "le_index e = N" and "isMajorityMatchedForEntry e s"
proof -
  obtain M where M: "nstate s = LEADER" "commitIndex s < M" "M \<le> getLastLogIndex s" "canCommit s M"
    "updateCommitIndex L s = applyCommittedLogs L (s\<lparr>commitIndex := M\<rparr>)"
    using assms(2) by (cases rule: updateCommitIndex_cases [of L s]) auto
  then have N: "N = M" by (simp add: N_def frame)
  with M show "nstate s = LEADER" "commitIndex s < N" "N \<le> getLastLogIndex s" by simp_all
  from M(4) N assms(1) show "getLogTermAt N s = currentTerm s" "isMajorityMatchedForEntry e s"
    by (simp_all add: canCommit_iff e_def)
  note ok = node_okD [OF assms(1)]
  from M(2,3) N ok have "nat (N - lastIncludedIndex s - 1) < length (logs s)" "lastIncludedIndex s < N"
    by (auto simp: getLastLogIndex_eq)
  then show "le_index e = N"
    using log_nth_index [OF ok(1), of "nat (N - lastIncludedIndex s - 1)"] by (simp add: e_def)
qed

section \<open>What a leader sends\<close>

lemma leader_entries:
  assumes "log_wf s" and "lastIncludedIndex s < n"
  shows "map (\<lambda>i. logs s ! nat (logIndexToPos i s))
      (filter (\<lambda>i. 0 \<le> logIndexToPos i s \<and> logIndexToPos i s < int (length (logs s)))
        [n..getLastLogIndex s]) =
    log_slice (n - 1) (getLastLogIndex s) s"
proof -
  let ?p = "nat (n - lastIncludedIndex s - 1)"
  have all: "filter (\<lambda>i. 0 \<le> logIndexToPos i s \<and> logIndexToPos i s < int (length (logs s)))
      [n..getLastLogIndex s] = [n..getLastLogIndex s]"
    using assms by (intro filter_True) (auto simp: logIndexToPos_def getLastLogIndex_eq)
  have len: "length [n..getLastLogIndex s] = length (drop ?p (logs s))"
    using assms by (simp add: getLastLogIndex_eq)
  have "map (\<lambda>i. logs s ! nat (logIndexToPos i s)) [n..getLastLogIndex s] = drop ?p (logs s)"
  proof (rule nth_equalityI)
    fix j
    assume "j < length (map (\<lambda>i. logs s ! nat (logIndexToPos i s)) [n..getLastLogIndex s])"
    then have j: "n + int j \<le> getLastLogIndex s" "j < length (drop ?p (logs s))"
      using len by auto
    have "nat (n + int j - lastIncludedIndex s - 1) = ?p + j"
      using assms(2) by linarith
    with j show "map (\<lambda>i. logs s ! nat (logIndexToPos i s)) [n..getLastLogIndex s] ! j = drop ?p (logs s) ! j"
      by (simp add: logIndexToPos_def)
  qed (use len in simp)
  moreover have "log_slice (n - 1) (getLastLogIndex s) s = drop ?p (logs s)"
    using assms by (simp add: log_slice_def getLastLogIndex_eq algebra_simps)
  ultimately show ?thesis
    by (simp only: all)
qed

lemma rtp_prepare_eq:
  assumes "node_ok s" and "nstate s = LEADER" and "i < length (peers s)"
    and "lastIncludedIndex s < nextIndex s ! i"
  shows "rtp_prepare i s = Some (Some (peers s ! i, currentTerm s,
      \<lparr>ae_term = currentTerm s, ae_leaderId = nid s, ae_prevLogIndex = nextIndex s ! i - 1,
       ae_prevLogTerm = getLogTermAt (nextIndex s ! i - 1) s,
       ae_entries = log_slice (nextIndex s ! i - 1) (getLastLogIndex s) s,
       ae_leaderCommit = commitIndex s\<rparr>))"
  using assms node_okD(1,3) [OF assms(1)] leader_entries [of s "nextIndex s ! i"]
  by (simp add: rtp_prepare_def vec_get_def lead_wf_def)

text \<open>Between the check for a snapshot and the preparation of the message \<open>replicateToPeer\<close> gives the
  mutex away. When the log is compacted in between, so that \<open>nextIndex\<close> is at or below the new
  snapshot index, the message has a gap: its first entry does not follow \<open>prevLogIndex\<close>.\<close>

lemma message_after_compaction_has_gap:
  assumes "log_wf s" and "nstate s = LEADER" and "k < length (peers s)" and "k < length (nextIndex s)"
    and "nextIndex s ! k \<le> lastIncludedIndex s" and "logs s \<noteq> []"
    and "rtp_prepare k s = Some (Some (peer, T, args))"
  shows "\<not> ae_wf args \<and> le_index (hd (ae_entries args)) = lastIncludedIndex s + 1 \<and>
    ae_prevLogIndex args < lastIncludedIndex s"
proof -
  let ?P = "\<lambda>i. 0 \<le> logIndexToPos i s \<and> logIndexToPos i s < int (length (logs s))"
  let ?b = "lastIncludedIndex s"
  have last: "getLastLogIndex s = ?b + int (length (logs s))"
    using assms(1) by (rule getLastLogIndex_eq)
  have "[nextIndex s ! k..getLastLogIndex s] = [nextIndex s ! k..?b] @ [?b + 1..getLastLogIndex s]"
    using assms(5) last by (intro upto_split2) auto
  moreover have "[?b + 1..getLastLogIndex s] = (?b + 1) # [2 + ?b..getLastLogIndex s]"
    using last length_greater_0_conv [of "logs s"] assms(6) by (subst upto_rec1) (auto simp del: length_greater_0_conv)
  moreover have "filter ?P [nextIndex s ! k..?b] = []"
    by (auto simp: filter_empty_conv logIndexToPos_def)
  moreover have "?P (?b + 1)"
    using assms(6) by (simp add: logIndexToPos_def)
  ultimately have hd: "ae_entries args = logs s ! 0 # map (\<lambda>i. logs s ! nat (logIndexToPos i s)) (filter ?P [2 + ?b..getLastLogIndex s])"
    and prev: "ae_prevLogIndex args = nextIndex s ! k - 1"
    using assms(2-4,7) by (auto simp: rtp_prepare_def vec_get_def logIndexToPos_def)
  have "le_index (logs s ! 0) = ?b + 1"
    using log_nth_index [OF assms(1), of 0] assms(6) by simp
  with hd prev assms(5) show ?thesis by (auto simp: ae_wf_def)
qed

lemma log_slice_numbered:
  assumes "log_wf s" and "lastIncludedIndex s \<le> a" and "a \<le> getLastLogIndex s"
  shows "numbered_from le_index a (log_slice a b s)"
proof -
  have "numbered_from le_index (lastIncludedIndex s + int (nat (a - lastIncludedIndex s)))
      (drop (nat (a - lastIncludedIndex s)) (logs s))"
    using assms by (intro numbered_from_drop) (auto simp: log_wf_def getLastLogIndex_eq)
  then have "numbered_from le_index a (drop (nat (a - lastIncludedIndex s)) (logs s))"
    using assms(2) by simp
  then show ?thesis
    by (simp add: log_slice_def numbered_from_take)
qed

lemma log_slice_term:
  assumes "log_wf s" and "0 \<le> lastIncludedIndex s" and "lastIncludedIndex s \<le> a"
    and "j < length (log_slice a b s)"
  shows "le_term (log_slice a b s ! j) = getLogTermAt (a + 1 + int j) s"
proof -
  have "nat (a - lastIncludedIndex s) + j < length (logs s)"
    using assms(4) by (auto simp: log_slice_def less_diff_conv add.commute)
  moreover have "nat (a + 1 + int j - lastIncludedIndex s - 1) = nat (a - lastIncludedIndex s) + j"
    using assms(3) by linarith
  ultimately show ?thesis
    using assms by (subst getLogTermAt_in) (auto simp: log_slice_def)
qed

text \<open>
  A follower that has the previous entry, numbered and with the leader's term, and appends the
  slice, has the leader's term at every index from there to the end of the slice.
\<close>

lemma accepted_slice_aux:
  assumes "node_ok s" and "node_ok f"
    and "lastIncludedIndex s \<le> ae_prevLogIndex args" and "ae_prevLogIndex args \<le> getLastLogIndex s"
    and "ae_entries args = log_slice (ae_prevLogIndex args) (getLastLogIndex s) s"
    and "ae_prevLogTerm args = getLogTermAt (ae_prevLogIndex args) s"
    and "ae_match args f"
    and "ae_prevLogIndex args \<le> i" and "i \<le> ae_prevLogIndex args + int (length (ae_entries args))"
  shows "getLogTermAt i (ae_append args f) = getLogTermAt i s" and "i \<le> getLastLogIndex (ae_append args f)"
proof -
  note ok = node_okD [OF assms(1)] and fok = node_okD [OF assms(2)]
  have wf: "ae_wf args"
    using ok assms(3-5) by (simp add: ae_wf_def log_slice_numbered)
  let ?p = "ae_prevLogIndex args"
  let ?q = "nat (?p - lastIncludedIndex f)"
  have p: "lastIncludedIndex f \<le> ?p" "?p \<le> getLastLogIndex f" "getLogTermAt ?p f = getLogTermAt ?p s"
    using assms(6,7) fok(1) by (auto simp: ae_match_def hasLogAt_iff)
  have logs: "logs (ae_append args f) = append_ref ?q (ae_entries args) (logs f)"
    using fok(1) assms(7) wf by (rule ae_append_logs)
  have awf: "log_wf (ae_append args f)"
    using fok(1) assms(7) wf by (rule ae_append_log_wf)
  have q: "?q \<le> length (logs f)"
    using p fok(1) by (simp add: getLastLogIndex_eq)
  have keep: "take ?q (logs (ae_append args f)) = take ?q (logs f)"
    unfolding logs by (rule append_ref_prefix [OF q])
  have qlen: "?q \<le> length (logs (ae_append args f))"
    using arg_cong [OF keep, of length] q by simp
  show "getLogTermAt i (ae_append args f) = getLogTermAt i s"
  proof (cases "i = ?p")
    case False
    then obtain j where j: "i = ?p + 1 + int j" "j < length (ae_entries args)"
      using assms(8,9) by (intro that [of "nat (i - ?p - 1)"]) auto
    have "getLogTermAt i (ae_append args f) = le_term (ae_entries args ! j)"
      using ae_append_terms(2) [OF assms(2,7) wf j(2)] j(1) by simp
    also have "\<dots> = getLogTermAt i s"
      using log_slice_term [OF ok(1,6) assms(3), of j "getLastLogIndex s"] j assms(5) by simp
    finally show ?thesis .
  next
    case True
    have "getLogTermAt ?p (ae_append args f) = getLogTermAt ?p f"
    proof (cases "?p = 0 \<or> ?p = lastIncludedIndex f")
      case True
      then show ?thesis by (auto simp: getLogTermAt_def frame)
    next
      case False
      then have "?q - 1 < ?q" "nat (?p - lastIncludedIndex f - 1) = ?q - 1"
        using p by auto
      moreover from this have "logs (ae_append args f) ! (?q - 1) = logs f ! (?q - 1)"
        using keep by (metis nth_take)
      ultimately show ?thesis
        using False p q qlen by (simp add: getLogTermAt_in frame)
    qed
    with True p show ?thesis by simp
  qed
  show "i \<le> getLastLogIndex (ae_append args f)"
  proof (cases "ae_entries args")
    case Nil
    with assms(9) qlen p awf show ?thesis by (simp add: getLastLogIndex_eq frame)
  next
    case (Cons e es)
    with ae_append_terms(1) [OF assms(2,7) wf, of "length es"] assms(9) show ?thesis by simp
  qed
qed

section \<open>The operations return\<close>

text \<open>
  The environment is calm when what the other threads do between two locked parts keeps the
  leader's vectors as long as its peers, and does not change how many peers there are. A
  membership change under a running replication is what breaks this.
\<close>

definition steady :: "('db, 'w) world \<Rightarrow> ('db, 'w) world \<Rightarrow> bool" where
  "steady w w' \<longleftrightarrow> lead_wf (fst w') \<and> length (peers (fst w')) = length (peers (fst w))"

definition calm :: "('db, 'w) env \<Rightarrow> bool" where
  "calm E \<longleftrightarrow> (\<forall>w. lead_wf (fst w) \<longrightarrow> steady w (acquire E w))"

text \<open>The result of an operation that returns with its vectors in order.\<close>

definition safe :: "('a \<times> ('db, 'w) world) option \<Rightarrow> bool" where
  "safe r \<longleftrightarrow> (\<exists>a w'. r = Some (a, w') \<and> lead_wf (fst w'))"

lemma safe_Some [simp]: "safe (Some (a, w)) \<longleftrightarrow> lead_wf (fst w)"
  by (simp add: safe_def split: prod.splits)

text \<open>The same, and as many peers as before.\<close>

definition steady_result :: "('db, 'w) world \<Rightarrow> ('a \<times> ('db, 'w) world) option \<Rightarrow> bool" where
  "steady_result w r \<longleftrightarrow> (\<exists>a w'. r = Some (a, w') \<and> steady w w')"

lemma steady_resultI [intro]: "steady w w' \<Longrightarrow> steady_result w (Some (a, w'))"
  by (auto simp: steady_result_def)

lemma safeI [intro]: "lead_wf (fst w') \<Longrightarrow> safe (Some (a, w'))"
  by simp

lemma safe_bind:
  "safe r \<Longrightarrow> (\<And>a w'. r = Some (a, w') \<Longrightarrow> lead_wf (fst w') \<Longrightarrow> safe (f (a, w'))) \<Longrightarrow>
     safe (Option.bind r f)"
  by (auto simp: safe_def)

lemma steady_refl: "lead_wf (fst w) \<Longrightarrow> steady w w"
  by (simp add: steady_def)

lemma steady_trans: "steady w1 w2 \<Longrightarrow> steady w2 w3 \<Longrightarrow> steady w1 w3"
  by (simp add: steady_def)

lemma locked_steady:
  assumes "calm E" and "lead_wf (fst w)" and "locked E f w = (r, w')"
    and "\<And>s. lead_wf s \<Longrightarrow> lead_wf (snd (f s)) \<and> length (peers (snd (f s))) = length (peers s)"
  shows "steady w w'"
proof -
  obtain s x where a: "acquire E w = (s, x)" by (cases "acquire E w")
  from assms(1,2) a have "steady w (s, x)"
    by (metis calm_def)
  with assms(3) assms(4) [of s] a show ?thesis
    by (auto simp: locked_def steady_def split: prod.splits)
qed

lemma locked_lead_wf:
  assumes "calm E" and "lead_wf (fst w)" and "locked E f w = (r, w')"
    and "\<And>s. lead_wf s \<Longrightarrow> lead_wf (snd (f s))"
  shows "lead_wf (fst w')"
proof -
  obtain s x where a: "acquire E w = (s, x)" by (cases "acquire E w")
  from assms(1,2) a have "lead_wf s"
    by (metis calm_def steady_def fst_conv)
  with assms(3) assms(4) [of s] a show ?thesis
    by (auto simp: locked_def split: prod.splits)
qed

lemma locked_result: "locked E f w = (r, w') \<Longrightarrow> \<exists>s. s = fst (acquire E w) \<and> f s = (r, fst w')"
  by (auto simp: locked_def split: prod.splits)

lemma send_to_node: "send_to E p req w = (resp, w') \<Longrightarrow> fst w' = fst w"
  by (auto simp: send_to_def split: prod.splits)

lemma becomeFollower_lead_wf: "lead_wf (becomeFollower t s)"
  by (simp add: effect)

lemma locked_ub_steady:
  assumes "calm E" and "lead_wf (fst w)" and "steady w0 w"
    and "\<And>s. lead_wf s \<Longrightarrow> length (peers s) = length (peers (fst w)) \<Longrightarrow>
      \<exists>a s'. f s = Some (a, s') \<and> lead_wf s' \<and> length (peers s') = length (peers s)"
  shows "steady_result w0 (locked_ub E f w)"
proof -
  obtain s x where a: "acquire E w = (s, x)" by (cases "acquire E w")
  from assms(1,2) a have st: "steady w (s, x)"
    by (metis calm_def)
  with assms(4) [of s] obtain r s' where
    "f s = Some (r, s')" "lead_wf s'" "length (peers s') = length (peers s)"
    by (auto simp: steady_def)
  with a st assms(3) show ?thesis
    by (auto simp: locked_ub_def steady_def steady_result_def)
qed

lemma sstp_finish_steady:
  assumes "lead_wf s" and "i < length (peers s)"
  shows "\<exists>a s'. sstp_finish i T reply s = Some (a, s') \<and> lead_wf s' \<and>
    length (peers s') = length (peers s)"
  using assms
  by (auto simp: sstp_finish_def vec_get_def vec_set_def lead_wf_def effect frame Let_def)

lemma rtp_finish_steady:
  assumes "lead_wf s" and "i < length (peers s)"
  shows "\<exists>a s'. rtp_finish i T args reply s = Some (a, s') \<and> lead_wf s' \<and>
    length (peers s') = length (peers s)"
  using assms
  by (auto simp: rtp_finish_def vec_get_def vec_set_def lead_wf_def effect frame Let_def)

lemma sendSnapshotToPeer_steady:
  assumes "calm E" and "lead_wf (fst w)" and "i < length (peers (fst w))"
  shows "steady_result w (sendSnapshotToPeer L E i w)"
proof -
  obtain p w1 where p: "locked E (\<lambda>s. (sstp_prepare L i s, s)) w = (p, w1)"
    by (cases "locked E (\<lambda>s. (sstp_prepare L i s, s)) w")
  have s1: "steady w w1"
    using locked_steady [OF assms(1,2) p] by simp
  show ?thesis
  proof (cases p)
    case None
    with p s1 show ?thesis by (auto simp: sendSnapshotToPeer_def)
  next
    case (Some pta)
    obtain peer T args where pta: "pta = (peer, T, args)" by (cases pta)
    obtain resp w2 where r: "send_to E peer (buildInstallSnapshotRpc args) w1 = (resp, w2)"
      by (cases "send_to E peer (buildInstallSnapshotRpc args) w1")
    have s2: "steady w w2"
      using s1 send_to_node [OF r] by (simp add: steady_def)
    then have "lead_wf (fst w2)" "i < length (peers (fst w2))"
      using assms(3) by (simp_all add: steady_def)
    note fin = locked_ub_steady [OF assms(1) this(1) s2 sstp_finish_steady]
    show ?thesis
      using p Some pta r s2 fin \<open>i < length (peers (fst w2))\<close>
      by (auto simp: sendSnapshotToPeer_def split: option.splits)
  qed
qed

lemma rtp_check_total: "lead_wf s \<Longrightarrow> i < length (peers s) \<Longrightarrow> rtp_check i s \<noteq> None"
  by (auto simp: rtp_check_def vec_get_def lead_wf_def)

lemma rtp_prepare_total: "lead_wf s \<Longrightarrow> i < length (peers s) \<Longrightarrow> rtp_prepare i s \<noteq> None"
  by (auto simp: rtp_prepare_def vec_get_def lead_wf_def)

lemma replicateToPeer_steady:
  assumes "calm E" and "lead_wf (fst w)" and "i < length (peers (fst w))"
  shows "steady_result w (replicateToPeer L E i w)"
proof -
  obtain c w1 where c: "locked E (\<lambda>s. (rtp_check i s, s)) w = (c, w1)"
    by (cases "locked E (\<lambda>s. (rtp_check i s, s)) w")
  have s1: "steady w w1"
    using locked_steady [OF assms(1,2) c] by simp
  then have w1: "lead_wf (fst w1)" "i < length (peers (fst w1))"
    using assms(3) by (simp_all add: steady_def)
  have "c \<noteq> None"
    using locked_result [OF c] w1 rtp_check_total [of "fst w1" i] by auto
  then obtain d where "c = Some d" by blast
  then consider "c = Some None" | "c = Some (Some True)" | "c = Some (Some False)"
    by (cases d) auto
  then show ?thesis
  proof cases
    case 1
    with c s1 show ?thesis by (auto simp: replicateToPeer_def)
  next
    case 2
    with c s1 sendSnapshotToPeer_steady [OF assms(1) w1, of L] show ?thesis
      by (auto simp: replicateToPeer_def steady_result_def intro: steady_trans)
  next
    case 3
    obtain p w2 where p: "locked E (\<lambda>s. (rtp_prepare i s, s)) w1 = (p, w2)"
      by (cases "locked E (\<lambda>s. (rtp_prepare i s, s)) w1")
    have s2: "steady w w2"
      using steady_trans [OF s1 locked_steady [OF assms(1) w1(1) p]] by simp
    then have w2: "lead_wf (fst w2)" "i < length (peers (fst w2))"
      using assms(3) by (simp_all add: steady_def)
    have "p \<noteq> None"
      using locked_result [OF p] w2 rtp_prepare_total [of "fst w2" i] by auto
    then obtain d where "p = Some d" by blast
    then consider "p = Some None" | peer T args where "p = Some (Some (peer, T, args))"
      by (cases d) auto
    then show ?thesis
    proof cases
      case 1
      with 3 c p s2 show ?thesis by (auto simp: replicateToPeer_def)
    next
      case (2 peer T args)
      obtain resp w3 where r: "send_to E peer (buildAppendEntriesRpc args) w2 = (resp, w3)"
        by (cases "send_to E peer (buildAppendEntriesRpc args) w2")
      have s3: "steady w w3"
        using s2 send_to_node [OF r] by (simp add: steady_def)
      then have w3: "lead_wf (fst w3)" "i < length (peers (fst w3))"
        using assms(3) by (simp_all add: steady_def)
      note fin = locked_ub_steady [OF assms(1) w3(1) s3 rtp_finish_steady]
      show ?thesis
        using 2 3 c p r s3 fin w3(2)
        by (auto simp: replicateToPeer_def split: option.splits)
    qed
  qed
qed

lemma replicateFrom_steady:
  assumes "calm E" and "lead_wf (fst w)"
  shows "\<exists>w'. replicateFrom L E i w = Some w' \<and> steady w w'"
  using assms(2)
proof (induction "length (peers (fst w)) - i" arbitrary: i w)
  case 0
  then show ?case
    by (subst replicateFrom.simps) (simp add: steady_refl)
next
  case (Suc n)
  then have i: "i < length (peers (fst w))" by linarith
  from replicateToPeer_steady [OF assms(1) Suc.prems i, of L] obtain b w1 where
    r: "replicateToPeer L E i w = Some (b, w1)" "steady w w1" by (auto simp: steady_result_def)
  then have "n = length (peers (fst w1)) - Suc i" "lead_wf (fst w1)"
    using Suc.hyps(2) by (simp_all add: steady_def)
  from Suc.hyps(1) [OF this] obtain w2 where "replicateFrom L E (Suc i) w1 = Some w2" "steady w1 w2"
    by blast
  with r i show ?case
    by (subst replicateFrom.simps) (auto intro: steady_trans)
qed

lemma applyCommittedLogs_lead_wf: "lead_wf s \<Longrightarrow> lead_wf (applyCommittedLogs L s)"
  using maybeCreateSnapshot_cases [of "applyLoop L s"]
  by (auto simp: applyCommittedLogs_def applyLoop_lead_wf createSnapshot_lead_wf)

lemma updateCommitIndex_lead_wf: "lead_wf s \<Longrightarrow> lead_wf (updateCommitIndex L s)"
proof (cases rule: updateCommitIndex_cases [of L s])
  case (moved N)
  assume "lead_wf s"
  then have "lead_wf (s\<lparr>commitIndex := N\<rparr>)" by (simp add: lead_wf_def)
  with moved show ?thesis by (simp add: applyCommittedLogs_lead_wf)
qed simp

lemma replicateAndCommit_returns:
  assumes "calm E" and "lead_wf (fst w)"
  shows "\<exists>w'. replicateAndCommit L E w = Some w' \<and> lead_wf (fst w')"
proof -
  from replicateFrom_steady [OF assms, of L 0] obtain w1 where
    r: "replicateFrom L E 0 w = Some w1" "lead_wf (fst w1)"
    by (auto simp: steady_def)
  obtain a w2 where u: "locked E (\<lambda>s. ((), updateCommitIndex L s)) w1 = (a, w2)"
    by (cases "locked E (\<lambda>s. ((), updateCommitIndex L s)) w1")
  from locked_lead_wf [OF assms(1) r(2) u] have "lead_wf (fst w2)"
    by (simp add: updateCommitIndex_lead_wf)
  with r u show ?thesis
    by (simp add: replicateAndCommit_def)
qed

section \<open>Every request is answered\<close>

lemma appendLocal_lead_wf: "lead_wf s \<Longrightarrow> lead_wf (appendLocal e s)"
  by (simp add: appendLocal_def lead_wf_def frame)

lemma replicate_after:
  assumes "calm E" and "lead_wf (fst w)"
    and "\<And>w'. lead_wf (fst w') \<Longrightarrow> safe (f w')"
  shows "safe (Option.bind (replicateAndCommit L E w) f)"
  using replicateAndCommit_returns [OF assms(1,2), of L] assms(3) by auto

lemma locked_safe:
  assumes "calm E" and "lead_wf (fst w)" and "\<And>s. lead_wf s \<Longrightarrow> lead_wf (snd (f s))"
  shows "safe (Some (locked E f w))"
  using locked_lead_wf [OF assms(1,2) _ assms(3)]
  by (cases "locked E f w") auto

lemma leaderPut_safe: "calm E \<Longrightarrow> lead_wf (fst w) \<Longrightarrow> safe (leaderPut L E key val w)"
  unfolding leaderPut_def
  by (auto split: prod.split bool.split intro!: replicate_after locked_safe
      dest!: locked_lead_wf [rotated 2] simp: leaderPut_append_def appendLocal_lead_wf)

lemma leaderDelete_safe: "calm E \<Longrightarrow> lead_wf (fst w) \<Longrightarrow> safe (leaderDelete L E key w)"
  unfolding leaderDelete_def
  by (auto split: prod.split option.split intro!: replicate_after locked_safe
      dest!: locked_lead_wf [rotated 2] simp: leaderDelete_append_def appendLocal_lead_wf)

lemma handleClientPut_safe: "calm E \<Longrightarrow> lead_wf (fst w) \<Longrightarrow> safe (handleClientPut L E key val w)"
  unfolding handleClientPut_def
  by (auto split: prod.split bool.split intro!: safe_bind leaderPut_safe
      dest!: locked_lead_wf [rotated 2] simp: isLeader_def)

lemma handleClientDelete_safe: "calm E \<Longrightarrow> lead_wf (fst w) \<Longrightarrow> safe (handleClientDelete L E key w)"
  unfolding handleClientDelete_def
  by (auto split: prod.split bool.split intro!: safe_bind leaderDelete_safe
      dest!: locked_lead_wf [rotated 2] simp: isLeader_def)

lemma ensureCurrentTermCommitted_safe:
  "calm E \<Longrightarrow> lead_wf (fst w) \<Longrightarrow> safe (ensureCurrentTermCommitted L E w)"
  unfolding ensureCurrentTermCommitted_def
  by (auto split: prod.split option.split intro!: replicate_after locked_safe
      dest!: locked_lead_wf [rotated 2] simp: etc_append_def appendLocal_lead_wf)

lemma srih_loop_lead_wf:
  assumes "calm E" and "lead_wf (fst w)"
  shows "lead_wf (fst (snd (srih_loop E T m ps n w)))"
  using assms(2)
proof (induction ps arbitrary: n w)
  case Nil
  then show ?case by simp
next
  case (Cons p ps)
  obtain a w1 where a: "locked E (\<lambda>s. (srih_prepare T s, s)) w = (a, w1)"
    by (cases "locked E (\<lambda>s. (srih_prepare T s, s)) w")
  have w1: "lead_wf (fst w1)"
    using locked_lead_wf [OF assms(1) Cons.prems a] by simp
  show ?case
  proof (cases a)
    case None
    with a w1 show ?thesis by simp
  next
    case (Some args)
    obtain resp w2 where r: "send_to E p (buildAppendEntriesRpc args) w1 = (resp, w2)"
      by (cases "send_to E p (buildAppendEntriesRpc args) w1")
    with w1 send_to_node [OF r] have w2: "lead_wf (fst w2)" by simp
    show ?thesis
    proof (cases "Option.bind resp parseAppendEntriesReply")
      case None
      with a Some r Cons.IH [OF w2] show ?thesis by (auto split: option.splits)
    next
      case reply: (Some reply)
      obtain b w3 where b: "locked E (srih_finish T reply) w2 = (b, w3)"
        by (cases "locked E (srih_finish T reply) w2")
      have w3: "lead_wf (fst w3)"
        using locked_lead_wf [OF assms(1) w2 b] by (auto simp: srih_finish_def effect)
      with a Some r reply b Cons.IH [OF w3] show ?thesis
        by (cases b) (auto split: option.splits simp: Let_def bind_eq_Some_conv)
    qed
  qed
qed

lemma wat_loop_lead_wf:
  assumes "calm E" and "lead_wf (fst w)"
  shows "lead_wf (fst (snd (wat_loop E i T ms w)))"
  using assms(2)
proof (induction "nat (1000 - ms)" arbitrary: ms w rule: less_induct)
  case less
  obtain a w1 where a: "locked E (\<lambda>s. (wat_check i T s, s)) w = (a, w1)"
    by (cases "locked E (\<lambda>s. (wat_check i T s, s)) w")
  have w1: "lead_wf (fst w1)"
    using locked_lead_wf [OF assms(1) less.prems a] by simp
  show ?case
    using a w1 less by (subst wat_loop.simps) (auto split: option.split)
qed

lemma linearizableGet_safe:
  fixes E :: "('db, 'w) env" and w :: "('db, 'w) world"
  assumes "calm E" and "lead_wf (fst w)"
  shows "safe (linearizableGet L E key w)"
proof -
  have tail: "safe (case locked E (\<lambda>s. (if nstate s \<noteq> LEADER \<or> currentTerm s \<noteq> T then None
          else Some (commitIndex s), s)) w2 of
        (None, w3) \<Rightarrow> Some ((NOT_LEADER, []), w3)
      | (Some readIndex, w3) \<Rightarrow>
          (case sendReadIndexHeartbeats E T w3 of
             (False, w4) \<Rightarrow> Some ((READ_FAIL, []), w4)
           | (True, w4) \<Rightarrow>
               (case waitAppliedTo E readIndex T w4 of
                  (False, w5) \<Rightarrow> Some ((READ_FAIL, []), w5)
                | (True, w5) \<Rightarrow> Some (locked E (lget_final L key T) w5))))"
    if w2: "lead_wf (fst w2)" for T and w2 :: "('db, 'w) world"
  proof -
    obtain a w3 where a: "locked E (\<lambda>s. (if nstate s \<noteq> LEADER \<or> currentTerm s \<noteq> T then None
          else Some (commitIndex s), s)) w2 = (a, w3)"
      by (cases "locked E (\<lambda>s. (if nstate s \<noteq> LEADER \<or> currentTerm s \<noteq> T then None
          else Some (commitIndex s), s)) w2")
    have w3: "lead_wf (fst w3)"
      using locked_lead_wf [OF assms(1) w2 a] by simp
    obtain b w4 where b: "sendReadIndexHeartbeats E T w3 = (b, w4)"
      by (cases "sendReadIndexHeartbeats E T w3")
    have w4: "lead_wf (fst w4)"
      using srih_loop_lead_wf [OF assms(1) w3] b unfolding sendReadIndexHeartbeats_def by (metis snd_conv)
    have w5: "lead_wf (fst (snd (waitAppliedTo E r T w4)))" for r
      unfolding waitAppliedTo_def by (rule wat_loop_lead_wf [OF assms(1) w4])
    have fin: "safe (Some (locked E (lget_final L key T) w5))" if "lead_wf (fst w5)" for w5
      using that by (rule locked_safe [OF assms(1)]) (simp add: lget_final_def)
    show ?thesis
    proof (cases a)
      case None
      with a w3 show ?thesis by auto
    next
      case (Some r)
      obtain c w6 where c: "waitAppliedTo E r T w4 = (c, w6)" by (cases "waitAppliedTo E r T w4")
      with w5 [of r] have "lead_wf (fst w6)" by simp
      with a Some b c w4 fin show ?thesis by (auto split: bool.split)
    qed
  qed
  obtain a w1 where a: "locked E (\<lambda>s. (if nstate s \<noteq> LEADER then None else Some (currentTerm s), s)) w = (a, w1)"
    by (cases "locked E (\<lambda>s. (if nstate s \<noteq> LEADER then None else Some (currentTerm s), s)) w")
  have w1: "lead_wf (fst w1)"
    using locked_lead_wf [OF assms a] by simp
  show ?thesis
  proof (cases a)
    case None
    with a w1 show ?thesis by (auto simp: linearizableGet_def)
  next
    case (Some T)
    have "safe (Option.bind (ensureCurrentTermCommitted L E w1) (\<lambda>(ok, w2).
        if \<not> ok then Some ((READ_FAIL, []), w2)
        else case locked E (\<lambda>s. (if nstate s \<noteq> LEADER \<or> currentTerm s \<noteq> T then None
          else Some (commitIndex s), s)) w2 of
        (None, w3) \<Rightarrow> Some ((NOT_LEADER, []), w3)
      | (Some readIndex, w3) \<Rightarrow>
          (case sendReadIndexHeartbeats E T w3 of
             (False, w4) \<Rightarrow> Some ((READ_FAIL, []), w4)
           | (True, w4) \<Rightarrow>
               (case waitAppliedTo E readIndex T w4 of
                  (False, w5) \<Rightarrow> Some ((READ_FAIL, []), w5)
                | (True, w5) \<Rightarrow> Some (locked E (lget_final L key T) w5)))))"
    proof (rule safe_bind [OF ensureCurrentTermCommitted_safe [OF assms(1) w1]])
      fix ok and w2 :: "('db, 'w) world"
      assume "lead_wf (fst w2)"
      with tail [of w2 T] show "safe (case (ok, w2) of (ok, w2) \<Rightarrow>
        if \<not> ok then Some ((READ_FAIL, []), w2)
        else case locked E (\<lambda>s. (if nstate s \<noteq> LEADER \<or> currentTerm s \<noteq> T then None
          else Some (commitIndex s), s)) w2 of
        (None, w3) \<Rightarrow> Some ((NOT_LEADER, []), w3)
      | (Some readIndex, w3) \<Rightarrow>
          (case sendReadIndexHeartbeats E T w3 of
             (False, w4) \<Rightarrow> Some ((READ_FAIL, []), w4)
           | (True, w4) \<Rightarrow>
               (case waitAppliedTo E readIndex T w4 of
                  (False, w5) \<Rightarrow> Some ((READ_FAIL, []), w5)
                | (True, w5) \<Rightarrow> Some (locked E (lget_final L key T) w5))))"
        by (cases ok) (simp_all add: safeI)
    qed
    with a Some show ?thesis by (simp add: linearizableGet_def)
  qed
qed

lemma handleClientGet_safe: "calm E \<Longrightarrow> lead_wf (fst w) \<Longrightarrow> safe (handleClientGet L E key w)"
  unfolding handleClientGet_def
  by (auto split: prod.split intro!: safe_bind [OF linearizableGet_safe])

lemma wcs_loop_safe:
  assumes "calm E" and "lead_wf (fst w)"
  shows "safe (wcs_loop L E target ms n w)"
  using assms(2)
proof (induction "nat (ms - n)" arbitrary: n w rule: less_induct)
  case less
  obtain a w1 where a: "locked E (\<lambda>s. (wcs_check target s, s)) w = (a, w1)"
    by (cases "locked E (\<lambda>s. (wcs_check target s, s)) w")
  have w1: "lead_wf (fst w1)"
    using locked_lead_wf [OF assms(1) less.prems a] by simp
  obtain w2 where r: "replicateAndCommit L E w1 = Some w2" "lead_wf (fst w2)"
    using replicateAndCommit_returns [OF assms(1) w1, of L] by auto
  show ?case
    using a w1 r less by (subst wcs_loop.simps) (auto split: option.split)
qed

lemma appendConfig_safe:
  assumes "calm E" and "lead_wf (fst w)"
  shows "safe (appendConfigJoint L E oc nc w)" and "safe (appendConfigNew L E nc w)"
  using assms unfolding appendConfigJoint_def appendConfigNew_def
  by (auto split: prod.split bool.split intro!: replicate_after
      dest!: locked_lead_wf [rotated 2] simp: acj_append_def acn_append_def appendLocal_lead_wf)

lemma changeConfig_safe: "calm E \<Longrightarrow> lead_wf (fst w) \<Longrightarrow> safe (changeConfig L E oc nc w)"
  unfolding changeConfig_def waitConfigState_def
  by (auto intro!: safe_bind appendConfig_safe wcs_loop_safe)

lemma addNode_safe: "calm E \<Longrightarrow> lead_wf (fst w) \<Longrightarrow> safe (addNode L E n w)"
  unfolding addNode_def
  by (auto split: prod.split option.split intro!: changeConfig_safe dest!: locked_lead_wf [rotated 2])

lemma removeNode_safe: "calm E \<Longrightarrow> lead_wf (fst w) \<Longrightarrow> safe (removeNode L E i w)"
  unfolding removeNode_def
  by (auto split: prod.split option.split intro!: safe_bind changeConfig_safe
      dest!: locked_lead_wf [rotated 2] simp: raft_stop_def lead_wf_def)

lemma handleAppendEntries_lead_wf:
  assumes "lead_wf s"
  shows "lead_wf (snd (handleAppendEntries L args s))"
proof (cases rule: handleAppendEntries_cases [of args s])
  case matched
  have "lead_wf (ae_append args s\<lparr>commitIndex := i\<rparr>)" for i
    by (simp add: frame)
  then have "lead_wf (ae_commit L args (ae_append args s))"
    by (simp add: ae_commit_def applyCommittedLogs_lead_wf frame)
  with matched show ?thesis by (simp add: handleAppendEntries_matched)
qed (simp_all add: assms handleAppendEntries_simps effect)

lemma handleInstallSnapshot_lead_wf:
  "lead_wf s \<Longrightarrow> lead_wf (snd (handleInstallSnapshot L args s))"
  by (cases "currentTerm s \<le> sn_term args"; cases "lastIncludedIndex s < sn_lastIncludedIndex args")
    (simp_all add: handleInstallSnapshot_simps sn_install_def frame effect)

lemma locked_node_lead_wf:
  "calm E \<Longrightarrow> lead_wf (fst w) \<Longrightarrow> (\<And>s. lead_wf s \<Longrightarrow> lead_wf (snd (f s))) \<Longrightarrow>
     lead_wf (fst (snd (locked E f w)))"
  using locked_lead_wf by (metis prod.collapse)

lemma rpc_lead_wf:
  assumes "calm E" and "lead_wf (fst w)"
  shows "lead_wf (fst (snd (rpc_vote E rv w)))" and "lead_wf (fst (snd (rpc_append L E ae w)))"
    and "lead_wf (fst (snd (rpc_snapshot L E sn w)))"
  using locked_node_lead_wf [OF assms, of "handleRequestVote rv"]
    locked_node_lead_wf [OF assms, of "handleAppendEntries L ae"]
    locked_node_lead_wf [OF assms, of "handleInstallSnapshot L sn"]
  by (simp_all add: handleRequestVote_lead_wf handleAppendEntries_lead_wf handleInstallSnapshot_lead_wf rpc_vote_def rpc_append_def rpc_snapshot_def split_beta Let_def)

lemma isLeader_locked:
  "calm E \<Longrightarrow> lead_wf (fst w) \<Longrightarrow> locked E isLeader w = (b, w') \<Longrightarrow> lead_wf (fst w')"
  using locked_lead_wf [of E w isLeader b w'] by (simp add: isLeader_def)

lemma client_command_safe:
  assumes "calm E" and "lead_wf (fst w)" and "client_command L E req w = Some r"
  shows "safe r"
  using assms(3) isLeader_locked [OF assms(1,2)] assms
  unfolding client_command_def
  by (auto simp: Let_def split: prod.splits if_splits bool.splits
      intro!: handleClientPut_safe handleClientGet_safe handleClientDelete_safe
        safe_bind addNode_safe removeNode_safe)

lemma handleRpcText_safe:
  assumes "calm E" and "lead_wf (fst w)"
  shows "safe (handleRpcText L E req w)"
  using client_command_safe [OF assms, of L req] rpc_lead_wf [OF assms] assms(2)
  unfolding handleRpcText_def
  by (auto split: option.split simp: safe_def) (metis prod.collapse)+

section \<open>What a read rests on\<close>

text \<open>
  The peer answered, after the read began, a heartbeat sent in term \<open>T\<close>, and did not know of a
  later term.
\<close>

definition acked :: "('db, 'w) env \<Rightarrow> int \<Rightarrow> PeerInfo \<Rightarrow> bool" where
  "acked E T p \<longleftrightarrow> (\<exists>args w resp w' reply.
     ae_term args = T \<and> ae_entries args = [] \<and>
     send_to E p (buildAppendEntriesRpc args) w = (Some resp, w') \<and>
     parseAppendEntriesReply resp = Some reply \<and> aer_success reply \<and> aer_term reply \<le> T)"

lemma srih_loop_acks:
  "srih_loop E T m ps n w = (True, w') \<Longrightarrow>
     \<exists>acks. subseq acks ps \<and> (\<forall>p \<in> set acks. acked E T p) \<and> n + int (length acks) > m div 2"
proof (induction ps arbitrary: n w)
  case Nil
  then show ?case by (intro exI [of _ "[]"]) simp
next
  case (Cons p ps)
  have skip: "\<exists>acks. subseq acks (p # ps) \<and> (\<forall>p \<in> set acks. acked E T p) \<and> n' + int (length acks) > m div 2"
    if "srih_loop E T m ps n' w2 = (True, w')" for n' w2
    using Cons.IH [OF that] by blast
  obtain a w1 where a: "locked E (\<lambda>s. (srih_prepare T s, s)) w = (a, w1)"
    by (cases "locked E (\<lambda>s. (srih_prepare T s, s)) w")
  with Cons.prems obtain args where args: "a = Some args"
    by (cases a) auto
  then have T: "ae_term args = T" "ae_entries args = []"
    using locked_result [OF a] by (auto simp: srih_prepare_def split: if_splits)
  obtain resp w2 where r: "send_to E p (buildAppendEntriesRpc args) w1 = (resp, w2)"
    by (cases "send_to E p (buildAppendEntriesRpc args) w1")
  show ?case
  proof (cases "Option.bind resp parseAppendEntriesReply")
    case None
    with a args r Cons.prems skip [of n w2] show ?thesis by (auto split: option.splits)
  next
    case reply: (Some reply)
    then obtain body where body: "resp = Some body" "parseAppendEntriesReply body = Some reply"
      by (auto simp: bind_eq_Some_conv)
    obtain b w3 where b: "locked E (srih_finish T reply) w2 = (b, w3)"
      by (cases "locked E (srih_finish T reply) w2")
    with Cons.prems a args r body obtain ok where ok: "b = Some ok"
      by (cases b) auto
    then have fin: "ok = aer_success reply" "aer_term reply \<le> T"
      using locked_result [OF b] by (auto simp: srih_finish_def split: if_splits)
    show ?thesis
    proof (cases ok)
      case False
      with a args r body b ok Cons.prems skip [of n w3] show ?thesis
        by (auto simp: Let_def split: if_splits intro!: exI [of _ "[]"])
    next
      case True
      have ack: "acked E T p"
        unfolding acked_def using T r body fin True by blast
      consider "n + 1 > m div 2" | "srih_loop E T m ps (n + 1) w3 = (True, w')"
        using a args r body b ok True Cons.prems by (auto simp: Let_def split: if_splits)
      then show ?thesis
      proof cases
        case 1
        with ack show ?thesis by (intro exI [of _ "[p]"]) auto
      next
        case 2
        from Cons.IH [OF this] obtain acks where
          "subseq acks ps" "\<forall>p \<in> set acks. acked E T p" "n + 1 + int (length acks) > m div 2"
          by blast
        with ack show ?thesis by (intro exI [of _ "p # acks"]) auto
      qed
    qed
  qed
qed

lemma sendReadIndexHeartbeats_majority_aux:
  assumes "sendReadIndexHeartbeats E T w = (True, w')"
  shows "\<exists>acks. subseq acks (peers (fst w)) \<and> (\<forall>p \<in> set acks. acked E T p) \<and>
    int (length (peers (fst w))) + 1 < 2 * (1 + int (length acks))"
proof -
  from srih_loop_acks [OF assms [unfolded sendReadIndexHeartbeats_def]] obtain acks where
    a: "subseq acks (peers (fst w))" "\<forall>p \<in> set acks. acked E T p"
      "1 + int (length acks) > (int (length (peers (fst w))) + 1) div 2"
    by blast
  from a(3) have "int (length (peers (fst w))) + 1 < 2 * (1 + int (length acks))"
    by presburger
  with a(1,2) show ?thesis by blast
qed

lemma wat_loop_applied:
  "wat_loop E i T ms w = (True, w') \<Longrightarrow>
     nstate (fst w') = LEADER \<and> currentTerm (fst w') = T \<and> i \<le> lastApplied (fst w')"
proof (induction "nat (1000 - ms)" arbitrary: ms w rule: less_induct)
  case less
  obtain a w1 where a: "locked E (\<lambda>s. (wat_check i T s, s)) w = (a, w1)"
    by (cases "locked E (\<lambda>s. (wat_check i T s, s)) w")
  show ?case
  proof (cases a)
    case None
    with less.prems a have "ms < 1000"
      "wat_loop E i T (ms + 10) (fst w1, sleep_ms E 10 (snd w1)) = (True, w')"
      by (subst (asm) wat_loop.simps, auto split: if_splits)+
    then show ?thesis by (intro less.hyps) auto
  next
    case (Some b)
    with less.prems a have "b" "w' = w1"
      by (subst (asm) wat_loop.simps, auto split: if_splits)+
    with Some locked_result [OF a] show ?thesis
      by (auto simp: wat_check_def split: if_splits)
  qed
qed

lemma locked_read:
  "locked E (\<lambda>s. (g s, s)) w = (r, w') \<Longrightarrow> w' = acquire E w \<and> r = g (fst w')"
  by (auto simp: locked_def split_beta)

text \<open>
  A read that succeeds: the node was leader when it was asked, got an entry of its term committed,
  was still leader of the same term when it took the commit index as read index, had the term
  confirmed, and read the store while it was still leader of that term. \<open>wr\<close>, \<open>wa\<close> are the worlds at
  the read index and once it is applied.
\<close>

lemma linearizableGet_ok_aux:
  assumes "linearizableGet L E key w = Some ((READ_OK, val), w')" and "T = currentTerm (fst (acquire E w))"
  shows "nstate (fst (acquire E w)) = LEADER \<and> (\<exists>we wr wq wa.
    ensureCurrentTermCommitted L E (acquire E w) = Some (True, we) \<and>
    wr = acquire E we \<and> nstate (fst wr) = LEADER \<and> currentTerm (fst wr) = T \<and>
    sendReadIndexHeartbeats E T wr = (True, wq) \<and>
    waitAppliedTo E (commitIndex (fst wr)) T wq = (True, wa) \<and>
    commitIndex (fst wr) \<le> lastApplied (fst wa) \<and>
    w' = acquire E wa \<and> nstate (fst w') = LEADER \<and> currentTerm (fst w') = T \<and>
    kv_get L key (kvStore (fst w')) = Some val)"
proof -
  note T = assms(2)
  obtain a w1 where a: "locked E (\<lambda>s. (if nstate s \<noteq> LEADER then None else Some (currentTerm s), s)) w = (a, w1)"
    by (cases "locked E (\<lambda>s. (if nstate s \<noteq> LEADER then None else Some (currentTerm s), s)) w")
  from assms(1) a have "a \<noteq> None"
    by (cases a) (simp_all add: linearizableGet_def)
  with locked_read [OF a] T have lead: "nstate (fst (acquire E w)) = LEADER" and aT: "a = Some T" and w1: "w1 = acquire E w"
    by (auto split: if_splits)
  obtain we where e: "ensureCurrentTermCommitted L E w1 = Some (True, we)"
    using assms(1) a aT by (auto simp: linearizableGet_def bind_eq_Some_conv split: if_splits)
  obtain c wr where c: "locked E (\<lambda>s. (if nstate s \<noteq> LEADER \<or> currentTerm s \<noteq> T then None
      else Some (commitIndex s), s)) we = (c, wr)"
    by (cases "locked E (\<lambda>s. (if nstate s \<noteq> LEADER \<or> currentTerm s \<noteq> T then None
      else Some (commitIndex s), s)) we")
  with assms(1) a aT e obtain r where r: "c = Some r"
    by (cases c) (auto simp: linearizableGet_def)
  with locked_result [OF c] have wr: "nstate (fst wr) = LEADER" "currentTerm (fst wr) = T"
    "r = commitIndex (fst wr)"
    by (auto split: if_splits)
  obtain q wq where q: "sendReadIndexHeartbeats E T wr = (q, wq)"
    by (cases "sendReadIndexHeartbeats E T wr")
  with assms(1) a aT e c r have "q"
    by (cases q) (auto simp: linearizableGet_def)
  obtain z wa where z: "waitAppliedTo E r T wq = (z, wa)"
    by (cases "waitAppliedTo E r T wq")
  with assms(1) a aT e c r q \<open>q\<close> have "z" and fin: "locked E (lget_final L key T) wa = ((READ_OK, val), w')"
    by (cases z; simp add: linearizableGet_def)+
  have "commitIndex (fst wr) \<le> lastApplied (fst wa)"
    using wat_loop_applied [of E r T 0 wq wa] z \<open>z\<close> wr(3) by (simp add: waitAppliedTo_def)
  moreover have "nstate (fst w') = LEADER" "currentTerm (fst w') = T"
    "kv_get L key (kvStore (fst w')) = Some val"
    using locked_result [OF fin] by (auto simp: lget_final_def split: if_splits option.splits)
  moreover have "w' = acquire E wa"
    using fin by (auto simp: locked_def lget_final_def split: prod.splits)
  moreover have "wr = acquire E we"
    using locked_read [OF c] by simp
  moreover have "sendReadIndexHeartbeats E T wr = (True, wq)"
    "waitAppliedTo E (commitIndex (fst wr)) T wq = (True, wa)"
    using q \<open>q\<close> z \<open>z\<close> wr(3) by simp_all
  ultimately show ?thesis
    using lead e w1 wr(1,2) by blast
qed

section \<open>What a write rests on\<close>

lemma ensureCurrentTermCommitted_true:
  assumes "ensureCurrentTermCommitted L E w = Some (True, w')"
  shows "getLogTermAt (commitIndex (fst w')) (fst w') = currentTerm (fst w')"
  using assms
  by (auto simp: ensureCurrentTermCommitted_def etc_check_def bind_eq_Some_conv
      split: prod.splits option.splits if_splits dest!: locked_result)

lemma appendLocal_facts:
  assumes "node_ok s" and "le_index e = getLastLogIndex s + 1"
  shows "node_ok (appendLocal e s)" and "getLastLogIndex (appendLocal e s) = getLastLogIndex s + 1"
    and "getLogTermAt (getLastLogIndex s + 1) (appendLocal e s) = le_term e"
proof -
  note ok = node_okD [OF assms(1)]
  have logs: "logs (appendLocal e s) = logs s @ [e]" "lastIncludedIndex (appendLocal e s) = lastIncludedIndex s"
    by (simp_all add: appendLocal_def frame)
  have wf: "log_wf (appendLocal e s)"
    using ok(1) assms(2) by (simp add: log_wf_def logs numbered_from_append getLastLogIndex_eq)
  show last: "getLastLogIndex (appendLocal e s) = getLastLogIndex s + 1"
    using ok(1) by (simp add: getLastLogIndex_eq [OF wf] getLastLogIndex_eq logs)
  show "getLogTermAt (getLastLogIndex s + 1) (appendLocal e s) = le_term e"
    using ok by (subst getLogTermAt_in) (auto simp: logs getLastLogIndex_eq nth_append)
  show "node_ok (appendLocal e s)"
    using ok wf last
    by (auto simp: node_ok_def node_inv_def idx_wf_def timer_wf_def appendLocal_lead_wf)
      (auto simp: appendLocal_def frame)
qed

lemma appendLocal_durable: "st_writable (storage s) \<Longrightarrow> durable (appendLocal e s)"
  by (simp add: appendLocal_def durable_persist)

end
