(* ===== verification/Election.thy ===== *)
theory Election
  imports Raft_Quorum
begin

text \<open>
  The specification of elections: what a node's term, vote and role may do, with two ghost sets,
  the votes ever given and the elections ever won. It keeps a peculiarity of the code: a
  candidate that hears from the leader of its own term forgets its vote. Over every quorum
  system the specification has one winner per term.
\<close>

section \<open>The abstract node and its steps\<close>

record enode =
  e_term :: int
  e_vote :: int
  e_role :: NodeState

definition enode_init :: enode where
  "enode_init = \<lparr>e_term = 0, e_vote = -1, e_role = FOLLOWER\<rparr>"

text \<open>Votes are \<open>(voter, term, candidate)\<close>, wins \<open>(term, leader)\<close>.\<close>

record estate =
  es_node :: "int \<Rightarrow> enode"
  es_votes :: "(int \<times> int \<times> int) set"
  es_won :: "(int \<times> int) set"

inductive estep :: "(int set \<Rightarrow> bool) \<Rightarrow> estate \<Rightarrow> estate \<Rightarrow> bool" for decides where
  campaign: "j \<noteq> -1 \<Longrightarrow> estep decides S (S\<lparr>
     es_node := (es_node S)(j := \<lparr>e_term = e_term (es_node S j) + 1, e_vote = j, e_role = CANDIDATE\<rparr>),
     es_votes := insert (j, e_term (es_node S j) + 1, j) (es_votes S)\<rparr>)"
| grant: "c \<noteq> j \<Longrightarrow> c \<noteq> -1 \<Longrightarrow>
     e_term (es_node S j) < T \<or> e_term (es_node S j) = T \<and> e_vote (es_node S j) \<in> {-1, c} \<Longrightarrow>
     estep decides S (S\<lparr>
       es_node := (es_node S)(j := \<lparr>e_term = T, e_vote = c,
         e_role = (if e_term (es_node S j) < T then FOLLOWER else e_role (es_node S j))\<rparr>),
       es_votes := insert (j, T, c) (es_votes S)\<rparr>)"
| bump: "e_term (es_node S j) < T \<Longrightarrow> estep decides S (S\<lparr>
     es_node := (es_node S)(j := \<lparr>e_term = T, e_vote = -1, e_role = FOLLOWER\<rparr>)\<rparr>)"
| defer_to: "(e_term (es_node S j), l) \<in> es_won S \<Longrightarrow> l \<noteq> j \<Longrightarrow> e_role (es_node S j) \<noteq> FOLLOWER \<Longrightarrow>
     estep decides S (S\<lparr>
       es_node := (es_node S)(j := (es_node S j)\<lparr>e_vote := -1, e_role := FOLLOWER\<rparr>)\<rparr>)"
| win: "e_role (es_node S j) = CANDIDATE \<Longrightarrow> decides G \<Longrightarrow>
     (\<And>g. g \<in> G \<Longrightarrow> (g, e_term (es_node S j), j) \<in> es_votes S) \<Longrightarrow>
     estep decides S (S\<lparr>
       es_node := (es_node S)(j := (es_node S j)\<lparr>e_role := LEADER\<rparr>),
       es_won := insert (e_term (es_node S j), j) (es_won S)\<rparr>)"
| restart: "estep decides S (S\<lparr>
     es_node := (es_node S)(j := (es_node S j)\<lparr>e_role := FOLLOWER\<rparr>)\<rparr>)"

section \<open>The invariant\<close>

definition votes_bounded :: "estate \<Rightarrow> bool" where
  "votes_bounded S \<longleftrightarrow> (\<forall>v t c. (v, t, c) \<in> es_votes S \<longrightarrow> t \<le> e_term (es_node S v) \<and> c \<noteq> -1)"

definition one_foreign_vote :: "estate \<Rightarrow> bool" where
  "one_foreign_vote S \<longleftrightarrow> (\<forall>v t c d. (v, t, c) \<in> es_votes S \<and> (v, t, d) \<in> es_votes S \<and> c \<noteq> v \<and> d \<noteq> v \<longrightarrow> c = d)"

definition foreign_vote_held :: "estate \<Rightarrow> bool" where
  "foreign_vote_held S \<longleftrightarrow> (\<forall>v c. (v, e_term (es_node S v), c) \<in> es_votes S \<and> c \<noteq> v \<longrightarrow>
     e_role (es_node S v) = FOLLOWER \<and> e_vote (es_node S v) = c)"

definition active_self_vote :: "estate \<Rightarrow> bool" where
  "active_self_vote S \<longleftrightarrow> (\<forall>v. e_role (es_node S v) \<noteq> FOLLOWER \<longrightarrow> v \<noteq> -1 \<and> e_vote (es_node S v) = v)"

definition winners_have_quorum :: "(int set \<Rightarrow> bool) \<Rightarrow> estate \<Rightarrow> bool" where
  "winners_have_quorum decides S \<longleftrightarrow> (\<forall>t l. (t, l) \<in> es_won S \<longrightarrow> (\<exists>G. decides G \<and> (\<forall>g \<in> G. (g, t, l) \<in> es_votes S)))"

definition winners_faithful :: "estate \<Rightarrow> bool" where
  "winners_faithful S \<longleftrightarrow> (\<forall>t l. (t, l) \<in> es_won S \<longrightarrow>
     l \<noteq> -1 \<and> (t < e_term (es_node S l) \<or> t = e_term (es_node S l) \<and> e_vote (es_node S l) = l) \<and>
     (\<forall>c. (l, t, c) \<in> es_votes S \<longrightarrow> c = l))"

definition one_winner :: "estate \<Rightarrow> bool" where
  "one_winner S \<longleftrightarrow> (\<forall>t l l'. (t, l) \<in> es_won S \<and> (t, l') \<in> es_won S \<longrightarrow> l = l')"

definition leaders_won :: "estate \<Rightarrow> bool" where
  "leaders_won S \<longleftrightarrow> (\<forall>j. e_role (es_node S j) = LEADER \<longrightarrow> (e_term (es_node S j), j) \<in> es_won S)"

definition einv :: "(int set \<Rightarrow> bool) \<Rightarrow> estate \<Rightarrow> bool" where
  "einv decides S \<longleftrightarrow> votes_bounded S \<and> one_foreign_vote S \<and> foreign_vote_held S \<and>
     active_self_vote S \<and> winners_have_quorum decides S \<and> winners_faithful S \<and> one_winner S \<and>
     leaders_won S"

lemmas einv_defs = votes_bounded_def one_foreign_vote_def foreign_vote_held_def
  active_self_vote_def winners_have_quorum_def winners_faithful_def one_winner_def leaders_won_def

lemma einv_init:
  "(\<And>j. es_node S j = enode_init) \<Longrightarrow> es_votes S = {} \<Longrightarrow> es_won S = {} \<Longrightarrow> einv decides S"
  by (simp add: einv_def einv_defs enode_init_def)

text \<open>The invariant as rules.\<close>

lemma einvD:
  assumes "einv decides S"
  shows "(v, t, c) \<in> es_votes S \<Longrightarrow> t \<le> e_term (es_node S v)"
    and "(v, t, c) \<in> es_votes S \<Longrightarrow> c \<noteq> -1"
    and "(v, t, c) \<in> es_votes S \<Longrightarrow> (v, t, d) \<in> es_votes S \<Longrightarrow> c \<noteq> v \<Longrightarrow> d \<noteq> v \<Longrightarrow> c = d"
    and "(v, e_term (es_node S v), c) \<in> es_votes S \<Longrightarrow> c \<noteq> v \<Longrightarrow> e_role (es_node S v) = FOLLOWER"
    and "(v, e_term (es_node S v), c) \<in> es_votes S \<Longrightarrow> c \<noteq> v \<Longrightarrow> e_vote (es_node S v) = c"
    and "e_role (es_node S v) \<noteq> FOLLOWER \<Longrightarrow> e_vote (es_node S v) = v"
    and "e_role (es_node S v) \<noteq> FOLLOWER \<Longrightarrow> v \<noteq> -1"
    and "(t, l) \<in> es_won S \<Longrightarrow> \<exists>G. decides G \<and> (\<forall>g \<in> G. (g, t, l) \<in> es_votes S)"
    and "(t, l) \<in> es_won S \<Longrightarrow> l \<noteq> -1"
    and "(t, l) \<in> es_won S \<Longrightarrow> t < e_term (es_node S l) \<or> t = e_term (es_node S l) \<and> e_vote (es_node S l) = l"
    and "(t, l) \<in> es_won S \<Longrightarrow> (l, t, c) \<in> es_votes S \<Longrightarrow> c = l"
    and "(t, l) \<in> es_won S \<Longrightarrow> (t, l') \<in> es_won S \<Longrightarrow> l = l'"
    and "e_role (es_node S v) = LEADER \<Longrightarrow> (e_term (es_node S v), v) \<in> es_won S"
  using assms unfolding einv_def einv_defs by blast+

text \<open>A node that may vote for \<open>c\<close> in term \<open>T\<close> has voted for no other in that term.\<close>

lemma grant_facts:
  assumes "einv decides S" and "c \<noteq> j" and "c \<noteq> -1"
    and "e_term (es_node S j) < T \<or> e_term (es_node S j) = T \<and> e_vote (es_node S j) \<in> {-1, c}"
  shows "(j, T, d) \<in> es_votes S \<Longrightarrow> d \<noteq> j \<Longrightarrow> d = c"
    and "e_term (es_node S j) = T \<Longrightarrow> e_role (es_node S j) = FOLLOWER"
proof -
  note D = einvD [OF assms(1)]
  show "d = c" if "(j, T, d) \<in> es_votes S" "d \<noteq> j"
  proof -
    from D(1,2) [OF that(1)] have "T \<le> e_term (es_node S j)" "d \<noteq> -1" .
    with assms(4) have "e_term (es_node S j) = T" "e_vote (es_node S j) \<in> {-1, c}" by auto
    with D(5) [of j d] that \<open>d \<noteq> -1\<close> show ?thesis by auto
  qed
  show "e_role (es_node S j) = FOLLOWER" if "e_term (es_node S j) = T"
    using D(6,7) [of j] assms(2,3,4) that by fastforce
qed

context quorum_system
begin

lemma estep_term_mono: "estep decides S S' \<Longrightarrow> e_term (es_node S v) \<le> e_term (es_node S' v)"
  by (erule estep.cases) auto

lemma estep_votes:
  "estep decides S S' \<Longrightarrow> (v, t, c) \<in> es_votes S' \<Longrightarrow>
     (v, t, c) \<in> es_votes S \<or> t = e_term (es_node S' v) \<and> c \<noteq> -1"
  by (erule estep.cases) auto

lemma step_votes_bounded:
  assumes "estep decides S S'" and "einv decides S"
  shows "votes_bounded S'"
  unfolding votes_bounded_def
proof (intro allI impI)
  fix v t c
  assume "(v, t, c) \<in> es_votes S'"
  from estep_votes [OF assms(1) this] show "t \<le> e_term (es_node S' v) \<and> c \<noteq> -1"
    using einvD(1,2) [OF assms(2)] estep_term_mono [OF assms(1), of v] order_trans by blast
qed

lemma step_one_foreign_vote:
  assumes "estep decides S S'" and "einv decides S"
  shows "one_foreign_vote S'"
  using assms(1)
proof cases
  case (grant c j T)
  with grant_facts(1) [OF assms(2) grant(2-4)] einvD(3) [OF assms(2)] show ?thesis
    by (auto simp: one_foreign_vote_def)
next
  case (campaign j)
  with einvD(3) [OF assms(2)] show ?thesis by (auto simp: one_foreign_vote_def)
qed (use einvD(3) [OF assms(2)] in \<open>auto simp: one_foreign_vote_def\<close>)

lemma step_foreign_vote_held:
  assumes "estep decides S S'" and "einv decides S"
  shows "foreign_vote_held S'"
  using assms(1)
proof cases
  case (campaign j)
  with einvD(1,4,5) [OF assms(2)] show ?thesis
    by (fastforce simp: foreign_vote_held_def)
next
  case (grant c j T)
  with grant_facts [OF assms(2) grant(2-4)] einvD(4,5) [OF assms(2)] show ?thesis
    by (auto simp: foreign_vote_held_def)
next
  case (bump j T)
  with einvD(1,4,5) [OF assms(2)] show ?thesis
    by (fastforce simp: foreign_vote_held_def)
next
  case (defer_to j l)
  with einvD(4,5) [OF assms(2)] show ?thesis
    by (auto simp: foreign_vote_held_def)
next
  case (win j G)
  then have "c = j" if "(j, e_term (es_node S j), c) \<in> es_votes S" for c
    using einvD(4) [OF assms(2) that] by auto
  with win einvD(4,5) [OF assms(2)] show ?thesis
    by (auto simp: foreign_vote_held_def)
next
  case (restart j)
  with einvD(4,5) [OF assms(2)] show ?thesis
    by (auto simp: foreign_vote_held_def)
qed

lemma step_active_self_vote:
  assumes "estep decides S S'" and "einv decides S"
  shows "active_self_vote S'"
  using assms(1)
proof cases
  case (grant c j T)
  with grant_facts(2) [OF assms(2) grant(2-4)] einvD(6,7) [OF assms(2)] show ?thesis
    by (auto simp: active_self_vote_def)
qed (use einvD(6,7) [OF assms(2)] in \<open>auto simp: active_self_vote_def\<close>)

text \<open>The heart: a candidate with a quorum of votes meets an earlier winner of its term.\<close>

lemma win_unique:
  assumes "einv decides S" and "e_role (es_node S j) = CANDIDATE" and "decides G"
    and "\<And>g. g \<in> G \<Longrightarrow> (g, e_term (es_node S j), j) \<in> es_votes S"
    and "(e_term (es_node S j), l) \<in> es_won S"
  shows "l = j"
proof (rule ccontr)
  assume "l \<noteq> j"
  note D = einvD [OF assms(1)]
  from D(8) [OF assms(5)] obtain H where H: "decides H" "\<forall>g \<in> H. (g, e_term (es_node S j), l) \<in> es_votes S"
    by blast
  from intersect [OF assms(3) H(1)] obtain x where x: "x \<in> G" "x \<in> H" by blast
  then have v: "(x, e_term (es_node S j), j) \<in> es_votes S" "(x, e_term (es_node S j), l) \<in> es_votes S"
    using assms(4) H(2) by auto
  consider "x = l" | "x = j" | "x \<noteq> l" "x \<noteq> j" by blast
  then show False
  proof cases
    case 1
    with D(11) [OF assms(5)] v(1) \<open>l \<noteq> j\<close> show False by auto
  next
    case 2
    with D(4) [of j l] v(2) \<open>l \<noteq> j\<close> assms(2) show False by auto
  next
    case 3
    with D(3) [OF v] \<open>l \<noteq> j\<close> show False by auto
  qed
qed

lemma step_winners_have_quorum:
  assumes "estep decides S S'" and "einv decides S"
  shows "winners_have_quorum decides S'"
  using assms(1)
proof cases
  case (win j G)
  with einvD(8) [OF assms(2)] show ?thesis
    by (auto simp: winners_have_quorum_def)
next
  case (campaign j)
  with einvD(8) [OF assms(2)] show ?thesis
    by (auto simp: winners_have_quorum_def) meson+
next
  case (grant c j T)
  with einvD(8) [OF assms(2)] show ?thesis
    by (auto simp: winners_have_quorum_def) meson+
qed (use einvD(8) [OF assms(2)] in \<open>auto simp: winners_have_quorum_def\<close>)

lemma winner_stays_faithful:
  assumes "estep decides S S'" and "einv decides S" and "(t, l) \<in> es_won S"
  shows "t < e_term (es_node S' l) \<or> t = e_term (es_node S' l) \<and> e_vote (es_node S' l) = l"
    and "(l, t, c) \<in> es_votes S' \<Longrightarrow> c = l"
proof -
  note W = einvD(9,10,11) [OF assms(2,3)] and U = einvD(12) [OF assms(2,3)]
  show "t < e_term (es_node S' l) \<or> t = e_term (es_node S' l) \<and> e_vote (es_node S' l) = l"
    using assms(1) W U by cases auto
  show "c = l" if "(l, t, c) \<in> es_votes S'"
    using assms(1) W U that by cases auto
qed

lemma step_winners_faithful:
  assumes "estep decides S S'" and "einv decides S"
  shows "winners_faithful S'"
proof -
  have "l \<noteq> -1 \<and> (t < e_term (es_node S' l) \<or> t = e_term (es_node S' l) \<and> e_vote (es_node S' l) = l) \<and>
      (\<forall>c. (l, t, c) \<in> es_votes S' \<longrightarrow> c = l)" if "(t, l) \<in> es_won S'" for t l
  proof (cases "(t, l) \<in> es_won S")
    case True
    with winner_stays_faithful [OF assms] einvD(9) [OF assms(2)] show ?thesis by blast
  next
    case False
    from assms(1) show ?thesis
    proof cases
      case (win j G)
      with False that have tl: "t = e_term (es_node S j)" "l = j" by auto
      have "c = j" if "(j, e_term (es_node S j), c) \<in> es_votes S" for c
        using einvD(4) [OF assms(2) that] win(2) by auto
      with win tl einvD(6,7) [OF assms(2), of j] show ?thesis by auto
    qed (use False that in auto)
  qed
  then show ?thesis by (simp add: winners_faithful_def)
qed

lemma step_one_winner:
  assumes "estep decides S S'" and "einv decides S"
  shows "one_winner S'"
  using assms(1)
proof cases
  case (win j G)
  with win_unique [OF assms(2) win(2,3)] einvD(12) [OF assms(2)] show ?thesis
    by (auto simp: one_winner_def)
qed (use einvD(12) [OF assms(2)] in \<open>auto simp: one_winner_def\<close>)

lemma step_leaders_won:
  assumes "estep decides S S'" and "einv decides S"
  shows "leaders_won S'"
  using assms(1)
proof cases
  case (grant c j T)
  with grant_facts(2) [OF assms(2) grant(2-4)] einvD(13) [OF assms(2)] show ?thesis
    by (auto simp: leaders_won_def)
qed (use einvD(13) [OF assms(2)] in \<open>auto simp: leaders_won_def\<close>)

lemma step_einv: "estep decides S S' \<Longrightarrow> einv decides S \<Longrightarrow> einv decides S'"
  unfolding einv_def [of decides S']
  by (intro conjI step_votes_bounded step_one_foreign_vote step_foreign_vote_held
      step_active_self_vote step_winners_have_quorum step_winners_faithful step_one_winner
      step_leaders_won)

lemma steps_einv: "(estep decides)\<^sup>*\<^sup>* S S' \<Longrightarrow> einv decides S \<Longrightarrow> einv decides S'"
  by (induction rule: rtranclp_induct) (auto intro: step_einv)

end

end
