(* ===== verification/Cluster.thy ===== *)
theory Cluster
  imports Client Leader_Facts Election "HOL-Library.Multiset"
begin

text \<open>
  A cluster of nodes that runs the handlers, the elections and the leader's operations of the
  model over a network that delays, repeats and loses messages, with crashes and restarts from
  the state file, under a fixed membership. Every step is a step of the election specification
  or leaves what it sees alone, so the cluster has at most one leader per term.
\<close>

section \<open>What is on disk\<close>

text \<open>
  A step is \<open>synced\<close> when the state file holds what the node has to remember afterwards, or
  nothing of that has changed.
\<close>

definition synced :: "'db node \<Rightarrow> 'db node \<Rightarrow> bool" where
  "synced s t \<longleftrightarrow> durable t \<or> persistent_of t = persistent_of s \<and> storage t = storage s"

lemma synced_refl: "synced s s"
  by (simp add: synced_def)

lemma synced_trans: "synced s t \<Longrightarrow> synced t u \<Longrightarrow> synced s u"
  using durable_cong [of u t] by (auto simp: synced_def)

lemma synced_writable: "synced s t \<Longrightarrow> st_writable (storage s) \<Longrightarrow> st_writable (storage t)"
  by (auto simp: synced_def durable_def)

lemma synced_same:
  "currentTerm t = currentTerm s \<Longrightarrow> votedFor t = votedFor s \<Longrightarrow> logs t = logs s \<Longrightarrow>
   lastIncludedIndex t = lastIncludedIndex s \<Longrightarrow> lastIncludedTerm t = lastIncludedTerm s \<Longrightarrow>
   storage t = storage s \<Longrightarrow> synced s t"
  by (simp add: synced_def persistent_of_def)

lemma synced_becomeFollower: "st_writable (storage s) \<Longrightarrow> synced s (becomeFollower t s)"
  by (simp add: synced_def becomeFollower_durable)

lemma synced_becomeCandidate: "st_writable (storage s) \<Longrightarrow> synced s (becomeCandidate s)"
  by (simp add: synced_def becomeCandidate_durable)

lemma synced_stepDown: "st_writable (storage s) \<Longrightarrow> synced s (stepDown t l s)"
  unfolding stepDown_def
  by (rule synced_trans [of _ "if t > currentTerm s \<or> nstate s \<noteq> FOLLOWER then becomeFollower t s else s"])
    (auto intro: synced_becomeFollower synced_refl synced_same simp: frame)

lemma synced_handleRequestVote:
  "st_writable (storage s) \<Longrightarrow> synced s (snd (handleRequestVote args s))"
  by (auto simp: handleRequestVote_def Let_def frame becomeFollower_durable synced_def
      intro!: durable_persist)

lemma synced_applyCommittedLogs:
  "st_writable (storage s) \<Longrightarrow> synced s (applyCommittedLogs L s)"
proof -
  assume w: "st_writable (storage s)"
  have "synced (applyLoop L s) (createSnapshot u (applyLoop L s))" for u
    using w by (auto simp: createSnapshot_def Let_def synced_refl synced_def frame intro!: durable_persist)
  moreover have "synced s (applyLoop L s)"
    by (rule synced_same) (simp_all add: frame)
  ultimately show ?thesis
    using maybeCreateSnapshot_cases [of "applyLoop L s"] synced_trans
    unfolding applyCommittedLogs_def by metis
qed

lemma synced_ae_append:
  assumes "st_writable (storage s)"
  shows "synced s (ae_append args s)"
proof -
  let ?d = "stepDown (ae_term args) (ae_leaderId args) s"
  have "st_writable (storage (fst (appendLoop (ae_entries args) ?d False)))"
    using assms appendLoop_frame [of "ae_entries args" ?d False] by (auto simp: frame)
  then have "synced ?d (ae_append args s)"
    using appendLoop_unchanged [of "ae_entries args" ?d]
    by (auto simp: ae_append_def split_beta synced_refl synced_def intro!: durable_persist)
  with synced_stepDown [OF assms] show ?thesis
    by (rule synced_trans)
qed

lemma synced_commit:
  assumes "st_writable (storage s)"
  shows "synced s (applyCommittedLogs L (s\<lparr>commitIndex := i\<rparr>))"
  by (rule synced_trans [OF synced_same synced_applyCommittedLogs]) (simp_all add: assms)

lemma synced_handleAppendEntries:
  assumes "st_writable (storage s)"
  shows "synced s (snd (handleAppendEntries L args s))"
proof (cases rule: handleAppendEntries_cases [of args s])
  case matched
  have "synced (ae_append args s) (ae_commit L args (ae_append args s))"
    using synced_commit [OF synced_writable [OF synced_ae_append assms]] assms
    by (simp add: ae_commit_def synced_refl)
  with matched synced_ae_append [OF assms, of args] show ?thesis
    by (simp add: handleAppendEntries_matched) (rule synced_trans)
qed (simp_all add: handleAppendEntries_simps synced_refl synced_stepDown assms)

lemma synced_handleInstallSnapshot:
  assumes "st_writable (storage s)"
  shows "synced s (snd (handleInstallSnapshot L args s))"
proof (cases "currentTerm s \<le> sn_term args \<and> lastIncludedIndex s < sn_lastIncludedIndex args")
  case True
  then show ?thesis
    using sn_install_durable [of "stepDown (sn_term args) (sn_leaderId args) s" L args] assms
    by (simp add: handleInstallSnapshot_new synced_def frame)
next
  case False
  then show ?thesis
    by (cases "currentTerm s \<le> sn_term args")
      (simp_all add: handleInstallSnapshot_rejected handleInstallSnapshot_old synced_refl
        synced_stepDown assms)
qed

lemma synced_updateCommitIndex:
  "st_writable (storage s) \<Longrightarrow> synced s (updateCommitIndex L s)"
  by (cases rule: updateCommitIndex_cases [of L s]) (auto simp: synced_refl intro: synced_commit)

section \<open>Fixed membership\<close>

definition no_config :: "LogEntry list \<Rightarrow> bool" where
  "no_config es \<longleftrightarrow> (\<forall>e \<in> set es. \<not> is_config_op (le_op e))"

lemma no_config_simps [simp]:
  "no_config []" "no_config (e # es) \<longleftrightarrow> \<not> is_config_op (le_op e) \<and> no_config es"
  "no_config (es @ fs) \<longleftrightarrow> no_config es \<and> no_config fs"
  by (auto simp: no_config_def)

lemma no_config_part: "no_config es \<Longrightarrow> set fs \<subseteq> set es \<Longrightarrow> no_config fs"
  by (auto simp: no_config_def)

text \<open>Without configuration entries the apply loop only touches the store.\<close>

lemma applyLoop_no_config:
  "no_config (logs s) \<Longrightarrow> \<exists>k i. applyLoop L s = s\<lparr>kvStore := k, lastApplied := i\<rparr>"
proof (induction s rule: applyLoop_induct [of L])
  case (1 s)
  show ?case
  proof (cases "applyNext L s")
    case None
    then have "applyLoop L s = s" by (simp add: applyLoop_next)
    then show ?thesis by (intro exI [of _ "kvStore s"] exI [of _ "lastApplied s"]) simp
  next
    case (Some t)
    have "\<not> is_config_op (le_op (logs s ! nat (logIndexToPos (lastApplied s + 1) s)))"
      if "hasLogAt (lastApplied s + 1) s" "\<not> lastApplied s + 1 \<le> lastIncludedIndex s"
      using that 1(2) by (auto simp: hasLogAt_def Let_def no_config_def)
    with Some have "t = s\<lparr>kvStore := kvStore s, lastApplied := lastApplied s + 1\<rparr> \<or>
        (\<exists>k. t = s\<lparr>kvStore := k, lastApplied := lastApplied s + 1\<rparr>)"
      by (auto simp: applyNext_def Let_def is_config_op_def split: if_splits)
    then obtain k i where t: "t = s\<lparr>kvStore := k, lastApplied := i\<rparr>" by blast
    with 1(1) [OF Some] 1(2) obtain k' i' where
      "applyLoop L t = t\<lparr>kvStore := k', lastApplied := i'\<rparr>" by auto
    with Some t show ?thesis
      by (auto simp: applyLoop_next [of L s])
  qed
qed

lemma applyCommittedLogs_no_config:
  assumes "no_config (logs s)"
  shows "nstate (applyCommittedLogs L s) = nstate s" "peers (applyCommittedLogs L s) = peers s"
    "configState (applyCommittedLogs L s) = configState s"
    "currentConfig (applyCommittedLogs L s) = currentConfig s"
    "no_config (logs (applyCommittedLogs L s))"
proof -
  obtain k i where a: "applyLoop L s = s\<lparr>kvStore := k, lastApplied := i\<rparr>"
    using applyLoop_no_config [OF assms] by blast
  have "no_config (logs (createSnapshot u s'))" if "no_config (logs s')" for u s'
    using that by (auto simp: createSnapshot_def Let_def frame intro: no_config_part)
  from this [of "s\<lparr>kvStore := k, lastApplied := i\<rparr>"] assms
  have "no_config (logs (createSnapshot u (s\<lparr>kvStore := k, lastApplied := i\<rparr>)))" for u by simp
  with assms maybeCreateSnapshot_cases [of "applyLoop L s"] show
    "nstate (applyCommittedLogs L s) = nstate s" "peers (applyCommittedLogs L s) = peers s"
    "configState (applyCommittedLogs L s) = configState s"
    "currentConfig (applyCommittedLogs L s) = currentConfig s"
    "no_config (logs (applyCommittedLogs L s))"
    by (auto simp: applyCommittedLogs_def a frame)
qed

text \<open>
  What a restart finds: no file and a node that never had to write one, or a file whose term
  and vote are the node's. The last conjunct passes on that the file can be read back.
\<close>

definition remembers :: "'db node \<Rightarrow> bool" where
  "remembers s \<longleftrightarrow> st_writable (storage s) \<and>
     (st_file (storage s) = None \<and> currentTerm s = 0 \<and> votedFor s = -1 \<or>
      (\<exists>v. st_file (storage s) = Some (save_text v) \<and> sv_currentTerm v = currentTerm s \<and>
         sv_votedFor v = votedFor s \<and> no_config (sv_logs v) \<and>
         (saved_ok (persistent_of s) \<longrightarrow> saved_ok v)))"

definition member_ok :: "PeerInfo list \<Rightarrow> int \<Rightarrow> 'db node \<Rightarrow> bool" where
  "member_ok C i s \<longleftrightarrow> nid s = i \<and> configState s = STABLE \<and>
     mset (map pi_id (cfg_nodes (currentConfig s))) = mset (map pi_id C) \<and>
     (\<forall>p \<in> set (peers s). pi_id p \<noteq> i) \<and> no_config (logs s) \<and> remembers s"

lemma remembers_step:
  assumes "remembers s" and "synced s t" and "no_config (logs t)"
  shows "remembers t"
proof (cases "durable t")
  case True
  then show ?thesis
    using assms(3)
    by (auto simp: remembers_def durable_def persistent_of_def)
next
  case False
  with assms(2) have "persistent_of t = persistent_of s" "storage t = storage s"
    by (auto simp: synced_def)
  moreover from this(1) have "currentTerm t = currentTerm s" "votedFor t = votedFor s"
    by (simp_all add: persistent_of_def)
  ultimately show ?thesis
    using assms(1) by (simp add: remembers_def)
qed

lemma member_writable: "member_ok C i s \<Longrightarrow> st_writable (storage s)"
  by (simp add: member_ok_def remembers_def)

text \<open>The fields a step under fixed membership may not change.\<close>

definition same_member :: "'db node \<Rightarrow> 'db node \<Rightarrow> bool" where
  "same_member s t \<longleftrightarrow> nid t = nid s \<and> configState t = configState s \<and>
     currentConfig t = currentConfig s \<and> peers t = peers s"

lemma member_step:
  assumes "member_ok C i s" and "same_member s t" and "synced s t" and "no_config (logs t)"
  shows "member_ok C i t"
  using assms remembers_step [of s t] by (simp add: member_ok_def same_member_def)

section \<open>The node as the specification sees it\<close>

definition enode_of :: "'db node \<Rightarrow> enode" where
  "enode_of s = \<lparr>e_term = currentTerm s, e_vote = votedFor s, e_role = nstate s\<rparr>"

text \<open>The changes a node may make on its own: none, a later term, or back to follower.\<close>

definition quiet :: "'db node \<Rightarrow> 'db node \<Rightarrow> bool" where
  "quiet s t \<longleftrightarrow> enode_of t = enode_of s \<or>
     (currentTerm s < currentTerm t \<and> votedFor t = -1 \<and> nstate t = FOLLOWER) \<or>
     (currentTerm t = currentTerm s \<and> votedFor t = votedFor s \<and> nstate t = FOLLOWER)"

lemma quiet_same:
  "currentTerm t = currentTerm s \<Longrightarrow> votedFor t = votedFor s \<Longrightarrow> nstate t = nstate s \<Longrightarrow> quiet s t"
  by (simp add: quiet_def enode_of_def)

lemma same_becomeFollower: "same_member s (becomeFollower t s)"
  by (simp add: same_member_def frame)

lemma quiet_becomeFollower: "currentTerm s < t \<Longrightarrow> quiet s (becomeFollower t s)"
  by (simp add: quiet_def effect)

text \<open>A local step keeps the membership and is quiet.\<close>

definition local_ok :: "PeerInfo list \<Rightarrow> int \<Rightarrow> 'db node \<Rightarrow> 'db node \<Rightarrow> bool" where
  "local_ok C i s t \<longleftrightarrow> member_ok C i t \<and> quiet s t"

lemma local_refl: "member_ok C i s \<Longrightarrow> local_ok C i s s"
  by (simp add: local_ok_def quiet_same)

lemma local_becomeFollower:
  assumes "member_ok C i s" and "currentTerm s < t"
  shows "local_ok C i s (becomeFollower t s)"
proof -
  have "no_config (logs (becomeFollower t s))"
    using assms(1) by (simp add: member_ok_def frame)
  with assms show ?thesis
    using member_step [OF assms(1) same_becomeFollower synced_becomeFollower [OF member_writable]]
    by (simp add: local_ok_def quiet_becomeFollower)
qed

lemma local_same:
  assumes "member_ok C i s"
    and "nid t = nid s" "configState t = configState s" "currentConfig t = currentConfig s"
      "peers t = peers s" "currentTerm t = currentTerm s" "votedFor t = votedFor s"
      "nstate t = nstate s" "logs t = logs s" "lastIncludedIndex t = lastIncludedIndex s"
      "lastIncludedTerm t = lastIncludedTerm s" "storage t = storage s"
  shows "local_ok C i s t"
  using assms member_step [OF assms(1), of t] synced_same [of t s]
  by (simp add: local_ok_def quiet_same same_member_def) (simp add: member_ok_def)

text \<open>What a reply to a leader can do to it.\<close>

definition reply_step :: "'db node \<Rightarrow> 'db node \<Rightarrow> bool" where
  "reply_step s t \<longleftrightarrow> t = s \<or> (\<exists>T > currentTerm s. t = becomeFollower T s) \<or>
     (\<exists>ns. t = s\<lparr>nextIndex := ns\<rparr>) \<or>
     (\<exists>ms ns. t = s\<lparr>matchIndex := ms, nextIndex := ns\<rparr>)"

lemma local_reply:
  assumes "member_ok C i s" and "reply_step s t"
  shows "local_ok C i s t"
proof -
  have "local_ok C i s (s\<lparr>matchIndex := ms, nextIndex := ns\<rparr>)" "local_ok C i s (s\<lparr>nextIndex := ns\<rparr>)" for ms ns
    by (rule local_same [OF assms(1)]; simp)+
  with assms(2) show ?thesis
    using local_refl [OF assms(1)] local_becomeFollower [OF assms(1)]
    by (auto simp: reply_step_def)
qed

lemma rtp_finish_reply: "rtp_finish k T args reply s = Some (b, t) \<Longrightarrow> reply_step s t"
  unfolding reply_step_def
  by (auto simp: rtp_finish_def bind_eq_Some_conv Let_def split: if_split_asm)

lemma sstp_finish_reply: "sstp_finish k T reply s = Some (b, t) \<Longrightarrow> reply_step s t"
  unfolding reply_step_def
  by (auto simp: sstp_finish_def bind_eq_Some_conv Let_def split: if_split_asm)

lemma local_srih_finish:
  assumes "member_ok C i s" and "srih_finish T reply s = (b, t)"
  shows "local_ok C i s t"
  using assms(2) local_becomeFollower [OF assms(1)] local_refl [OF assms(1)]
  by (auto simp: srih_finish_def split: if_splits)

lemma local_updateCommitIndex:
  assumes "member_ok C i s"
  shows "local_ok C i s (updateCommitIndex L s)"
proof (cases rule: updateCommitIndex_cases [of L s])
  case same
  with assms show ?thesis by (simp add: local_refl)
next
  case (moved N)
  have n: "no_config (logs (s\<lparr>commitIndex := N\<rparr>))"
    using assms by (simp add: member_ok_def)
  note a = applyCommittedLogs_no_config [OF n, of L]
  have "synced s (updateCommitIndex L s)"
    using assms by (intro synced_updateCommitIndex member_writable)
  with member_step [OF assms, of "updateCommitIndex L s"] a show ?thesis
    by (simp add: moved(6) local_ok_def quiet_same same_member_def frame)
qed

lemma local_appendLocal:
  assumes "member_ok C i s" and "\<not> is_config_op (le_op e)"
  shows "local_ok C i s (appendLocal e s)"
proof -
  have "synced s (appendLocal e s)"
    using assms(1) by (simp add: synced_def appendLocal_durable member_writable)
  moreover have "no_config (logs (appendLocal e s))"
    using assms by (simp add: appendLocal_def frame member_ok_def)
  ultimately show ?thesis
    using member_step [OF assms(1), of "appendLocal e s"]
    by (simp add: local_ok_def quiet_same same_member_def appendLocal_def frame)
qed

lemma local_client:
  assumes "member_ok C i s"
  shows "local_ok C i s (snd (leaderPut_append key val s))"
    and "local_ok C i s (snd (leaderDelete_append key s))"
    and "local_ok C i s (snd (etc_append s))"
  using assms
  by (auto simp: leaderPut_append_def leaderDelete_append_def etc_append_def mk_LogEntry_def
      is_config_op_def intro: local_refl local_appendLocal)

lemma local_el_check: "member_ok C i s \<Longrightarrow> local_ok C i s (snd (el_check s))"
  by (auto simp: el_check_def intro: local_refl local_same)

section \<open>Start and restart\<close>

text \<open>\<open>main\<close> from the cluster file's nodes on.\<close>

definition boot ::
  "'db leveldb \<Rightarrow> PeerInfo list \<Rightarrow> PeerInfo \<Rightarrow> string option \<Rightarrow> int \<Rightarrow> int \<Rightarrow> 'db node" where
  "boot L C self saved now r =
     raft_start (setPeers (buildPeers C (pi_id self))
       (setSelfAddress (pi_ip self) (pi_port self) (RaftNode_new L (pi_id self) saved True now r)))"

lemma node_main_boot:
  assumes "2 \<le> length args" and "loadClusterConfig config = Some C"
    and "findSelfNode C (args ! 0) (c_atoi (args ! 1)) = Some self"
    and "\<not> list_ex (\<lambda>a. a = ''--learner'') (drop 2 args)"
  shows "node_main L args config saved True now r = Some (boot L C self (saved (pi_id self)) now r)"
proof -
  have "pi_ip self = args ! 0 \<and> pi_port self = c_atoi (args ! 1)"
    using assms(3) by (auto simp: findSelfNode_def find_Some_iff)
  with assms show ?thesis
    by (simp add: node_main_def boot_def Let_def)
qed

lemma boot_fields:
  "nid (boot L C self saved now r) = pi_id self" "configState (boot L C self saved now r) = STABLE"
  "nstate (boot L C self saved now r) = FOLLOWER"
  "peers (boot L C self saved now r) = buildPeers C (pi_id self)"
  "map pi_id (cfg_nodes (currentConfig (boot L C self saved now r))) =
     pi_id self # map pi_id (buildPeers C (pi_id self))"
  by (simp_all add: boot_def raft_start_def setPeers_def setSelfAddress_def RaftNode_new_def
      loadPersistentState_def resetElectionTimer_def split: option.split)

lemma boot_saved:
  "st_writable (storage (boot L C self saved now r))"
  "st_file (storage (boot L C self saved now r)) = saved"
  "saved = None \<Longrightarrow> currentTerm (boot L C self saved now r) = 0 \<and>
     votedFor (boot L C self saved now r) = -1 \<and> logs (boot L C self saved now r) = []"
  "saved = Some body \<Longrightarrow> load_text body = Some v \<Longrightarrow>
     currentTerm (boot L C self saved now r) = sv_currentTerm v \<and>
     votedFor (boot L C self saved now r) = sv_votedFor v \<and>
     set (logs (boot L C self saved now r)) \<subseteq> set (sv_logs v)"
  by (auto simp: boot_def raft_start_def setPeers_def setSelfAddress_def RaftNode_new_def
      loadPersistentState_def resetElectionTimer_def storage_load_def mk_PersistentStorage_def
      split: option.split)

lemma buildPeers_ids:
  "distinct (map pi_id C) \<Longrightarrow> p \<in> set C \<Longrightarrow>
     mset (pi_id p # map pi_id (buildPeers C (pi_id p))) = mset (map pi_id C)"
proof (induction C)
  case (Cons q C)
  show ?case
  proof (cases "p = q")
    case True
    with Cons.prems have "buildPeers C (pi_id p) = C"
      by (auto simp: buildPeers_def filter_id_conv image_iff)
    with True show ?thesis by (simp add: buildPeers_def)
  next
    case False
    with Cons.prems have "p \<in> set C" "pi_id q \<noteq> pi_id p"
      by (auto simp: image_iff)
    with Cons show ?thesis by (simp add: buildPeers_def)
  qed
qed simp

lemma boot_member:
  assumes "distinct (map pi_id C)" and "self \<in> set C"
    and "saved = None \<or> (\<exists>v. saved = Some (save_text v) \<and> saved_ok v \<and> no_config (sv_logs v))"
  shows "member_ok C (pi_id self) (boot L C self saved now r)"
proof -
  let ?s = "boot L C self saved now r"
  have "no_config (logs ?s) \<and> remembers ?s"
  proof (cases saved)
    case None
    with boot_saved(1,2) [of L C self saved now r] boot_saved(3) [OF None, of L C self now r] show ?thesis
      by (simp add: remembers_def)
  next
    case (Some body)
    with assms(3) obtain v where v: "body = save_text v" "saved_ok v" "no_config (sv_logs v)"
      by auto
    then have "load_text body = Some v" by (simp add: load_text_save)
    from boot_saved(4) [OF Some this, of L C self now r] boot_saved(1,2) [of L C self saved now r] v Some
    show ?thesis
      by (auto simp: remembers_def intro: no_config_part)
  qed
  moreover have "\<forall>p \<in> set (peers ?s). pi_id p \<noteq> pi_id self"
    by (simp add: boot_fields buildPeers_def)
  ultimately show ?thesis
    using buildPeers_ids [OF assms(1,2)] by (simp add: member_ok_def boot_fields)
qed

section \<open>The cluster\<close>

text \<open>
  A message carries its destination; a vote reply carries the voter and the request it answers.
  The replies to AppendEntries and InstallSnapshot need no messages: a leader may be handed any.
\<close>

datatype packet =
    VoteReq int RequestVoteArgs
  | VoteRep int RequestVoteArgs RequestVoteReply
  | AppendReq int AppendEntriesArgs
  | SnapReq int InstallSnapshotArgs

text \<open>
  \<open>cl_camp\<close> is the local state of a running \<open>startElection\<close>: its request and the ids that
  granted. The last two fields are ghosts: all votes given and all elections won.
\<close>

record 'db cluster =
  cl_node :: "int \<Rightarrow> 'db node"
  cl_net :: "packet set"
  cl_camp :: "int \<Rightarrow> (RequestVoteArgs \<times> int list) option"
  cl_votes :: "(int \<times> int \<times> int) set"
  cl_won :: "(int \<times> int) set"

definition ids_of :: "PeerInfo list \<Rightarrow> int set" where
  "ids_of C = pi_id ` set C"

definition set_node :: "int \<Rightarrow> 'db node \<Rightarrow> 'db cluster \<Rightarrow> 'db cluster" where
  "set_node i s c = c\<lparr>cl_node := (cl_node c)(i := s)\<rparr>"

text \<open>The steps of one member on its own, without messages.\<close>

inductive local_step :: "'db leveldb \<Rightarrow> 'db node \<Rightarrow> 'db node \<Rightarrow> bool" for L where
  tick: "local_step L s (s\<lparr>clk := t, rnd := r\<rparr>)"
| check_timeout: "local_step L s (snd (el_check s))"
| skip_election: "se_begin s = (None, t) \<Longrightarrow> local_step L s t"
| append_reply: "rtp_finish k T args reply s = Some (b, t) \<Longrightarrow> local_step L s t"
| snapshot_reply: "sstp_finish k T sreply s = Some (b, t) \<Longrightarrow> local_step L s t"
| heartbeat_reply: "srih_finish T reply s = (b', t) \<Longrightarrow> local_step L s t"
| client_put: "local_step L s (snd (leaderPut_append key val s))"
| client_delete: "local_step L s (snd (leaderDelete_append key s))"
| read_noop: "local_step L s (snd (etc_append s))"
| commit: "local_step L s (updateCommitIndex L s)"

inductive cstep :: "PeerInfo list \<Rightarrow> 'db leveldb \<Rightarrow> 'db cluster \<Rightarrow> 'db cluster \<Rightarrow> bool" for C L where
  own: "i \<in> ids_of C \<Longrightarrow> local_step L (cl_node c i) s \<Longrightarrow> cstep C L c (set_node i s c)"
| start_election: "i \<in> ids_of C \<Longrightarrow> se_begin (cl_node c i) = (Some args, s) \<Longrightarrow>
     cstep C L c (set_node i s (c\<lparr>
       cl_net := cl_net c \<union> (\<lambda>p. VoteReq (pi_id p) args) ` set (peers s),
       cl_camp := (cl_camp c)(i \<mapsto> (args, [rv_candidateId args])),
       cl_votes := insert (i, rv_term args, rv_candidateId args) (cl_votes c)\<rparr>))"
| request_vote: "j \<in> ids_of C \<Longrightarrow> VoteReq j args \<in> cl_net c \<Longrightarrow>
     handleRequestVote args (cl_node c j) = (reply, s) \<Longrightarrow>
     cstep C L c (set_node j s (c\<lparr>
       cl_net := insert (VoteRep j args reply) (cl_net c),
       cl_votes := (if rvr_voteGranted reply then insert (j, rv_term args, rv_candidateId args) (cl_votes c)
                    else cl_votes c)\<rparr>))"
| count_vote: "i \<in> ids_of C \<Longrightarrow> cl_camp c i = Some (args, granted) \<Longrightarrow> VoteRep j args reply \<in> cl_net c \<Longrightarrow>
     se_reply (rv_term args) j reply granted (cl_node c i) = (res, s) \<Longrightarrow>
     cstep C L c (set_node i s (c\<lparr>
       cl_camp := (cl_camp c)(i := map_option (Pair args) res),
       cl_won := (if nstate s = LEADER then insert (currentTerm s, i) (cl_won c) else cl_won c)\<rparr>))"
| send_append: "i \<in> ids_of C \<Longrightarrow> rtp_prepare k (cl_node c i) = Some (Some (peer, T, args)) \<Longrightarrow>
     cstep C L c (c\<lparr>cl_net := insert (AppendReq (pi_id peer) args) (cl_net c)\<rparr>)"
| send_heartbeat: "i \<in> ids_of C \<Longrightarrow> srih_prepare T (cl_node c i) = Some args \<Longrightarrow>
     peer \<in> set (peers (cl_node c i)) \<Longrightarrow>
     cstep C L c (c\<lparr>cl_net := insert (AppendReq (pi_id peer) args) (cl_net c)\<rparr>)"
| send_snapshot: "i \<in> ids_of C \<Longrightarrow> sstp_prepare L k (cl_node c i) = Some (peer, T, sargs) \<Longrightarrow>
     cstep C L c (c\<lparr>cl_net := insert (SnapReq (pi_id peer) sargs) (cl_net c)\<rparr>)"
| append_entries: "j \<in> ids_of C \<Longrightarrow> AppendReq j args \<in> cl_net c \<Longrightarrow>
     cstep C L c (set_node j (snd (handleAppendEntries L args (cl_node c j))) c)"
| install_snapshot: "j \<in> ids_of C \<Longrightarrow> SnapReq j sargs \<in> cl_net c \<Longrightarrow>
     cstep C L c (set_node j (snd (handleInstallSnapshot L sargs (cl_node c j))) c)"
| crash: "self \<in> set C \<Longrightarrow> saved_ok (persistent_of (cl_node c (pi_id self))) \<Longrightarrow>
     cstep C L c (set_node (pi_id self)
       (boot (L\<lparr>ldb_Open := opn\<rparr>) C self (st_file (storage (cl_node c (pi_id self)))) now r)
       (c\<lparr>cl_camp := (cl_camp c)(pi_id self := None)\<rparr>))"

text \<open>All nodes started for the first time, with the same cluster file.\<close>

definition config_valid :: "PeerInfo list \<Rightarrow> bool" where
  "config_valid C \<longleftrightarrow> distinct (map pi_id C) \<and> -1 \<notin> ids_of C"

definition cluster_init :: "PeerInfo list \<Rightarrow> 'db leveldb \<Rightarrow> 'db cluster \<Rightarrow> bool" where
  "cluster_init C L c \<longleftrightarrow> cl_net c = {} \<and> cl_camp c = (\<lambda>_. None) \<and> cl_votes c = {} \<and> cl_won c = {} \<and>
     (\<forall>self \<in> set C. \<exists>now r. cl_node c (pi_id self) = boot L C self None now r)"

section \<open>The cluster refines the specification\<close>

definition abs_cluster :: "PeerInfo list \<Rightarrow> 'db cluster \<Rightarrow> estate" where
  "abs_cluster C c =
     \<lparr>es_node = (\<lambda>i. if i \<in> ids_of C then enode_of (cl_node c i) else enode_init),
      es_votes = cl_votes c, es_won = cl_won c\<rparr>"

definition net_ok :: "PeerInfo list \<Rightarrow> 'db cluster \<Rightarrow> bool" where
  "net_ok C c \<longleftrightarrow> (\<forall>m \<in> cl_net c. case m of
     VoteReq j args \<Rightarrow> rv_candidateId args \<noteq> j \<and> rv_candidateId args \<noteq> -1
   | VoteRep j args reply \<Rightarrow> rvr_voteGranted reply \<longrightarrow> (j, rv_term args, rv_candidateId args) \<in> cl_votes c
   | AppendReq j args \<Rightarrow> (ae_term args, ae_leaderId args) \<in> cl_won c \<and> ae_leaderId args \<noteq> j \<and> no_config (ae_entries args)
   | SnapReq j args \<Rightarrow> (sn_term args, sn_leaderId args) \<in> cl_won c \<and> sn_leaderId args \<noteq> j)"

definition camp_ok :: "'db cluster \<Rightarrow> bool" where
  "camp_ok c \<longleftrightarrow> (\<forall>i args granted. cl_camp c i = Some (args, granted) \<longrightarrow>
     rv_candidateId args = i \<and> (\<forall>g \<in> set granted. (g, rv_term args, i) \<in> cl_votes c))"

definition cl_inv :: "PeerInfo list \<Rightarrow> 'db cluster \<Rightarrow> bool" where
  "cl_inv C c \<longleftrightarrow> (\<forall>i \<in> ids_of C. member_ok C i (cl_node c i)) \<and> net_ok C c \<and> camp_ok c"

text \<open>The decisions of a member are the majorities of the cluster file.\<close>

lemma majority_mset:
  assumes "mset (map pi_id (cfg_nodes a)) = mset (map pi_id (cfg_nodes b))"
  shows "majority a A = majority b A"
proof -
  have len: "length (cfg_nodes a) = length (cfg_nodes b)"
    using arg_cong [OF assms, of size] by simp
  have count: "length (filter (\<lambda>n. pi_id n \<in> A) ns) = size (filter_mset (\<lambda>i. i \<in> A) (mset (map pi_id ns)))"
    for ns
    by (induction ns) auto
  have "length (filter (\<lambda>n. pi_id n \<in> A) (cfg_nodes a)) = length (filter (\<lambda>n. pi_id n \<in> A) (cfg_nodes b))"
    unfolding count assms ..
  with len show ?thesis
    by (simp add: majority_def cfg_size_def)
qed

definition cluster_decides :: "PeerInfo list \<Rightarrow> int set \<Rightarrow> bool" where
  "cluster_decides C = majority \<lparr>cfg_nodes = C\<rparr>"

lemma member_decides: "member_ok C i s \<Longrightarrow> node_decides s A = cluster_decides C A"
  using majority_mset [of "currentConfig s" "\<lparr>cfg_nodes = C\<rparr>" A]
  by (simp add: member_ok_def node_decides_def cluster_decides_def)

interpretation cluster: quorum_system "cluster_decides C" "ids_of C" for C
  using maj.quorum_system_axioms [of "\<lparr>cfg_nodes = C\<rparr>"]
  by (simp add: cluster_decides_def cfg_ids_def ids_of_def)

lemma local_step_ok:
  assumes "member_ok C i s" and "local_step L s t"
  shows "local_ok C i s t"
  using assms(2)
proof cases
  case (tick t r)
  then show ?thesis by (auto intro: local_same [OF assms(1)])
next
  case skip_election
  with assms(1) show ?thesis
    by (auto simp: se_begin_def Let_def split: if_splits intro: local_refl local_same)
next
  case (append_reply k T args reply b)
  then show ?thesis
    using local_reply [OF assms(1) rtp_finish_reply] by blast
next
  case (snapshot_reply k T sreply b)
  then show ?thesis
    using local_reply [OF assms(1) sstp_finish_reply] by blast
next
  case (heartbeat_reply T reply b')
  then show ?thesis
    using local_srih_finish [OF assms(1)] by blast
qed (simp_all add: local_el_check local_client local_updateCommitIndex assms(1))

section \<open>Messages from a leader\<close>

text \<open>What the specification sees of a message from the leader \<open>l\<close> of term \<open>T\<close>.\<close>

definition follows :: "int \<Rightarrow> 'db node \<Rightarrow> 'db node \<Rightarrow> bool" where
  "follows T s t \<longleftrightarrow> t = s \<or> (currentTerm s \<le> T \<and> currentTerm t = T \<and> nstate t = FOLLOWER \<and>
     votedFor t = (if currentTerm s < T \<or> nstate s \<noteq> FOLLOWER then -1 else votedFor s))"

lemma appendLoop_entries: "set (logs (fst (appendLoop es s b))) \<subseteq> set (logs s) \<union> set es"
proof (induction es s b rule: appendLoop.induct)
  case (2 e es s b)
  then show ?case
    by (auto simp: Let_def dest!: subsetD dest: in_set_takeD)
qed simp

lemma ae_append_vote [frame]:
  "votedFor (ae_append args s) = votedFor (stepDown (ae_term args) (ae_leaderId args) s)"
  using appendLoop_frame [of "ae_entries args" "stepDown (ae_term args) (ae_leaderId args) s" False]
  by (auto simp: ae_append_def split_beta frame)

lemma ae_append_no_config:
  "no_config (logs s) \<Longrightarrow> no_config (ae_entries args) \<Longrightarrow> no_config (logs (ae_append args s))"
  using appendLoop_entries [of "ae_entries args" "stepDown (ae_term args) (ae_leaderId args) s" False]
  by (auto simp: ae_append_def split_beta frame no_config_def)

lemma ae_commit_no_config:
  assumes "no_config (logs s)"
  shows "nstate (ae_commit L args s) = nstate s" "same_member s (ae_commit L args s)"
    "no_config (logs (ae_commit L args s))" "votedFor (ae_commit L args s) = votedFor s"
  using applyCommittedLogs_no_config [of "s\<lparr>commitIndex := i\<rparr>" L for i] assms
  by (simp_all add: ae_commit_def same_member_def frame)

lemma stepDown_follows: "currentTerm s \<le> T \<Longrightarrow> follows T s (stepDown T l s)"
  by (auto simp: follows_def effect)

lemma same_stepDown: "same_member s (stepDown T l s)"
  by (simp add: same_member_def frame)

lemma handleAppendEntries_member:
  fixes s :: "'db node" and L :: "'db leveldb"
  assumes "no_config (logs s)" and "no_config (ae_entries args)"
  defines "t \<equiv> snd (handleAppendEntries L args s)"
  shows "same_member s t \<and> no_config (logs t) \<and> follows (ae_term args) s t"
proof (cases rule: handleAppendEntries_cases [of args s])
  case rejected
  with assms(1) show ?thesis
    by (simp add: t_def handleAppendEntries_rejected same_member_def follows_def)
next
  case stale
  with assms(1) show ?thesis
    by (simp add: t_def handleAppendEntries_stale same_stepDown frame)
      (simp add: ae_accepted_def stepDown_follows)
next
  case mismatch
  with assms(1) show ?thesis
    by (simp add: t_def handleAppendEntries_mismatch same_stepDown frame)
      (simp add: ae_accepted_def stepDown_follows)
next
  case matched
  let ?a = "ae_append args s"
  have n: "no_config (logs ?a)"
    using assms(1,2) by (rule ae_append_no_config)
  note c = ae_commit_no_config [OF n, of L args]
  have "same_member s ?a"
    by (simp add: same_member_def frame)
  with c have "same_member s (ae_commit L args ?a)"
    by (simp add: same_member_def)
  moreover have "follows (ae_term args) s (ae_commit L args ?a)"
    using matched(1) c by (simp add: follows_def ae_append_term frame effect) (simp add: ae_accepted_def)
  ultimately show ?thesis
    using matched c by (simp add: t_def handleAppendEntries_matched)
qed

lemma handleInstallSnapshot_member:
  fixes s :: "'db node" and L :: "'db leveldb" and args :: InstallSnapshotArgs
  assumes "no_config (logs s)"
  defines "t \<equiv> snd (handleInstallSnapshot L args s)"
  shows "same_member s t \<and> no_config (logs t) \<and> follows (sn_term args) s t"
proof (cases "currentTerm s \<le> sn_term args")
  case False
  with assms(1) show ?thesis
    by (simp add: t_def handleInstallSnapshot_rejected same_member_def follows_def)
next
  case True
  have "no_config (filter P (logs s))" for P
    using assms(1) by (rule no_config_part) auto
  with True assms(1) show ?thesis
    by (cases "lastIncludedIndex s < sn_lastIncludedIndex args")
      (simp_all add: t_def handleInstallSnapshot_simps sn_install_def same_member_def follows_def
        frame effect)
qed

lemma member_no_config: "member_ok C i s \<Longrightarrow> no_config (logs s)"
  by (simp add: member_ok_def)

end
