(* ===== verification/Restart.thy ===== *)
theory Restart
  imports Handler_Facts
begin

text \<open>
  Restarting a node from the files it left behind: the Raft state comes from the state file
  (\<open>RaftNode::loadPersistentState\<close>), the database is where the last write left it, and the log is
  applied again from \<open>lastIncludedIndex\<close> on.
\<close>

section \<open>Restart\<close>

text \<open>The node that the program makes after a crash of \<open>s\<close>, from the files \<open>s\<close> left behind.\<close>

definition restarted :: "'db leveldb \<Rightarrow> int \<Rightarrow> int \<Rightarrow> 'db node \<Rightarrow> 'db node" where
  "restarted L now r s =
     RaftNode_new (L\<lparr>ldb_Open := \<lambda>_. kv_db (kvStore s)\<rparr>) (nid s) (st_file (storage s)) True now r"

lemma restarted_fields:
  assumes "durable s" and "saved_ok (persistent_of s)" and "log_wf s"
  shows "nid (restarted L now r s) = nid s" "currentTerm (restarted L now r s) = currentTerm s"
    "votedFor (restarted L now r s) = votedFor s" "logs (restarted L now r s) = logs s"
    "lastIncludedIndex (restarted L now r s) = lastIncludedIndex s"
    "lastIncludedTerm (restarted L now r s) = lastIncludedTerm s"
    "commitIndex (restarted L now r s) = lastIncludedIndex s"
    "lastApplied (restarted L now r s) = lastIncludedIndex s"
    "nstate (restarted L now r s) = FOLLOWER" "electionTimeoutMs (restarted L now r s) = 1500 + r mod 1500"
    "kv_db (kvStore (restarted L now r s)) = kv_db (kvStore s)"
proof -
  have "load_text (save_text (persistent_of s)) = Some (persistent_of s)"
    using assms(2) by (rule load_text_save)
  then have ld: "storage_load (mk_PersistentStorage n (st_file (storage s)) w) = Some (persistent_of s)" for n w
    using assms(1) by (simp add: storage_load_def durable_def mk_PersistentStorage_def)
  have keep: "filter (\<lambda>e. lastIncludedIndex s < le_index e) (logs s) = logs s"
    using assms(3) numbered_from_filter [of le_index "lastIncludedIndex s" "logs s" "lastIncludedIndex s"]
    by (simp add: log_wf_def)
  note d = restarted_def RaftNode_new_def loadPersistentState_def ld persistent_of_def keep
  show "nid (restarted L now r s) = nid s" "currentTerm (restarted L now r s) = currentTerm s"
    "votedFor (restarted L now r s) = votedFor s" "logs (restarted L now r s) = logs s"
    "lastIncludedIndex (restarted L now r s) = lastIncludedIndex s"
    "lastIncludedTerm (restarted L now r s) = lastIncludedTerm s"
    "commitIndex (restarted L now r s) = lastIncludedIndex s"
    "lastApplied (restarted L now r s) = lastIncludedIndex s"
    "nstate (restarted L now r s) = FOLLOWER" "electionTimeoutMs (restarted L now r s) = 1500 + r mod 1500"
    by (simp_all add: d)
  show "kv_db (kvStore (restarted L now r s)) = kv_db (kvStore s)"
    by (simp add: d kv_open_def KVStore_new_def split: option.split)
qed

lemma restarted_ok:
  assumes "node_ok s" and "durable s" and "saved_ok (persistent_of s)"
  shows "node_ok (restarted L now r s)"
proof -
  note n = node_okD [OF assms(1)]
  note f = restarted_fields [OF assms(2,3) n(1), of L now r]
  from n f show ?thesis
    by (auto simp: node_ok_def node_inv_def log_wf_def idx_wf_def timer_wf_def lead_wf_def
        getLastLogIndex_def)
qed

text \<open>What the state machine of a node is: the log from the snapshot on, applied to what the snapshot stands for.\<close>

definition kv_reflects :: "('db \<Rightarrow> string \<rightharpoonup> string) \<Rightarrow> (string \<rightharpoonup> string) \<Rightarrow> 'db node \<Rightarrow> bool" where
  "kv_reflects view m s \<longleftrightarrow> kv_ready (kvStore s) \<and>
     kv_look view (kvStore s) = fold entry_effect (log_slice (lastIncludedIndex s) (lastApplied s) s) m"

lemma log_slice_append:
  assumes "lastIncludedIndex s \<le> a" and "a \<le> b" and "b \<le> c"
  shows "log_slice a b s @ log_slice b c s = log_slice a c s"
proof -
  have "nat (b - lastIncludedIndex s) = nat (b - a) + nat (a - lastIncludedIndex s)"
    and "nat (c - a) = nat (b - a) + nat (c - b)"
    using assms by linarith+
  then show ?thesis
    by (simp add: log_slice_def take_add)
qed

context healthy_leveldb
begin

lemma applied_look:
  assumes "node_ok s" and "kv_ready (kvStore s)" and "commitIndex s \<le> c" and "c \<le> getLastLogIndex s"
  shows "kv_look view (kvStore (applyCommittedLogs L (s\<lparr>commitIndex := c\<rparr>))) =
    fold entry_effect (log_slice (lastApplied s) c s) (kv_look view (kvStore s))"
proof -
  let ?t = "s\<lparr>commitIndex := c\<rparr>"
  have "log_wf ?t" "lastIncludedIndex ?t \<le> lastApplied ?t" "lastApplied ?t \<le> commitIndex ?t"
    "commitIndex ?t \<le> getLastLogIndex ?t"
    using node_okD [OF assms(1)] assms(3,4) by (auto simp: log_wf_def getLastLogIndex_def)
  from applyCommittedLogs_effect(1) [OF this, of L] show ?thesis
    using assms(2) by (simp add: kv.look_fold log_slice_def)
qed

text \<open>Replaying the log over a database that is ahead of the snapshot gives what was there.\<close>

lemma restart_replays_aux:
  assumes "node_ok s" and "durable s" and "saved_ok (persistent_of s)" and "kv_reflects view m s"
    and "commitIndex s \<le> c" and "c \<le> getLastLogIndex s"
  shows "kv_look view (kvStore (applyCommittedLogs L (restarted L now r s\<lparr>commitIndex := c\<rparr>))) =
    kv_look view (kvStore (applyCommittedLogs L (s\<lparr>commitIndex := c\<rparr>)))"
proof -
  let ?t = "restarted L now r s"
  note n = node_okD [OF assms(1)]
  note f = restarted_fields [OF assms(2,3) n(1), of L now r]
  have t: "node_ok ?t"
    using assms(1-3) by (rule restarted_ok)
  have ready: "kv_ready (kvStore s)" "kv_ready (kvStore ?t)"
    and look: "kv_look view (kvStore ?t) = kv_look view (kvStore s)"
    using assms(4) f by (auto simp: kv_reflects_def kv_ready_def kv_look_def)
  have slice: "log_slice (lastIncludedIndex s) c ?t = log_slice (lastIncludedIndex s) c s"
    using f by (intro log_slice_cong)
  have c: "commitIndex ?t \<le> c" "c \<le> getLastLogIndex ?t"
    using n f assms(5,6) by (auto simp: getLastLogIndex_def)
  have split: "log_slice (lastIncludedIndex s) (lastApplied s) s @ log_slice (lastApplied s) c s =
      log_slice (lastIncludedIndex s) c s"
    using n assms(5) by (intro log_slice_append) auto
  have "kv_look view (kvStore (applyCommittedLogs L (?t\<lparr>commitIndex := c\<rparr>))) =
      fold entry_effect (log_slice (lastIncludedIndex s) c s)
        (fold entry_effect (log_slice (lastIncludedIndex s) (lastApplied s) s) m)"
    using applied_look [OF t ready(2) c] assms(4) by (simp add: f slice look kv_reflects_def)
  also have "\<dots> = fold entry_effect (log_slice (lastIncludedIndex s) c s) m"
    unfolding split [symmetric] by (rule effects_replay)
  also have "\<dots> = kv_look view (kvStore (applyCommittedLogs L (s\<lparr>commitIndex := c\<rparr>)))"
    using applied_look [OF assms(1) ready(1) assms(5,6)] assms(4)
    by (simp add: kv_reflects_def flip: split)
  finally show ?thesis .
qed

end

context healthy_leveldb
begin

lemma snapshot_look:
  assumes "kv_ready s" and "kv_ready s'"
  shows "kv_ready (kv_loadFromSnapshot L (kv_dump L s) s')"
    and "kv_look view (kv_loadFromSnapshot L (kv_dump L s) s') = kv_look view s"
  using assms by (simp_all add: kv.ready_load kv.transfer)

lemma snapshot_loaded:
  "kv_ready s \<Longrightarrow> smap_ok m \<Longrightarrow> kv_look view (kv_loadFromSnapshot L m s) = map_of m"
  by (rule kv.look_load)

text \<open>Entries applied on top of contents that are ahead, up to an index past these contents.\<close>

lemma reflects_replay:
  assumes "node_ok s" and "kv_reflects view m s" and "commitIndex s \<le> c" and "c \<le> getLastLogIndex s"
  shows "fold entry_effect (log_slice (lastIncludedIndex s) c s) (kv_look view (kvStore s)) =
    kv_look view (kvStore (applyCommittedLogs L (s\<lparr>commitIndex := c\<rparr>)))"
proof -
  note n = node_okD [OF assms(1)]
  have split: "log_slice (lastIncludedIndex s) (lastApplied s) s @ log_slice (lastApplied s) c s =
      log_slice (lastIncludedIndex s) c s"
    using n assms(3) by (intro log_slice_append) auto
  have "fold entry_effect (log_slice (lastIncludedIndex s) c s) (kv_look view (kvStore s)) =
      fold entry_effect (log_slice (lastIncludedIndex s) c s) m"
    using assms(2) effects_replay [of "log_slice (lastIncludedIndex s) (lastApplied s) s"
        "log_slice (lastApplied s) c s" m]
    by (simp add: kv_reflects_def split)
  also have "\<dots> = kv_look view (kvStore (applyCommittedLogs L (s\<lparr>commitIndex := c\<rparr>)))"
    using applied_look [OF assms(1) _ assms(3,4)] assms(2)
    by (simp add: kv_reflects_def flip: split)
  finally show ?thesis .
qed

end

end
