(* ===== verification/Undisturbed.thy ===== *)
theory Undisturbed
  imports Cluster Restart
begin

text \<open>
  Leader operations that no other thread of the node interrupts: what replication leaves alone,
  and what an append followed by replication and commitment does to the state machine, up to the
  change of configuration that removes the leader itself. Then
  operations that other threads do interrupt, as long as these never lower the term.
\<close>

section \<open>Operations that run undisturbed\<close>

text \<open>
  No other thread of the node takes the mutex during the operation; the network is arbitrary.
\<close>

definition alone :: "('db, 'w) env \<Rightarrow> bool" where
  "alone E \<longleftrightarrow> (\<forall>w. acquire E w = w)"

lemma alone_calm: "alone E \<Longrightarrow> calm E"
  by (simp add: alone_def calm_def steady_refl)

lemma alone_locked:
  "alone E \<Longrightarrow> locked E f w = (fst (f (fst w)), (snd (f (fst w)), snd w))"
  "alone E \<Longrightarrow> locked_ub E g w = map_option (\<lambda>(r, s). (r, (s, snd w))) (g (fst w))"
  by (cases w; simp add: alone_def locked_def locked_ub_def split: prod.split option.split)+

text \<open>What replication leaves alone on the leader.\<close>

definition log_same :: "'db node \<Rightarrow> 'db node \<Rightarrow> bool" where
  "log_same s t \<longleftrightarrow> logs t = logs s \<and> lastIncludedIndex t = lastIncludedIndex s \<and>
     lastIncludedTerm t = lastIncludedTerm s \<and> commitIndex t = commitIndex s \<and>
     lastApplied t = lastApplied s \<and> kvStore t = kvStore s \<and> peers t = peers s \<and> (timer_wf s \<longrightarrow> timer_wf t) \<and>
     nid t = nid s \<and> configState t = configState s \<and> leaving t = leaving s \<and>
     (nstate t = nstate s \<or> nstate t = FOLLOWER)"

lemma log_same_refl: "log_same s s"
  by (simp add: log_same_def)

lemma log_same_trans: "log_same s t \<Longrightarrow> log_same t u \<Longrightarrow> log_same s u"
  by (auto simp: log_same_def)

lemma log_same_reply: "reply_step s t \<Longrightarrow> log_same s t"
  by (auto simp: reply_step_def log_same_def frame effect becomeFollower_timer_wf) (auto simp: timer_wf_def)

lemma log_same_ok: "node_ok s \<Longrightarrow> log_same s t \<Longrightarrow> lead_wf t \<Longrightarrow> node_ok t"
  by (auto simp: node_ok_def node_inv_def log_same_def log_wf_def idx_wf_def getLastLogIndex_def)

lemma replicateToPeer_log:
  assumes "alone E" and "replicateToPeer L E i w = Some (b, w')"
  shows "log_same (fst w) (fst w')"
  using assms(2)
  by (auto simp: replicateToPeer_def sendSnapshotToPeer_def alone_locked [OF assms(1)] log_same_refl
      send_to_def log_same_reply rtp_finish_reply sstp_finish_reply split: option.splits prod.splits bool.splits)

lemma replicateFrom_log:
  assumes "alone E" and "replicateFrom L E i w = Some w'"
  shows "log_same (fst w) (fst w')"
  using assms(2)
proof (induction "length (peers (fst w)) - i" arbitrary: i w rule: less_induct)
  case less
  show ?case
  proof (cases "i < length (peers (fst w))")
    case False
    with less.prems show ?thesis
      by (subst (asm) replicateFrom.simps) (simp add: log_same_refl)
  next
    case True
    with less.prems obtain b w1 where r: "replicateToPeer L E i w = Some (b, w1)"
      and r1: "replicateFrom L E (Suc i) w1 = Some w'"
      by (subst (asm) replicateFrom.simps) (auto simp: bind_eq_Some_conv)
    from replicateToPeer_log [OF assms(1) r] True have
      "log_same (fst w1) (fst w')"
      using r1 by (intro less.hyps) (auto simp: log_same_def)
    with replicateToPeer_log [OF assms(1) r] show ?thesis
      by (rule log_same_trans)
  qed
qed

lemma replicateAndCommit_alone:
  assumes "alone E" and "node_ok (fst w)"
  shows "\<exists>v w'. log_same (fst w) v \<and> node_ok v \<and>
    replicateAndCommit L E w = Some w' \<and> fst w' = updateCommitIndex L v"
proof -
  obtain w1 where w1: "replicateFrom L E 0 w = Some w1" "steady w w1"
    using replicateFrom_steady [OF alone_calm [OF assms(1)], of w L 0] node_okD(3) [OF assms(2)] by blast
  then have "log_same (fst w) (fst w1)" "node_ok (fst w1)"
    using replicateFrom_log [OF assms(1) w1(1)] log_same_ok [OF assms(2)] by (auto simp: steady_def)
  with w1(1) show ?thesis
    by (auto intro!: exI [of _ "fst w1"] simp add: replicateAndCommit_def alone_locked [OF assms(1)])
qed

lemma log_slice_all:
  "log_wf s \<Longrightarrow> lastIncludedIndex s \<le> a \<Longrightarrow>
     log_slice a (getLastLogIndex s) s = drop (nat (a - lastIncludedIndex s)) (logs s)"
  by (simp add: log_slice_def getLastLogIndex_eq)

text \<open>A committing step that reaches the end of a log that ends with \<open>e\<close>.\<close>

lemma commit_to_end:
  assumes "healthy_leveldb L view" and "node_ok v" and "kv_ready (kvStore v)" and "logs v = es @ [e]"
    and "commitIndex v < getLastLogIndex v" and "commitIndex (updateCommitIndex L v) \<ge> getLastLogIndex (updateCommitIndex L v)"
  shows "commitIndex (updateCommitIndex L v) = getLastLogIndex v"
    and "lastApplied (updateCommitIndex L v) = getLastLogIndex v"
    and "\<exists>m. kv_look view (kvStore (updateCommitIndex L v)) = entry_effect e m"
proof (atomize(full), cases rule: updateCommitIndex_cases [of L v])
  case (moved N)
  note n = node_okD [OF assms(2)]
  note c = commit_to_ok [OF assms(2) less_imp_le [OF moved(2)] moved(3), of L, folded moved(6)]
  have N: "N = getLastLogIndex v" "commitIndex (updateCommitIndex L v) = N"
    using moved(3,6) c(2) assms(6) by (simp_all add: frame)
  have "nat (lastApplied v - lastIncludedIndex v) \<le> length es"
    using n assms(4,5) by (simp add: getLastLogIndex_eq)
  then have "log_slice (lastApplied v) N v = drop (nat (lastApplied v - lastIncludedIndex v)) es @ [e]"
    using log_slice_all [OF n(1,7)] by (simp add: N assms(4))
  with healthy_leveldb.applied_look [OF assms(1-3) less_imp_le [OF moved(2)] moved(3)] moved(6) N c(4)
  show "commitIndex (updateCommitIndex L v) = getLastLogIndex v \<and>
      lastApplied (updateCommitIndex L v) = getLastLogIndex v \<and>
      (\<exists>m. kv_look view (kvStore (updateCommitIndex L v)) = entry_effect e m)"
    by auto
qed (use assms(5,6) in simp)

lemma appended_and_replicated:
  assumes "healthy_leveldb L view" and "alone E" and "node_ok s" and "kv_ready (kvStore s)"
    and "le_index e = getLastLogIndex s + 1"
    and "replicateAndCommit L E (appendLocal e s, x) = Some w'"
    and "commitIndex (fst w') \<ge> getLastLogIndex (fst w')"
  shows "commitIndex (fst w') = getLastLogIndex s + 1 \<and> lastApplied (fst w') = getLastLogIndex s + 1 \<and>
    (\<exists>m. kv_look view (kvStore (fst w')) = entry_effect e m)"
proof -
  note a = appendLocal_facts [OF assms(3,5)]
  obtain v where v: "log_same (appendLocal e s) v" "node_ok v" "fst w' = updateCommitIndex L v"
    using replicateAndCommit_alone [OF assms(2), of "(appendLocal e s, x)" L] a(1) assms(6) by auto
  have eq: "logs v = logs s @ [e]" "kvStore v = kvStore s" "commitIndex v = commitIndex s"
    "getLastLogIndex v = getLastLogIndex s + 1"
    using v(1) a(2) by (auto simp: log_same_def appendLocal_def frame getLastLogIndex_def)
  then have "kv_ready (kvStore v)" "commitIndex v < getLastLogIndex v"
    using assms(4) node_okD(5) [OF assms(3)] by simp_all
  from commit_to_end [OF assms(1) v(2) this(1) eq(1) this(2)] assms(7) v(3) eq(4) show ?thesis
    by simp
qed

section \<open>A change that removes the leader\<close>

text \<open>The entries of the log that are not applied yet.\<close>

definition waiting :: "'db node \<Rightarrow> LogEntry set" where
  "waiting s = set (log_slice (lastApplied s) (getLastLogIndex s) s)"

text \<open>An entry that starts a change without this node, or none about the configuration.\<close>

definition drops_node :: "int \<Rightarrow> LogEntry \<Rightarrow> bool" where
  "drops_node i e \<longleftrightarrow> le_op e \<noteq> CONFIG_NEW \<and> (le_op e = CONFIG_JOINT \<longrightarrow>
     cfg_contains \<lparr>cfg_nodes = le_oldConfig e\<rparr> i \<and> \<not> cfg_contains \<lparr>cfg_nodes = le_newConfig e\<rparr> i)"

text \<open>While such entries are applied, the node never leads in the joint configuration.\<close>

definition on_the_way_out :: "LogEntry set \<Rightarrow> int \<Rightarrow> 'db node \<Rightarrow> bool" where
  "on_the_way_out K i s \<longleftrightarrow> node_ok s \<and> nid s = i \<and>
     (\<forall>e \<in> set (logs s). e \<in> K \<or> le_op e = CONFIG_JOINT) \<and> (\<forall>e \<in> waiting s. drops_node i e) \<and>
     (configState s = JOINT \<longrightarrow> nstate s = FOLLOWER \<and> leaving s)"

lemma fold_drops_node:
  assumes "\<forall>e \<in> set es. drops_node i e" and "nid s = i" and "configState s = JOINT \<longrightarrow> nstate s = FOLLOWER \<and> leaving s"
    and "t = fold (\<lambda>e s. (applyOne L e s)\<lparr>lastApplied := lastApplied s + 1\<rparr>) es s"
  shows "nid t = i \<and> (configState t = JOINT \<longrightarrow> nstate t = FOLLOWER \<and> leaving t)"
  using assms
proof (induction es arbitrary: s)
  case (Cons e es)
  have "nid (applyOne L e s) = i \<and>
      (configState (applyOne L e s) = JOINT \<longrightarrow> nstate (applyOne L e s) = FOLLOWER \<and> leaving (applyOne L e s))"
    using Cons.prems(1-3)
    by (auto simp: applyOne_def applyConfigEntry_def Let_def drops_node_def rebuildPeersFromJointConfig_def frame
        cfg_contains_def)
  with Cons show ?case by simp
qed simp

lemma waiting_applied:
  assumes "node_ok s" and "commitIndex s \<le> N" and "N \<le> getLastLogIndex s"
    and "t = applyCommittedLogs L (s\<lparr>commitIndex := N\<rparr>)"
  shows "waiting t \<subseteq> waiting s" and "set (logs t) \<subseteq> set (logs s)"
proof -
  let ?v = "s\<lparr>commitIndex := N\<rparr>"
  note n = node_okD [OF assms(1)] and c = commit_to_ok [OF assms(1-3), of L, folded assms(4)]
  have wf: "log_wf ?v"
    using n(1) by (simp add: log_wf_def)
  have "lastIncludedIndex t \<le> N"
    using node_okD(7) [OF c(1)] c(4) by simp
  then have "log_slice N (getLastLogIndex s) t = log_slice N (getLastLogIndex s) ?v"
    unfolding assms(4) by (rule applyCommittedLogs_slice [OF wf])
  also have "\<dots> = log_slice N (getLastLogIndex s) s"
    by (rule log_slice_cong) simp_all
  finally have "waiting t = set (log_slice N (getLastLogIndex s) s)"
    by (simp add: waiting_def c(2,4))
  moreover have "log_slice (lastApplied s) N s @ log_slice N (getLastLogIndex s) s =
      log_slice (lastApplied s) (getLastLogIndex s) s"
    using n assms(2,3) by (intro log_slice_append) auto
  ultimately show "waiting t \<subseteq> waiting s"
    unfolding waiting_def by (metis Un_upper2 set_append)
  have "set (logs (maybeCreateSnapshot (applyLoop L ?v))) \<subseteq> set (logs (applyLoop L ?v))"
    by (auto simp: maybeCreateSnapshot_def createSnapshot_def Let_def frame)
  then show "set (logs t) \<subseteq> set (logs s)"
    by (simp add: assms(4) applyCommittedLogs_def frame)
qed

lemma on_the_way_out_same:
  assumes "on_the_way_out K i s" and "log_same s t" and "node_ok t"
  shows "on_the_way_out K i t"
  using assms unfolding on_the_way_out_def waiting_def log_same_def
  by (auto simp: getLastLogIndex_def log_slice_def)

lemma on_the_way_out_commit:
  assumes "on_the_way_out K i s"
  shows "on_the_way_out K i (updateCommitIndex L s)"
proof (cases rule: updateCommitIndex_cases [of L s])
  case same
  with assms show ?thesis by simp
next
  case (moved N)
  let ?v = "s\<lparr>commitIndex := N\<rparr>"
  let ?t = "applyCommittedLogs L ?v"
  note D = assms [unfolded on_the_way_out_def]
  then have ok: "node_ok s" by blast
  note n = node_okD [OF ok]
  have N: "commitIndex s \<le> N" using moved(2) by simp
  note c = commit_to_ok [OF ok N moved(3), of L] and w = waiting_applied [OF ok N moved(3) refl, of L]
  have wf: "log_wf ?v" "lastIncludedIndex ?v \<le> lastApplied ?v" "commitIndex ?v \<le> getLastLogIndex ?v"
    using n moved(3) by (auto simp: log_wf_def getLastLogIndex_def)
  have "set (log_slice (lastApplied s) N s) \<subseteq> waiting s"
  proof -
    have "log_slice (lastApplied s) N s @ log_slice N (getLastLogIndex s) s =
        log_slice (lastApplied s) (getLastLogIndex s) s"
      using n N moved(3) by (intro log_slice_append) auto
    then show ?thesis
      unfolding waiting_def by (metis Un_upper1 set_append)
  qed
  with D have "\<forall>e \<in> set (log_slice (lastApplied ?v) (commitIndex ?v) ?v). drops_node i e"
    by (auto simp: log_slice_def)
  moreover have "nid ?v = i" "configState ?v = JOINT \<longrightarrow> nstate ?v = FOLLOWER \<and> leaving ?v"
    using D by simp_all
  ultimately have "nid (applyLoop L ?v) = i \<and>
      (configState (applyLoop L ?v) = JOINT \<longrightarrow> nstate (applyLoop L ?v) = FOLLOWER \<and> leaving (applyLoop L ?v))"
    using applyLoop_fold [OF wf, of L] by (rule fold_drops_node)
  then have "nid ?t = i" "configState ?t = JOINT \<longrightarrow> nstate ?t = FOLLOWER \<and> leaving ?t"
    by (simp_all add: applyCommittedLogs_def frame)
  with c(1) w D moved(6) show ?thesis
    unfolding on_the_way_out_def by auto
qed

lemma on_the_way_out_replicate:
  assumes "alone E" and "on_the_way_out K i (fst w)"
  shows "\<exists>w'. replicateAndCommit L E w = Some w' \<and> on_the_way_out K i (fst w')"
proof -
  have "node_ok (fst w)"
    using assms(2) by (simp add: on_the_way_out_def)
  from replicateAndCommit_alone [OF assms(1) this, of L] obtain v w' where
    "log_same (fst w) v" "node_ok v" "replicateAndCommit L E w = Some w'" "fst w' = updateCommitIndex L v"
    by blast
  with on_the_way_out_same [OF assms(2)] on_the_way_out_commit [of K i v L] show ?thesis by auto
qed

lemma wait_on_the_way_out:
  assumes "alone E" and "on_the_way_out K i (fst w)"
  shows "\<exists>w'. wcs_loop L E JOINT timeoutMs waited w = Some (False, w') \<and> on_the_way_out K i (fst w')"
  using assms(2)
proof (induction "nat (timeoutMs - waited)" arbitrary: waited w rule: less_induct)
  case less
  show ?case
  proof (cases "waited < timeoutMs")
    case False
    with less.prems show ?thesis by (simp add: wcs_loop.simps [of L E])
  next
    case True
    note l = alone_locked(1) [OF assms(1), of "\<lambda>s. (wcs_check JOINT s, s)" w]
    show ?thesis
    proof (cases "wcs_check JOINT (fst w)")
      case None
      from on_the_way_out_replicate [OF assms(1) less.prems] obtain w2 where
        r: "replicateAndCommit L E w = Some w2" "on_the_way_out K i (fst w2)" by blast
      have "\<exists>w'. wcs_loop L E JOINT timeoutMs (waited + 20) (fst w2, sleep_ms E 20 (snd w2)) = Some (False, w') \<and>
          on_the_way_out K i (fst w')"
        using True r(2) by (intro less.hyps) auto
      with True None r(1) l show ?thesis by (simp add: wcs_loop.simps [of L E _ _ waited])
    next
      case (Some b)
      then have "\<not> b"
        using less.prems by (auto simp: wcs_check_def on_the_way_out_def split: if_splits)
      with True Some l less.prems show ?thesis by (simp add: wcs_loop.simps [of L E _ _ waited])
    qed
  qed
qed

lemma config_entry_waits:
  assumes "node_ok s" and "\<forall>e \<in> waiting s. drops_node (nid s) e" and "configState s = STABLE"
    and "removeNode_check (nid s) s = Some (oc, nc)"
    and "e = config_entry CONFIG_JOINT tag (cfg_nodes oc) (cfg_nodes nc) s"
  shows "on_the_way_out (set (logs s)) (nid s) (appendLocal e s)"
proof -
  have idx: "le_index e = getLastLogIndex s + 1"
    by (simp add: assms(5) config_entry_def)
  note n = node_okD [OF assms(1)] and a = appendLocal_facts [OF assms(1) idx]
  have "nat (lastApplied s - lastIncludedIndex s) \<le> length (logs s)"
    using n getLastLogIndex_eq [OF n(1)] by simp
  moreover have "lastApplied (appendLocal e s) = lastApplied s" "lastIncludedIndex (appendLocal e s) = lastIncludedIndex s"
    and logs: "logs (appendLocal e s) = logs s @ [e]"
    by (simp_all add: appendLocal_def frame)
  ultimately have "waiting (appendLocal e s) = insert e (waiting s)"
    using log_slice_all [OF n(1,7)] log_slice_all [OF node_okD(1) [OF a(1)] node_okD(7) [OF a(1)]]
    by (simp add: waiting_def)
  moreover have "drops_node (nid s) e"
    using assms(4,5) by (auto simp: removeNode_check_def drops_node_def config_entry_def cfg_contains_def Let_def
        list_ex_iff split: if_splits)
  moreover have "le_op e = CONFIG_JOINT"
    by (simp add: assms(5) config_entry_def)
  moreover have "nid (appendLocal e s) = nid s" "configState (appendLocal e s) = configState s"
    by (simp_all add: appendLocal_def frame)
  ultimately show ?thesis
    using a(1) assms(2,3) logs by (auto simp: on_the_way_out_def)
qed

section \<open>Terms do not go back\<close>

text \<open>What the other threads do meanwhile never lowers the term; then neither do the operations.\<close>

definition forward :: "('db, 'w) env \<Rightarrow> bool" where
  "forward E \<longleftrightarrow> (\<forall>w. currentTerm (fst w) \<le> currentTerm (fst (acquire E w)))"

text \<open>The term has not gone back.\<close>

definition later :: "('db, 'w) world \<Rightarrow> ('db, 'w) world \<Rightarrow> bool" where
  "later w w' \<longleftrightarrow> currentTerm (fst w) \<le> currentTerm (fst w')"

lemma later_trans: "later w1 w2 \<Longrightarrow> later w2 w3 \<Longrightarrow> later w1 w3"
  by (simp add: later_def)

lemma later_send: "send_to E p req w = (resp, w') \<Longrightarrow> later w w'"
  by (simp add: later_def send_to_node)

lemma later_locked:
  assumes "forward E" and "locked E f w = (r, w')" and "\<And>s. currentTerm s \<le> currentTerm (snd (f s))"
  shows "later w w'"
proof -
  have "currentTerm (fst (acquire E w)) \<le> currentTerm (fst w')"
    using assms(3) [of "fst (acquire E w)"] locked_result [OF assms(2)] by auto
  moreover have "currentTerm (fst w) \<le> currentTerm (fst (acquire E w))"
    using assms(1) unfolding forward_def by blast
  ultimately show ?thesis by (simp add: later_def)
qed

lemma later_read: "forward E \<Longrightarrow> locked E (\<lambda>s. (g s, s)) w = (r, w') \<Longrightarrow> later w w'"
  by (rule later_locked [where f = "\<lambda>s. (g s, s)"]) simp_all

lemma later_reply:
  assumes "forward E" and "locked_ub E g w = Some (r, w')" and "\<And>s b t. g s = Some (b, t) \<Longrightarrow> reply_step s t"
  shows "later w w'"
proof -
  have "reply_step (fst (acquire E w)) (fst w')"
    using assms(2,3) by (auto simp: locked_ub_def split: prod.splits option.splits)
  then have "currentTerm (fst (acquire E w)) \<le> currentTerm (fst w')"
    by (auto simp: reply_step_def effect frame)
  moreover have "currentTerm (fst w) \<le> currentTerm (fst (acquire E w))"
    using assms(1) unfolding forward_def by blast
  ultimately show ?thesis by (simp add: later_def)
qed

lemma later_replicateToPeer:
  assumes "forward E" and "replicateToPeer L E i w = Some (b, w')"
  shows "later w w'"
proof -
  note l = later_read [OF assms(1)]
  have u: "later w1 w2" if "locked_ub E (rtp_finish i T args reply) w1 = Some (b, w2)" for T args reply b w1 w2
    using assms(1) that by (rule later_reply) (rule rtp_finish_reply)
  have v: "later w1 w2" if "locked_ub E (sstp_finish i T reply) w1 = Some (b, w2)" for T reply b w1 w2
    using assms(1) that by (rule later_reply) (rule sstp_finish_reply)
  show ?thesis
    using assms(2)
    by (auto simp: replicateToPeer_def sendSnapshotToPeer_def split: option.splits prod.splits bool.splits
        dest!: l u v later_send) (auto simp: later_def)
qed

lemma later_replicateFrom:
  fixes E :: "('db, 'w) env"
  assumes "forward E"
  shows "replicateFrom L E i w = Some w' \<Longrightarrow> later w w'"
proof (rule replicateFrom.raw_induct [of "\<lambda>L E i w w'. forward E \<longrightarrow> later w w'" L E i w w', THEN mp])
  fix f :: "'db leveldb \<Rightarrow> ('db, 'w) env \<Rightarrow> nat \<Rightarrow> ('db, 'w) world \<Rightarrow> ('db, 'w) world option"
  fix L :: "'db leveldb" and E :: "('db, 'w) env" and i w w'
  assume IH: "\<And>L E i w w'. f L E i w = Some w' \<Longrightarrow> forward E \<longrightarrow> later w w'"
    and e: "(if i < length (peers (fst w)) then replicateToPeer L E i w \<bind> (\<lambda>r. f L E (Suc i) (snd r)) else Some w) = Some w'"
  show "forward E \<longrightarrow> later w w'"
  proof
    assume F: "forward E"
    show "later w w'"
    proof (cases "i < length (peers (fst w))")
      case True
      with e obtain b w1 where r: "replicateToPeer L E i w = Some (b, w1)" and f: "f L E (Suc i) w1 = Some w'"
        by (auto simp: bind_eq_Some_conv)
      from IH [OF f] F have "later w1 w'" by simp
      with later_replicateToPeer [OF F r] show ?thesis by (rule later_trans)
    next
      case False
      with e show ?thesis by (simp add: later_def)
    qed
  qed
qed (use assms in simp_all)

lemma later_replicateAndCommit:
  assumes "forward E" and "replicateAndCommit L E w = Some w'"
  shows "later w w'"
proof -
  obtain w1 where w1: "replicateFrom L E 0 w = Some w1"
    and w': "w' = snd (locked E (\<lambda>s. ((), updateCommitIndex L s)) w1)"
    using assms(2) by (auto simp: replicateAndCommit_def bind_eq_Some_conv)
  have "currentTerm (updateCommitIndex L s) = currentTerm s" for s
    by (cases rule: updateCommitIndex_cases [of L s]) (simp_all add: frame)
  then have "later w1 w'"
    using w' by (intro later_locked [OF assms(1), where f = "\<lambda>s. ((), updateCommitIndex L s)"]) (auto simp: prod_eq_iff)
  with later_replicateFrom [OF assms(1) w1] show ?thesis by (rule later_trans)
qed

lemma later_ensure:
  assumes "forward E" and "ensureCurrentTermCommitted L E w = Some (b, w')"
  shows "later w w'"
proof -
  note l = later_read [OF assms(1)]
  have a: "later w1 w2" if "locked E etc_append w1 = (r, w2)" for r w1 w2
    using assms(1) that by (rule later_locked) (simp add: etc_append_def appendLocal_def frame)
  show ?thesis
    using assms(2) later_replicateAndCommit [OF assms(1)]
    by (auto simp: ensureCurrentTermCommitted_def bind_eq_Some_conv split: option.splits prod.splits
        dest!: l a) (meson later_trans)+
qed

declare replicateFrom.simps [code]

end
