(* ===== verification/Cluster_Safety.thy ===== *)
theory Cluster_Safety
  imports Cluster
begin

text \<open>
  The cluster refines the election specification: every step of the cluster is a step of
  \<open>estep\<close> on the abstract state or leaves it alone, and keeps what the messages and the running
  campaigns promise. From it, one leader per term.
\<close>

section \<open>Every step keeps the invariant\<close>

lemma abs_set_node:
  "i \<in> ids_of C \<Longrightarrow> abs_cluster C (set_node i s c) =
     (abs_cluster C c)\<lparr>es_node := (es_node (abs_cluster C c))(i := enode_of s)\<rparr>"
  by (auto simp: abs_cluster_def set_node_def)

text \<open>The general form, for a step that also extends the ghosts.\<close>

lemma abs_update:
  "i \<in> ids_of C \<Longrightarrow> cl_node c' = (cl_node c)(i := s) \<Longrightarrow> abs_cluster C c' =
     (abs_cluster C c)\<lparr>es_node := (es_node (abs_cluster C c))(i := enode_of s),
       es_votes := cl_votes c', es_won := cl_won c'\<rparr>"
  by (auto simp: abs_cluster_def)

lemma abs_sel [simp]:
  "es_votes (abs_cluster C c) = cl_votes c" "es_won (abs_cluster C c) = cl_won c"
  by (simp_all add: abs_cluster_def)

lemma abs_same [simp]:
  "(abs_cluster C c)\<lparr>es_node := N, es_votes := cl_votes c, es_won := cl_won c\<rparr> =
     (abs_cluster C c)\<lparr>es_node := N\<rparr>"
  "(abs_cluster C c)\<lparr>es_node := N, es_votes := V, es_won := cl_won c\<rparr> =
     (abs_cluster C c)\<lparr>es_node := N, es_votes := V\<rparr>"
  "(abs_cluster C c)\<lparr>es_node := N, es_votes := cl_votes c, es_won := W\<rparr> =
     (abs_cluster C c)\<lparr>es_node := N, es_won := W\<rparr>"
  by (simp_all add: abs_cluster_def)

lemma abs_node: "i \<in> ids_of C \<Longrightarrow> es_node (abs_cluster C c) i = enode_of (cl_node c i)"
  by (simp add: abs_cluster_def)

text \<open>What the specification sees of a step of the cluster: one of its steps, or nothing.\<close>

definition spec_step :: "PeerInfo list \<Rightarrow> estate \<Rightarrow> estate \<Rightarrow> bool" where
  "spec_step C S S' \<longleftrightarrow> S' = S \<or> estep (cluster_decides C) S S'"

lemma spec_stepI: "estep (cluster_decides C) S S' \<Longrightarrow> spec_step C S S'"
  by (simp add: spec_step_def)

lemma spec_step_einv: "spec_step C S S' \<Longrightarrow> einv (cluster_decides C) S \<Longrightarrow> einv (cluster_decides C) S'"
  by (auto simp: spec_step_def intro: cluster.step_einv)

lemma spec_step_steps: "spec_step C S S' \<Longrightarrow> (estep (cluster_decides C))\<^sup>*\<^sup>* S S'"
  by (auto simp: spec_step_def)

lemma quiet_spec:
  assumes "es_node S i = enode_of s" and "quiet s t"
  shows "spec_step C S (S\<lparr>es_node := (es_node S)(i := enode_of t)\<rparr>)"
proof -
  let ?D = "cluster_decides C"
  consider "enode_of t = enode_of s"
    | "currentTerm s < currentTerm t" "votedFor t = -1" "nstate t = FOLLOWER"
    | "currentTerm t = currentTerm s" "votedFor t = votedFor s" "nstate t = FOLLOWER"
    using assms(2) by (auto simp: quiet_def)
  then show ?thesis
  proof cases
    case 1
    with assms(1) have "S\<lparr>es_node := (es_node S)(i := enode_of t)\<rparr> = S"
      by (metis estate.surjective estate.update_convs(1) fun_upd_triv)
    then show ?thesis by (simp add: spec_step_def)
  next
    case 2
    with estep.bump [of S i "currentTerm t" ?D] assms(1) show ?thesis
      by (intro spec_stepI) (simp add: enode_of_def)
  next
    case 3
    with estep.restart [of ?D S i] assms(1) show ?thesis
      by (intro spec_stepI) (simp add: enode_of_def)
  qed
qed

lemma follows_spec:
  assumes "es_node S i = enode_of s" and "follows T s t" and "(T, l) \<in> es_won S" and "l \<noteq> i"
  shows "spec_step C S (S\<lparr>es_node := (es_node S)(i := enode_of t)\<rparr>)"
proof (cases "currentTerm t = T \<and> currentTerm s = T \<and> nstate s \<noteq> FOLLOWER \<and> votedFor t = -1 \<and> nstate t = FOLLOWER")
  case True
  with estep.defer_to [of S i l "cluster_decides C"] assms(1,3,4) show ?thesis
    by (intro spec_stepI) (simp add: enode_of_def)
next
  case False
  with assms(2) have "quiet s t"
    by (auto simp: follows_def quiet_def split: if_split_asm)
  with assms(1) show ?thesis by (rule quiet_spec)
qed

text \<open>Messages and campaigns stay sound while votes and wins only grow.\<close>

lemma net_camp_mono:
  assumes "cl_votes c \<subseteq> cl_votes c'" and "cl_won c \<subseteq> cl_won c'"
  shows "net_ok C c \<Longrightarrow> cl_net c' = cl_net c \<Longrightarrow> net_ok C c'"
    and "camp_ok c \<Longrightarrow> cl_camp c' = cl_camp c \<Longrightarrow> camp_ok c'"
  using assms unfolding net_ok_def camp_ok_def
  by (fastforce split: packet.splits)+


lemma local_cstep:
  assumes "cl_inv C c" and "einv (cluster_decides C) (abs_cluster C c)" and "i \<in> ids_of C"
    and "local_ok C i (cl_node c i) s"
  shows "cl_inv C (set_node i s c) \<and> spec_step C (abs_cluster C c) (abs_cluster C (set_node i s c))"
proof
  have "net_ok C (set_node i s c)" "camp_ok (set_node i s c)"
    using assms(1) net_camp_mono [of c "set_node i s c"] by (simp_all add: cl_inv_def set_node_def)
  with assms(1,4) show "cl_inv C (set_node i s c)"
    by (auto simp: cl_inv_def set_node_def local_ok_def)
  show "spec_step C (abs_cluster C c) (abs_cluster C (set_node i s c))"
    using quiet_spec [OF abs_node [OF assms(3), of c]] assms(3,4)
    by (simp add: abs_set_node local_ok_def)
qed

lemma leader_msg_cstep:
  assumes "cl_inv C c" and "einv (cluster_decides C) (abs_cluster C c)" and "j \<in> ids_of C"
    and "same_member (cl_node c j) s" and "synced (cl_node c j) s" and "no_config (logs s)"
    and "follows T (cl_node c j) s" and "(T, l) \<in> cl_won c" and "l \<noteq> j"
  shows "cl_inv C (set_node j s c) \<and> spec_step C (abs_cluster C c) (abs_cluster C (set_node j s c))"
proof
  have "net_ok C (set_node j s c)" "camp_ok (set_node j s c)"
    using assms(1) net_camp_mono [of c "set_node j s c"] by (simp_all add: cl_inv_def set_node_def)
  moreover have "member_ok C j s"
    using assms(1,3) member_step [OF _ assms(4-6)] by (simp add: cl_inv_def)
  ultimately show "cl_inv C (set_node j s c)"
    using assms(1) by (auto simp: cl_inv_def set_node_def)
  show "spec_step C (abs_cluster C c) (abs_cluster C (set_node j s c))"
    using follows_spec [OF abs_node [OF assms(3)] assms(7), of l] assms(3,8,9)
    by (simp add: abs_set_node)
qed

lemma start_election_cstep:
  assumes "config_valid C" and "cl_inv C c" and "einv (cluster_decides C) (abs_cluster C c)"
    and "i \<in> ids_of C" and "se_begin (cl_node c i) = (Some args, s)"
  defines "c' \<equiv> set_node i s (c\<lparr>cl_net := cl_net c \<union> (\<lambda>p. VoteReq (pi_id p) args) ` set (peers s),
       cl_camp := (cl_camp c)(i \<mapsto> (args, [rv_candidateId args])),
       cl_votes := insert (i, rv_term args, rv_candidateId args) (cl_votes c)\<rparr>)"
  shows "cl_inv C c' \<and> spec_step C (abs_cluster C c) (abs_cluster C c')"
proof
  let ?n = "cl_node c i"
  have m: "member_ok C i ?n"
    using assms(2,4) by (simp add: cl_inv_def)
  have s: "s = becomeCandidate ?n" and args: "rv_term args = currentTerm ?n + 1" "rv_candidateId args = i"
    using assms(5) m by (auto simp: se_begin_def Let_def frame effect member_ok_def split: if_splits)
  have i: "i \<noteq> -1"
    using assms(1,4) by (auto simp: config_valid_def)
  have "member_ok C i s"
    using member_step [OF m, of s] synced_becomeCandidate [OF member_writable [OF m]] m
    by (simp add: s same_member_def frame member_no_config)
  moreover have "net_ok C c'" "camp_ok c'"
    using assms(2) args i \<open>member_ok C i s\<close>
    by (auto simp: cl_inv_def net_ok_def camp_ok_def c'_def set_node_def member_ok_def
        split: packet.splits if_splits)
  ultimately show "cl_inv C c'"
    using assms(2) by (auto simp: cl_inv_def c'_def set_node_def)
  have "estep (cluster_decides C) (abs_cluster C c) (abs_cluster C c')"
    using estep.campaign [OF i, of "cluster_decides C" "abs_cluster C c"] assms(4)
      abs_update [OF assms(4), of c' c s]
    using m by (simp add: c'_def set_node_def abs_node enode_of_def s effect args member_ok_def)
  then show "spec_step C (abs_cluster C c) (abs_cluster C c')"
    by (rule spec_stepI)
qed

lemma request_vote_cstep:
  assumes "cl_inv C c" and "einv (cluster_decides C) (abs_cluster C c)"
    and "j \<in> ids_of C" and "VoteReq j args \<in> cl_net c"
    and "handleRequestVote args (cl_node c j) = (reply, s)"
  defines "c' \<equiv> set_node j s (c\<lparr>cl_net := insert (VoteRep j args reply) (cl_net c),
       cl_votes := (if rvr_voteGranted reply then insert (j, rv_term args, rv_candidateId args) (cl_votes c)
                    else cl_votes c)\<rparr>)"
  shows "cl_inv C c' \<and> spec_step C (abs_cluster C c) (abs_cluster C c')"
proof
  let ?n = "cl_node c j"
  have m: "member_ok C j ?n"
    using assms(1,3) by (simp add: cl_inv_def)
  have "same_member ?n s" "logs s = logs ?n" "synced ?n s"
    using handleRequestVote_frame [of args ?n] synced_handleRequestVote [OF member_writable [OF m], of args]
    by (simp_all add: assms(5) same_member_def)
  with member_step [OF m, of s] m have ms: "member_ok C j s"
    by (simp add: member_no_config)
  have "net_ok C c'" "camp_ok c'"
    using assms(1) unfolding cl_inv_def net_ok_def camp_ok_def c'_def set_node_def
    by (auto split: packet.splits)
  with ms assms(1) show "cl_inv C c'"
    by (auto simp: cl_inv_def c'_def set_node_def)
  have cand: "rv_candidateId args \<noteq> j" "rv_candidateId args \<noteq> -1"
    using assms(1,4) by (auto simp: cl_inv_def net_ok_def dest!: bspec)
  show "spec_step C (abs_cluster C c) (abs_cluster C c')"
  proof (cases "rvr_voteGranted reply")
    case True
    note g = handleRequestVote_granted [OF assms(5) True]
    let ?S = "abs_cluster C c"
    let ?e = "\<lparr>e_term = rv_term args, e_vote = rv_candidateId args,
      e_role = (if e_term (es_node ?S j) < rv_term args then FOLLOWER else e_role (es_node ?S j))\<rparr>"
    have "e_term (es_node ?S j) < rv_term args \<or>
        e_term (es_node ?S j) = rv_term args \<and> e_vote (es_node ?S j) \<in> {-1, rv_candidateId args}"
      using g(3,7) assms(3) by (auto simp: abs_node enode_of_def)
    note step = estep.grant [OF cand this, of "cluster_decides C"]
    have "enode_of s = ?e"
      using g(3,4,5,9,10) assms(3) by (auto simp: abs_node enode_of_def)
    then have "abs_cluster C c' = ?S\<lparr>es_node := (es_node ?S)(j := ?e),
        es_votes := insert (j, rv_term args, rv_candidateId args) (es_votes ?S)\<rparr>"
      using abs_update [OF assms(3), of c' c s] True
      by (simp add: c'_def set_node_def)
    with spec_stepI [OF step] show ?thesis
      by simp
  next
    case False
    from handleRequestVote_not_granted(1) [OF assms(5) False] have "quiet ?n s"
      by (auto simp: quiet_same quiet_becomeFollower)
    from quiet_spec [OF abs_node [OF assms(3)] this] abs_update [OF assms(3), of c' c s] False
    show ?thesis
      by (simp add: c'_def set_node_def)
  qed
qed


text \<open>What \<open>se_reply\<close> can do to the node and to the campaign.\<close>

lemma se_reply_cases:
  assumes "se_reply T peer reply granted s = (res, t)"
  obtains (ended) "res = None" "t = s"
  | (behind) "res = None" "t = becomeFollower (rvr_term reply) s" "currentTerm s < rvr_term reply"
  | (won) "res = None" "t = becomeLeader s" "nstate s = CANDIDATE" "currentTerm s = T"
      "rvr_voteGranted reply" "hasElectionMajority (granted @ [peer]) s"
  | (counted) "res = Some (granted @ [peer])" "t = s" "nstate s = CANDIDATE" "rvr_voteGranted reply"
  | (refused) "res = Some granted" "t = s" "nstate s = CANDIDATE"
  using assms by (auto simp: se_reply_def Let_def split: if_splits)

lemma becomeLeader_member:
  assumes "member_ok C i s"
  shows "member_ok C i (becomeLeader s)"
proof -
  have "same_member s (becomeLeader s)" "logs (becomeLeader s) = logs s"
    by (simp_all add: same_member_def becomeLeader_def frame)
  moreover have "synced s (becomeLeader s)"
    by (rule synced_same) (simp_all add: becomeLeader_def frame)
  ultimately show ?thesis
    using member_step [OF assms, of "becomeLeader s"] assms by (simp add: member_no_config)
qed

lemma count_vote_cstep:
  assumes "cl_inv C c" and "einv (cluster_decides C) (abs_cluster C c)"
    and "i \<in> ids_of C" and "cl_camp c i = Some (args, granted)" and "VoteRep j args reply \<in> cl_net c"
    and "se_reply (rv_term args) j reply granted (cl_node c i) = (res, s)"
  defines "c' \<equiv> set_node i s (c\<lparr>cl_camp := (cl_camp c)(i := map_option (Pair args) res),
       cl_won := (if nstate s = LEADER then insert (currentTerm s, i) (cl_won c) else cl_won c)\<rparr>)"
  shows "cl_inv C c' \<and> spec_step C (abs_cluster C c) (abs_cluster C c')"
proof
  let ?n = "cl_node c i"
  let ?D = "cluster_decides C"
  let ?S = "abs_cluster C c"
  have m: "member_ok C i ?n"
    using assms(1,3) by (simp add: cl_inv_def)
  have votes: "rv_candidateId args = i" "\<And>g. g \<in> set granted \<Longrightarrow> (g, rv_term args, i) \<in> cl_votes c"
    using assms(1,4) by (auto simp: cl_inv_def camp_ok_def)
  have vote: "(j, rv_term args, i) \<in> cl_votes c" if "rvr_voteGranted reply"
    using assms(1,5) that votes(1) by (auto simp: cl_inv_def net_ok_def dest!: bspec)
  have ms: "member_ok C i s"
    using assms(6)
  proof (cases rule: se_reply_cases)
    case behind
    then show ?thesis using local_becomeFollower [OF m] by (simp add: local_ok_def)
  next
    case won
    then show ?thesis using becomeLeader_member [OF m] by simp
  qed (use m in simp_all)
  have "cl_votes c \<subseteq> cl_votes c'" "cl_won c \<subseteq> cl_won c'" "cl_net c' = cl_net c" "net_ok C c"
    using assms(1) by (auto simp: cl_inv_def c'_def set_node_def)
  then have "net_ok C c'"
    using net_camp_mono(1) by blast
  moreover have "camp_ok c'"
    unfolding camp_ok_def
  proof (intro allI impI)
    fix k a g
    assume k: "cl_camp c' k = Some (a, g)"
    show "rv_candidateId a = k \<and> (\<forall>x \<in> set g. (x, rv_term a, k) \<in> cl_votes c')"
    proof (cases "k = i")
      case False
      with k assms(1) show ?thesis
        by (auto simp: cl_inv_def camp_ok_def c'_def set_node_def)
    next
      case True
      with k have "res = Some g" "a = args" by (auto simp: c'_def set_node_def)
      from assms(6) this(1) have "set g \<subseteq> set granted \<or> rvr_voteGranted reply \<and> set g \<subseteq> insert j (set granted)"
        by (cases rule: se_reply_cases) auto
      with votes vote True \<open>a = args\<close> show ?thesis
        by (auto simp: c'_def set_node_def)
    qed
  qed
  ultimately show "cl_inv C c'"
    using assms(1) ms by (auto simp: cl_inv_def c'_def set_node_def)
  have quiet: "spec_step C ?S (abs_cluster C c')" if "quiet ?n s" "cl_won c' = cl_won c"
  proof -
    have "cl_node c' = (cl_node c)(i := s)" "cl_votes c' = cl_votes c"
      by (simp_all add: c'_def set_node_def)
    with abs_update [OF assms(3) this(1)] that(2) show ?thesis
      using quiet_spec [OF abs_node [OF assms(3)] that(1)] by simp
  qed
  have known: "cl_won c' = cl_won c" if "s = ?n"
  proof (cases "nstate s = LEADER")
    case True
    with einvD(13) [OF assms(2), of i] abs_node [OF assms(3), of c] that
    have "(currentTerm s, i) \<in> cl_won c" by (simp add: enode_of_def abs_cluster_def)
    then show ?thesis by (auto simp: c'_def set_node_def)
  qed (simp add: c'_def set_node_def)
  show "spec_step C ?S (abs_cluster C c')"
    using assms(6)
  proof (cases rule: se_reply_cases)
    case ended
    then show ?thesis by (intro quiet) (simp_all add: quiet_same known)
  next
    case counted
    then show ?thesis by (intro quiet) (simp_all add: quiet_same known)
  next
    case refused
    then show ?thesis by (intro quiet) (simp_all add: quiet_same known)
  next
    case behind
    then show ?thesis
      by (intro quiet) (simp_all add: quiet_becomeFollower c'_def set_node_def effect)
  next
    case won
    have f: "currentTerm s = currentTerm ?n" "votedFor s = votedFor ?n" "nstate s = LEADER"
      using won(2) by (simp_all add: becomeLeader_def frame)
    have "?D (set (granted @ [j]))"
      using won(6) member_decides [OF m] by (simp add: hasElectionMajority_iff)
    moreover have "(g, e_term (es_node ?S i), i) \<in> es_votes ?S" if "g \<in> set (granted @ [j])" for g
      using that votes(2) vote won(4,5) assms(3) by (auto simp: abs_node enode_of_def)
    moreover have "e_role (es_node ?S i) = CANDIDATE"
      using won(3) assms(3) by (simp add: abs_node enode_of_def)
    ultimately have "estep ?D ?S (?S\<lparr>es_node := (es_node ?S)(i := (es_node ?S i)\<lparr>e_role := LEADER\<rparr>),
        es_won := insert (e_term (es_node ?S i), i) (es_won ?S)\<rparr>)"
      by (intro estep.win)
    moreover have "abs_cluster C c' = ?S\<lparr>es_node := (es_node ?S)(i := (es_node ?S i)\<lparr>e_role := LEADER\<rparr>),
        es_won := insert (e_term (es_node ?S i), i) (es_won ?S)\<rparr>"
      using abs_update [OF assms(3), of c' c s] assms(3) f
      by (simp add: c'_def set_node_def abs_node enode_of_def)
    ultimately show ?thesis
      by (metis spec_stepI)
  qed
qed

lemma crash_cstep:
  fixes L :: "'db leveldb" and c :: "'db cluster" and now r :: int and opn :: "string \<Rightarrow> 'db option"
  assumes "config_valid C" and "cl_inv C c" and "einv (cluster_decides C) (abs_cluster C c)"
    and "self \<in> set C" and "saved_ok (persistent_of (cl_node c (pi_id self)))"
  defines "s \<equiv> boot (L\<lparr>ldb_Open := opn\<rparr>) C self (st_file (storage (cl_node c (pi_id self)))) now r"
  defines "c' \<equiv> set_node (pi_id self) s (c\<lparr>cl_camp := (cl_camp c)(pi_id self := None)\<rparr>)"
  shows "cl_inv C c' \<and> spec_step C (abs_cluster C c) (abs_cluster C c')"
proof
  let ?i = "pi_id self"
  let ?n = "cl_node c ?i"
  have i: "?i \<in> ids_of C"
    using assms(4) by (simp add: ids_of_def)
  have m: "member_ok C ?i ?n"
    using assms(2) i by (simp add: cl_inv_def)
  then have rem: "st_file (storage ?n) = None \<and> currentTerm ?n = 0 \<and> votedFor ?n = -1 \<or>
      (\<exists>v. st_file (storage ?n) = Some (save_text v) \<and> sv_currentTerm v = currentTerm ?n \<and>
         sv_votedFor v = votedFor ?n \<and> no_config (sv_logs v) \<and> saved_ok v)"
    using assms(5) by (auto simp: member_ok_def remembers_def)
  have same: "currentTerm s = currentTerm ?n" "votedFor s = votedFor ?n" "nstate s = FOLLOWER"
    using rem boot_saved(3,4) boot_fields(3) load_text_save by (fastforce simp: s_def)+
  have ms: "member_ok C ?i s"
    unfolding s_def using assms(1,4) rem by (intro boot_member) (auto simp: config_valid_def)
  have "cl_votes c \<subseteq> cl_votes c'" "cl_won c \<subseteq> cl_won c'" "cl_net c' = cl_net c" "net_ok C c"
    using assms(2) by (auto simp: cl_inv_def c'_def set_node_def)
  then have "net_ok C c'"
    using net_camp_mono(1) by blast
  moreover have "camp_ok c'"
    using assms(2) by (auto simp: cl_inv_def camp_ok_def c'_def set_node_def)
  ultimately show "cl_inv C c'"
    using assms(2) ms by (auto simp: cl_inv_def c'_def set_node_def)
  have "quiet ?n s"
    using same by (simp add: quiet_def)
  from quiet_spec [OF abs_node [OF i] this] abs_update [OF i, of c' c s]
  show "spec_step C (abs_cluster C c) (abs_cluster C c')"
    by (simp add: c'_def set_node_def)
qed


text \<open>What a leader sends carries its term and id, and nothing but its own entries.\<close>

lemma sent_by_leader:
  assumes "cl_inv C c" and "einv (cluster_decides C) (abs_cluster C c)" and "i \<in> ids_of C"
  shows "rtp_prepare k (cl_node c i) = Some (Some (peer, T, args)) \<Longrightarrow>
      (ae_term args, ae_leaderId args) \<in> cl_won c \<and> ae_leaderId args \<noteq> pi_id peer \<and> no_config (ae_entries args)"
    and "srih_prepare T (cl_node c i) = Some args \<Longrightarrow> peer \<in> set (peers (cl_node c i)) \<Longrightarrow>
      (ae_term args, ae_leaderId args) \<in> cl_won c \<and> ae_leaderId args \<noteq> pi_id peer \<and> no_config (ae_entries args)"
    and "sstp_prepare L k (cl_node c i) = Some (peer, T, sargs) \<Longrightarrow>
      (sn_term sargs, sn_leaderId sargs) \<in> cl_won c \<and> sn_leaderId sargs \<noteq> pi_id peer"
proof -
  let ?n = "cl_node c i"
  have m: "nid ?n = i" "\<forall>p \<in> set (peers ?n). pi_id p \<noteq> i" "no_config (logs ?n)"
    using assms(1,3) by (auto simp: cl_inv_def member_ok_def)
  have lead: "(currentTerm ?n, i) \<in> cl_won c" if "nstate ?n = LEADER"
    using einvD(13) [OF assms(2), of i] that assms(3)
    by (simp add: abs_node enode_of_def)
  show "(ae_term args, ae_leaderId args) \<in> cl_won c \<and> ae_leaderId args \<noteq> pi_id peer \<and> no_config (ae_entries args)"
    if "rtp_prepare k ?n = Some (Some (peer, T, args))"
  proof -
    have "no_config (map (\<lambda>i. logs ?n ! nat (logIndexToPos i ?n))
        (filter (\<lambda>i. 0 \<le> logIndexToPos i ?n \<and> logIndexToPos i ?n < int (length (logs ?n))) is))" for "is"
      using m(3) by (auto simp: no_config_def)
    moreover have "peer \<in> set (peers ?n)"
      using that by (auto simp: rtp_prepare_def vec_get_def bind_eq_Some_conv split: if_splits)
    ultimately show ?thesis
      using that lead m(1,2) by (auto simp: rtp_prepare_def bind_eq_Some_conv split: if_splits)
  qed
  show "(ae_term args, ae_leaderId args) \<in> cl_won c \<and> ae_leaderId args \<noteq> pi_id peer \<and> no_config (ae_entries args)"
    if "srih_prepare T ?n = Some args" "peer \<in> set (peers ?n)"
    using that lead m(1,2) by (auto simp: srih_prepare_def split: if_splits)
  show "(sn_term sargs, sn_leaderId sargs) \<in> cl_won c \<and> sn_leaderId sargs \<noteq> pi_id peer"
    if "sstp_prepare L k ?n = Some (peer, T, sargs)"
    using that lead m(1) m(2) [rule_format, OF nth_mem, of k]
    by (auto simp: sstp_prepare_def split: if_splits)
qed

lemma send_cstep:
  assumes "cl_inv C c" and "einv (cluster_decides C) (abs_cluster C c)"
    and "net_ok C (c\<lparr>cl_net := insert m (cl_net c)\<rparr>)"
  shows "cl_inv C (c\<lparr>cl_net := insert m (cl_net c)\<rparr>) \<and>
    spec_step C (abs_cluster C c) (abs_cluster C (c\<lparr>cl_net := insert m (cl_net c)\<rparr>))"
proof -
  have "abs_cluster C (c\<lparr>cl_net := insert m (cl_net c)\<rparr>) = abs_cluster C c"
    by (simp add: abs_cluster_def cong: if_cong)
  with assms show ?thesis by (simp add: cl_inv_def camp_ok_def spec_step_def)
qed

lemma net_ok_insert:
  "net_ok C c \<Longrightarrow> (ae_term args, ae_leaderId args) \<in> cl_won c \<and> ae_leaderId args \<noteq> j \<and> no_config (ae_entries args) \<Longrightarrow>
     net_ok C (c\<lparr>cl_net := insert (AppendReq j args) (cl_net c)\<rparr>)"
  "net_ok C c \<Longrightarrow> (sn_term sargs, sn_leaderId sargs) \<in> cl_won c \<and> sn_leaderId sargs \<noteq> j \<Longrightarrow>
     net_ok C (c\<lparr>cl_net := insert (SnapReq j sargs) (cl_net c)\<rparr>)"
  by (auto simp: net_ok_def split: packet.splits)

lemma cstep_inv:
  assumes "config_valid C" and "cstep C L c c'" and inv: "cl_inv C c"
    and einv: "einv (cluster_decides C) (abs_cluster C c)"
  shows "cl_inv C c' \<and> spec_step C (abs_cluster C c) (abs_cluster C c')"
proof -
  have net: "net_ok C c" using inv by (simp add: cl_inv_def)
  from assms(2) show ?thesis
proof cases
  case (own i s)
  then have "member_ok C i (cl_node c i)" using inv by (simp add: cl_inv_def)
  with own local_cstep [OF inv einv] local_step_ok show ?thesis by blast
next
  case (start_election i args s)
  with start_election_cstep [OF assms(1) inv einv] show ?thesis by blast
next
  case (request_vote j args reply s)
  with request_vote_cstep [OF inv einv] show ?thesis by blast
next
  case (count_vote i args granted j reply res s)
  with count_vote_cstep [OF inv einv] show ?thesis by blast
next
  case (send_append i k peer T args)
  with sent_by_leader(1) [OF inv einv] net show ?thesis
    using send_cstep [OF inv einv] net_ok_insert(1) by blast
next
  case (send_heartbeat i T args peer)
  with sent_by_leader(2) [OF inv einv] net show ?thesis
    using send_cstep [OF inv einv] net_ok_insert(1) by blast
next
  case (send_snapshot i k peer T sargs)
  with sent_by_leader(3) [OF inv einv] net show ?thesis
    using send_cstep [OF inv einv] net_ok_insert(2) by blast
next
  case (append_entries j args)
  let ?n = "cl_node c j"
  have m: "member_ok C j ?n" using append_entries inv by (simp add: cl_inv_def)
  have a: "(ae_term args, ae_leaderId args) \<in> cl_won c" "ae_leaderId args \<noteq> j" "no_config (ae_entries args)"
    using inv append_entries(3) by (auto simp: cl_inv_def net_ok_def dest!: bspec)
  from handleAppendEntries_member [OF member_no_config [OF m] a(3), of L]
    synced_handleAppendEntries [OF member_writable [OF m], of L args]
  show ?thesis
    unfolding append_entries(1)
    using leader_msg_cstep [OF inv einv append_entries(2) _ _ _ _ a(1,2)] by blast
next
  case (install_snapshot j sargs)
  let ?n = "cl_node c j"
  have m: "member_ok C j ?n" using install_snapshot inv by (simp add: cl_inv_def)
  have a: "(sn_term sargs, sn_leaderId sargs) \<in> cl_won c" "sn_leaderId sargs \<noteq> j"
    using inv install_snapshot(3) by (auto simp: cl_inv_def net_ok_def dest!: bspec)
  from handleInstallSnapshot_member [OF member_no_config [OF m], of L sargs]
    synced_handleInstallSnapshot [OF member_writable [OF m], of L sargs]
  show ?thesis
    unfolding install_snapshot(1)
    using leader_msg_cstep [OF inv einv install_snapshot(2) _ _ _ _ a] by blast
next
  case (crash self opn now r)
  with crash_cstep [OF assms(1) inv einv] show ?thesis by blast
qed
qed

lemma cluster_init_inv:
  assumes "config_valid C" and "cluster_init C L c"
  shows "cl_inv C c \<and> einv (cluster_decides C) (abs_cluster C c)"
proof
  have node: "\<exists>self \<in> set C. pi_id self = i \<and> (\<exists>now r. cl_node c i = boot L C self None now r)"
    if "i \<in> ids_of C" for i
    using that assms(2) by (auto simp: ids_of_def cluster_init_def)
  have "member_ok C i (cl_node c i)" if "i \<in> ids_of C" for i
    using node [OF that] boot_member [of C _ None L] assms(1) by (auto simp: config_valid_def)
  with assms(2) show "cl_inv C c"
    by (simp add: cl_inv_def net_ok_def camp_ok_def cluster_init_def)
  have "enode_of (cl_node c i) = enode_init" if "i \<in> ids_of C" for i
    using node [OF that] by (auto simp: enode_of_def enode_init_def boot_saved(3) boot_fields(3))
  with assms(2) show "einv (cluster_decides C) (abs_cluster C c)"
    by (intro einv_init) (simp_all add: abs_cluster_def cluster_init_def)
qed

lemma reachable_inv:
  assumes "config_valid C" and "cluster_init C L c0" and "(cstep C L)\<^sup>*\<^sup>* c0 c"
  shows "cl_inv C c \<and> einv (cluster_decides C) (abs_cluster C c)"
  using assms(3) cluster_init_inv [OF assms(1,2)]
  by (induction rule: rtranclp_induct) (blast dest: cstep_inv [OF assms(1)] spec_step_einv)+

lemma cluster_refines_aux:
  assumes "config_valid C" and "cluster_init C L c0" and "(cstep C L)\<^sup>*\<^sup>* c0 c"
  shows "(estep (cluster_decides C))\<^sup>*\<^sup>* (abs_cluster C c0) (abs_cluster C c)"
  using assms(3)
proof (induction rule: rtranclp_induct)
  case (step c c')
  from reachable_inv [OF assms(1,2) step(1)] cstep_inv [OF assms(1) step(2)]
  have "(estep (cluster_decides C))\<^sup>*\<^sup>* (abs_cluster C c) (abs_cluster C c')"
    by (blast intro: spec_step_steps)
  with step.IH show ?case by (rule rtranclp_trans)
qed simp

lemma one_leader_per_term:
  assumes "config_valid C" and "cluster_init C L c0" and "(cstep C L)\<^sup>*\<^sup>* c0 c"
    and "i \<in> ids_of C" and "j \<in> ids_of C"
    and "nstate (cl_node c i) = LEADER" and "nstate (cl_node c j) = LEADER"
    and "currentTerm (cl_node c i) = currentTerm (cl_node c j)"
  shows "i = j"
proof -
  note inv = conjunct2 [OF reachable_inv [OF assms(1-3)]]
  have "(currentTerm (cl_node c k), k) \<in> cl_won c" if "k \<in> ids_of C" "nstate (cl_node c k) = LEADER" for k
    using einvD(13) [OF inv, of k] that by (simp add: abs_node enode_of_def)
  from this [OF assms(4,6)] this [OF assms(5,7)] assms(8) einvD(12) [OF inv] show ?thesis
    by simp
qed

end
