(* ===== verification/Entries.thy ===== *)
theory Entries
  imports Cluster_Safety
begin

text \<open>
  Log entries in the cluster: a term and an index identify an entry, whatever happens to messages
  and nodes. An entry is made by the one leader of its term, past everything that leader has.
\<close>

section \<open>What a node's log and file are made of\<close>

text \<open>\<open>K\<close> is the set of all entries ever made.\<close>

definition one_content :: "LogEntry set \<Rightarrow> bool" where
  "one_content K \<longleftrightarrow> (\<forall>e \<in> K. \<forall>f \<in> K. le_term e = le_term f \<and> le_index e = le_index f \<longrightarrow> e = f)"

definition keeps_within :: "LogEntry set \<Rightarrow> 'db node \<Rightarrow> bool" where
  "keeps_within K s \<longleftrightarrow> set (logs s) \<subseteq> K \<and>
     (st_file (storage s) = None \<or>
      (\<exists>v. st_file (storage s) = Some (save_text v) \<and> set (sv_logs v) \<subseteq> K \<and>
         (saved_ok (persistent_of s) \<longrightarrow> saved_ok v)))"

lemma keeps_withinD: "keeps_within K s \<Longrightarrow> set (logs s) \<subseteq> K"
  by (simp add: keeps_within_def)

lemma keeps_within_mono: "keeps_within K s \<Longrightarrow> K \<subseteq> K' \<Longrightarrow> keeps_within K' s"
  unfolding keeps_within_def by (meson order_trans)

lemma keeps_within_step:
  assumes "keeps_within K s" and "synced s t" and "set (logs t) \<subseteq> K"
  shows "keeps_within K t"
proof (cases "durable t")
  case True
  then have "st_file (storage t) = Some (save_text (persistent_of t))" "sv_logs (persistent_of t) = logs t"
    by (simp_all add: durable_def persistent_of_def)
  with assms(3) show ?thesis unfolding keeps_within_def by metis
next
  case False
  with assms show ?thesis by (simp add: synced_def keeps_within_def)
qed

section \<open>Steps that make no entry\<close>

text \<open>A node that leads after the step led before, in that term, and its log does not end earlier.\<close>

definition tame :: "'db node \<Rightarrow> 'db node \<Rightarrow> bool" where
  "tame s t \<longleftrightarrow>
     (nstate t = LEADER \<longrightarrow> nstate s = LEADER \<and> currentTerm t = currentTerm s \<and>
        getLastLogIndex s \<le> getLastLogIndex t) \<and>
     (nstate t = CANDIDATE \<longrightarrow> nstate s = CANDIDATE \<and> currentTerm t = currentTerm s)"

lemma tame_refl: "tame s s"
  by (simp add: tame_def)

lemma tame_trans: "tame s t \<Longrightarrow> tame t u \<Longrightarrow> tame s u"
  by (auto simp: tame_def)

lemma tame_follower: "nstate t = FOLLOWER \<Longrightarrow> tame s t"
  by (simp add: tame_def)

lemma tame_same:
  "nstate t = nstate s \<Longrightarrow> currentTerm t = currentTerm s \<Longrightarrow> logs t = logs s \<Longrightarrow>
   lastIncludedIndex t = lastIncludedIndex s \<Longrightarrow> tame s t"
  by (simp add: tame_def getLastLogIndex_def)

text \<open>Compaction does not move the end of the log back, whatever the log.\<close>

lemma last_filter_above:
  "xs \<noteq> [] \<Longrightarrow> filter (\<lambda>e. u < f e) xs \<noteq> [] \<Longrightarrow>
     f (last xs) \<le> (f (last (filter (\<lambda>e. u < f e) xs)) :: int)"
proof (induction xs rule: rev_induct)
  case (snoc x xs)
  show ?case
  proof (cases "u < f x")
    case False
    with snoc.prems have "filter (\<lambda>e. u < f e) xs \<noteq> []" by simp
    then have "last (filter (\<lambda>e. u < f e) xs) \<in> set (filter (\<lambda>e. u < f e) xs)"
      by (rule last_in_set)
    with False show ?thesis by simp
  qed simp
qed simp

lemma createSnapshot_end: "getLastLogIndex s \<le> getLastLogIndex (createSnapshot u s)"
proof -
  have "getLastLogIndex s \<le> getLastLogIndex (persist (s\<lparr>logs := filter (\<lambda>e. le_index e > u) (logs s),
      lastIncludedIndex := u, lastIncludedTerm := k\<rparr>))" if "lastIncludedIndex s < u" for k
    using that last_filter_above [of "logs s" u le_index]
    by (auto simp: getLastLogIndex_def frame filter_empty_conv not_less)
  then show ?thesis by (simp add: createSnapshot_def Let_def not_le)
qed

lemma applyCommittedLogs_tame:
  assumes "no_config (logs s)"
  shows "tame s (applyCommittedLogs L s)" and "set (logs (applyCommittedLogs L s)) \<subseteq> set (logs s)"
proof -
  obtain k i where a: "applyLoop L s = s\<lparr>kvStore := k, lastApplied := i\<rparr>"
    using applyLoop_no_config [OF assms] by blast
  let ?a = "s\<lparr>kvStore := k, lastApplied := i\<rparr>"
  have "getLastLogIndex s = getLastLogIndex ?a" by (simp add: getLastLogIndex_def)
  with createSnapshot_end [of ?a] have "getLastLogIndex s \<le> getLastLogIndex (createSnapshot u ?a)" for u
    by simp
  moreover have "nstate (createSnapshot u ?a) = nstate s" "currentTerm (createSnapshot u ?a) = currentTerm s"
    "set (logs (createSnapshot u ?a)) \<subseteq> set (logs s)" for u
    by (auto simp: createSnapshot_def Let_def frame)
  ultimately have c: "tame s (createSnapshot u ?a)" "set (logs (createSnapshot u ?a)) \<subseteq> set (logs s)" for u
    by (simp_all add: tame_def)
  have "tame s ?a" by (rule tame_same) simp_all
  with maybeCreateSnapshot_cases [of ?a]
  show "tame s (applyCommittedLogs L s)" "set (logs (applyCommittedLogs L s)) \<subseteq> set (logs s)"
    by (auto simp: applyCommittedLogs_def a intro: c(1) c(2) [THEN subsetD])
qed

lemma becomeFollower_tame: "tame s (becomeFollower T s)"
  by (rule tame_follower) (simp add: effect)

lemma local_reply_tame: "reply_step s t \<Longrightarrow> tame s t"
  by (auto simp: reply_step_def tame_refl becomeFollower_tame intro: tame_same)

lemma local_reply_logs: "reply_step s t \<Longrightarrow> logs t = logs s \<and> synced s t" if "st_writable (storage s)"
  using that by (auto simp: reply_step_def synced_refl frame intro: synced_becomeFollower synced_same)

lemma srih_finish_reply: "srih_finish T reply s = (b, t) \<Longrightarrow> reply_step s t"
  by (auto simp: srih_finish_def reply_step_def split: if_splits)

lemma tame_follows: "follows T s t \<Longrightarrow> tame s t"
  by (auto simp: follows_def intro: tame_refl tame_follower)

lemma handleAppendEntries_logs:
  assumes "no_config (logs s)" and "no_config (ae_entries args)"
  shows "set (logs (snd (handleAppendEntries L args s))) \<subseteq> set (logs s) \<union> set (ae_entries args)"
proof (cases rule: handleAppendEntries_cases [of args s])
  case matched
  let ?a = "ae_append args s"
  have n: "no_config (logs (?a\<lparr>commitIndex := i\<rparr>))" for i
    using ae_append_no_config [OF assms] by simp
  have "set (logs (ae_commit L args ?a)) \<subseteq> set (logs ?a)"
    using applyCommittedLogs_tame(2) [OF n, where L = L] by (simp add: ae_commit_def)
  moreover have "set (logs ?a) \<subseteq> set (logs s) \<union> set (ae_entries args)"
    using appendLoop_entries [of "ae_entries args" "stepDown (ae_term args) (ae_leaderId args) s" False]
    by (auto simp: ae_append_def split_beta frame)
  ultimately show ?thesis
    using matched by (simp add: handleAppendEntries_matched)
qed (simp_all add: handleAppendEntries_simps frame)

lemma handleInstallSnapshot_logs:
  "set (logs (snd (handleInstallSnapshot L args s))) \<subseteq> set (logs s)"
  by (cases "currentTerm s \<le> sn_term args"; cases "lastIncludedIndex s < sn_lastIncludedIndex args")
    (auto simp: handleInstallSnapshot_simps sn_install_def frame)

lemma updateCommitIndex_tame:
  assumes "no_config (logs s)"
  shows "tame s (updateCommitIndex L s)" "set (logs (updateCommitIndex L s)) \<subseteq> set (logs s)"
proof -
  have n: "no_config (logs (s\<lparr>commitIndex := N\<rparr>))" for N
    using assms by simp
  have m: "tame s (s\<lparr>commitIndex := N\<rparr>)" for N by (rule tame_same) simp_all
  have "tame s (updateCommitIndex L s) \<and> set (logs (updateCommitIndex L s)) \<subseteq> set (logs s)"
  proof (cases rule: updateCommitIndex_cases [of L s])
    case (moved N)
    with applyCommittedLogs_tame [OF n [of N], of L] tame_trans [OF m]
    show ?thesis by simp
  qed (simp add: tame_refl)
  then show "tame s (updateCommitIndex L s)" "set (logs (updateCommitIndex L s)) \<subseteq> set (logs s)"
    by simp_all
qed

section \<open>The invariant\<close>

definition entries_inv :: "PeerInfo list \<Rightarrow> LogEntry set \<Rightarrow> 'db cluster \<Rightarrow> bool" where
  "entries_inv C K c \<longleftrightarrow> one_content K \<and> (\<forall>e \<in> K. \<exists>l. (le_term e, l) \<in> cl_won c) \<and>
     (\<forall>j args. AppendReq j args \<in> cl_net c \<longrightarrow> set (ae_entries args) \<subseteq> K) \<and>
     (\<forall>i \<in> ids_of C. keeps_within K (cl_node c i) \<and>
        (nstate (cl_node c i) = LEADER \<longrightarrow> (\<forall>e \<in> K. le_term e = currentTerm (cl_node c i) \<longrightarrow>
           le_index e \<le> getLastLogIndex (cl_node c i))) \<and>
        (nstate (cl_node c i) = CANDIDATE \<longrightarrow> (currentTerm (cl_node c i), i) \<notin> cl_won c))"

lemma entries_invD:
  assumes "entries_inv C K c"
  shows "one_content K" and "e \<in> K \<Longrightarrow> \<exists>l. (le_term e, l) \<in> cl_won c"
    and "AppendReq j args \<in> cl_net c \<Longrightarrow> set (ae_entries args) \<subseteq> K"
    and "i \<in> ids_of C \<Longrightarrow> keeps_within K (cl_node c i)"
    and "i \<in> ids_of C \<Longrightarrow> nstate (cl_node c i) = LEADER \<Longrightarrow> e \<in> K \<Longrightarrow>
      le_term e = currentTerm (cl_node c i) \<Longrightarrow> le_index e \<le> getLastLogIndex (cl_node c i)"
    and "i \<in> ids_of C \<Longrightarrow> nstate (cl_node c i) = CANDIDATE \<Longrightarrow> (currentTerm (cl_node c i), i) \<notin> cl_won c"
  using assms unfolding entries_inv_def by blast+

text \<open>A step that makes no entry, of one node or of none.\<close>

lemma entries_inv_node:
  assumes "entries_inv C K c" and "i \<in> ids_of C" and "keeps_within K s"
    and "\<And>e. nstate s = LEADER \<Longrightarrow> e \<in> K \<Longrightarrow> le_term e = currentTerm s \<Longrightarrow> le_index e \<le> getLastLogIndex s"
    and "nstate s = CANDIDATE \<Longrightarrow> (currentTerm s, i) \<notin> cl_won c'"
    and "cl_node c' = (cl_node c)(i := s)" and "cl_won c \<subseteq> cl_won c'"
    and "\<And>k T. k \<noteq> i \<Longrightarrow> (T, k) \<in> cl_won c' \<Longrightarrow> (T, k) \<in> cl_won c"
    and "\<And>j args. AppendReq j args \<in> cl_net c' \<Longrightarrow> AppendReq j args \<in> cl_net c"
  shows "entries_inv C K c'"
proof -
  note D = entries_invD [OF assms(1)]
  have "keeps_within K (cl_node c' k) \<and>
      (nstate (cl_node c' k) = LEADER \<longrightarrow> (\<forall>e \<in> K. le_term e = currentTerm (cl_node c' k) \<longrightarrow>
         le_index e \<le> getLastLogIndex (cl_node c' k))) \<and>
      (nstate (cl_node c' k) = CANDIDATE \<longrightarrow> (currentTerm (cl_node c' k), k) \<notin> cl_won c')"
    if "k \<in> ids_of C" for k
  proof (cases "k = i")
    case True
    with assms(2-6) show ?thesis by simp
  next
    case False
    with assms(6) assms(8) [OF False] D(4-6) [OF that] show ?thesis by auto
  qed
  moreover have "\<exists>l. (le_term e, l) \<in> cl_won c'" if "e \<in> K" for e
    using D(2) [OF that] assms(7) by blast
  ultimately show ?thesis
    using D(1,3) assms(9) unfolding entries_inv_def by blast
qed

lemma entries_inv_tame:
  assumes "entries_inv C K c" and "i \<in> ids_of C" and "keeps_within K s" and "tame (cl_node c i) s"
    and "cl_node c' = (cl_node c)(i := s)" and "cl_won c' = cl_won c"
    and "\<And>j args. AppendReq j args \<in> cl_net c' \<Longrightarrow> AppendReq j args \<in> cl_net c"
  shows "entries_inv C K c'"
proof (rule entries_inv_node [OF assms(1-3)])
  show "le_index e \<le> getLastLogIndex s" if "nstate s = LEADER" "e \<in> K" "le_term e = currentTerm s" for e
    using that assms(4) entries_invD(5) [OF assms(1,2) _ that(2)] by (auto simp: tame_def)
  show "(currentTerm s, i) \<notin> cl_won c'" if "nstate s = CANDIDATE"
    using that assms(4,6) entries_invD(6) [OF assms(1,2)] by (simp add: tame_def)
qed (use assms in auto)

lemma entries_inv_same:
  assumes "entries_inv C K c" and "cl_node c' = cl_node c" and "cl_won c' = cl_won c"
    and "\<And>j args. AppendReq j args \<in> cl_net c' \<Longrightarrow> AppendReq j args \<in> cl_net c \<or> set (ae_entries args) \<subseteq> K"
  shows "entries_inv C K c'"
  using assms unfolding entries_inv_def by (metis (no_types, lifting))

text \<open>The leader of a term makes an entry of that term at the next index.\<close>

lemma entries_inv_append:
  assumes "entries_inv C K c" and "i \<in> ids_of C" and "nstate (cl_node c i) = LEADER"
    and "(currentTerm (cl_node c i), i) \<in> cl_won c"
    and "st_writable (storage (cl_node c i))"
    and "\<And>k. k \<in> ids_of C \<Longrightarrow> nstate (cl_node c k) = LEADER \<Longrightarrow>
       currentTerm (cl_node c k) = currentTerm (cl_node c i) \<Longrightarrow> k = i"
    and "le_term e = currentTerm (cl_node c i)" and "le_index e = getLastLogIndex (cl_node c i) + 1"
  shows "entries_inv C (insert e K) (set_node i (appendLocal e (cl_node c i)) c)"
proof -
  let ?n = "cl_node c i"
  let ?s = "appendLocal e ?n"
  note D = entries_invD [OF assms(1)]
  have s: "nstate ?s = LEADER" "currentTerm ?s = currentTerm ?n" "logs ?s = logs ?n @ [e]"
    "getLastLogIndex ?s = le_index e"
    using assms(3) by (simp_all add: appendLocal_def frame getLastLogIndex_def)
  have "f \<noteq> e \<longrightarrow> le_term f = le_term e \<longrightarrow> le_index f < le_index e" if "f \<in> K" for f
    using D(5) [OF assms(2,3) that] assms(7,8) by auto
  with D(1) have one: "one_content (insert e K)"
    unfolding one_content_def by (metis insert_iff less_irrefl)
  have "keeps_within (insert e K) ?n"
    using keeps_within_mono [OF D(4) [OF assms(2)]] by blast
  moreover have "synced ?n ?s"
    using assms(5) by (simp add: synced_def appendLocal_durable)
  ultimately have k: "keeps_within (insert e K) ?s"
    using keeps_within_step [of "insert e K" ?n ?s] keeps_withinD [OF D(4) [OF assms(2)]] s(3) by auto
  have "keeps_within (insert e K) (cl_node (set_node i ?s c) k) \<and>
      (nstate (cl_node (set_node i ?s c) k) = LEADER \<longrightarrow>
         (\<forall>f \<in> insert e K. le_term f = currentTerm (cl_node (set_node i ?s c) k) \<longrightarrow>
            le_index f \<le> getLastLogIndex (cl_node (set_node i ?s c) k))) \<and>
      (nstate (cl_node (set_node i ?s c) k) = CANDIDATE \<longrightarrow>
         (currentTerm (cl_node (set_node i ?s c) k), k) \<notin> cl_won (set_node i ?s c))"
    if "k \<in> ids_of C" for k
  proof (cases "k = i")
    case True
    have "le_index f \<le> le_index e" if "f \<in> K" "le_term f = currentTerm ?n" for f
      using D(5) [OF assms(2,3) that] assms(8) by simp
    with True k s show ?thesis by (simp add: set_node_def)
  next
    case False
    have "\<not> (nstate (cl_node c k) = LEADER \<and> le_term e = currentTerm (cl_node c k))"
      using assms(6) [OF that] False assms(7) by auto
    with False keeps_within_mono [OF D(4) [OF that], of "insert e K"] D(5,6) [OF that] show ?thesis
      by (auto simp: set_node_def)
  qed
  moreover have "\<exists>l. (le_term f, l) \<in> cl_won (set_node i ?s c)" if "f \<in> insert e K" for f
    using that D(2) [of f] assms(4,7) by (auto simp: set_node_def)
  moreover have "set (ae_entries args) \<subseteq> insert e K" if "AppendReq j args \<in> cl_net (set_node i ?s c)" for j args
    using that D(3) [of j args] by (auto simp: set_node_def)
  ultimately show ?thesis
    using one unfolding entries_inv_def by blast
qed

section \<open>Every step keeps it\<close>

text \<open>A step of a member on its own makes an entry or is tame.\<close>

lemma local_step_entries:
  assumes "member_ok C i s" and "local_step L s t"
  shows "(\<exists>e. t = appendLocal e s \<and> nstate s = LEADER \<and> le_term e = currentTerm s \<and>
       le_index e = getLastLogIndex s + 1) \<or>
     tame s t \<and> synced s t \<and> set (logs t) \<subseteq> set (logs s)"
proof -
  have w: "st_writable (storage s)" and n: "no_config (logs s)"
    using assms(1) by (simp_all add: member_writable member_no_config)
  have same: ?thesis if "nstate t = nstate s" "currentTerm t = currentTerm s" "votedFor t = votedFor s"
    "logs t = logs s" "lastIncludedIndex t = lastIncludedIndex s"
    "lastIncludedTerm t = lastIncludedTerm s" "storage t = storage s"
    using that tame_same synced_same by (metis order_refl)
  have reply: ?thesis if "reply_step s t"
    using local_reply_tame [OF that] local_reply_logs [OF w that] by simp
  show ?thesis
    using assms(2)
  proof cases
    case (append_reply k T args rep b)
    then show ?thesis by (intro reply rtp_finish_reply)
  next
    case (snapshot_reply k T rep b)
    then show ?thesis by (intro reply sstp_finish_reply)
  next
    case (heartbeat_reply T rep b)
    then show ?thesis by (intro reply srih_finish_reply)
  next
    case (client_put key val)
    then show ?thesis
      by (cases "nstate s = LEADER") (auto simp: leaderPut_append_def mk_LogEntry_def intro: tame_refl synced_refl)
  next
    case (client_delete key)
    then show ?thesis
      by (cases "nstate s = LEADER") (auto simp: leaderDelete_append_def mk_LogEntry_def intro: tame_refl synced_refl)
  next
    case read_noop
    then show ?thesis
      by (cases "nstate s = LEADER") (auto simp: etc_append_def mk_LogEntry_def intro: tame_refl synced_refl)
  next
    case commit
    with updateCommitIndex_tame [OF n] synced_updateCommitIndex [OF w] show ?thesis by simp
  qed (intro same; auto simp: el_check_def se_begin_def Let_def split: if_splits)+
qed

text \<open>What the election invariant gives here.\<close>

lemma won_facts:
  assumes "einv (cluster_decides C) (abs_cluster C c)"
  shows "i \<in> ids_of C \<Longrightarrow> nstate (cl_node c i) = LEADER \<Longrightarrow> (currentTerm (cl_node c i), i) \<in> cl_won c"
    and "i \<in> ids_of C \<Longrightarrow> (T, i) \<in> cl_won c \<Longrightarrow> T \<le> currentTerm (cl_node c i)"
    and "(T, k) \<in> cl_won c \<Longrightarrow> (T, l) \<in> cl_won c \<Longrightarrow> k = l"
  using einvD(10) [OF assms, of T i] einvD(12) [OF assms, of T k l] einvD(13) [OF assms, of i]
  by (auto simp: abs_node enode_of_def)

lemma member_synced:
  "keeps_within K s \<Longrightarrow> synced s t \<Longrightarrow> set (logs t) \<subseteq> set (logs s) \<union> M \<Longrightarrow> M \<subseteq> K \<Longrightarrow> keeps_within K t"
  using keeps_within_step [of K s t] keeps_withinD [of K s] by blast

lemma cstep_entries:
  assumes "config_valid C" and "cstep C L c c'" and "cl_inv C c"
    and "einv (cluster_decides C) (abs_cluster C c)" and "einv (cluster_decides C) (abs_cluster C c')"
    and "entries_inv C K c"
  shows "\<exists>K'. K \<subseteq> K' \<and> entries_inv C K' c'"
proof -
  note D = entries_invD [OF assms(6)]
  have mem: "member_ok C i (cl_node c i)" if "i \<in> ids_of C" for i
    using assms(3) that by (simp add: cl_inv_def)
  note w = member_writable [OF mem]
  show ?thesis
    using assms(2)
  proof cases
    case (own i s)
    from local_step_entries [OF mem [OF own(2)] own(3)] consider
      (made) e where "s = appendLocal e (cl_node c i)" "nstate (cl_node c i) = LEADER"
        "le_term e = currentTerm (cl_node c i)" "le_index e = getLastLogIndex (cl_node c i) + 1"
      | (tame) "tame (cl_node c i) s" "synced (cl_node c i) s" "set (logs s) \<subseteq> set (logs (cl_node c i))"
      by blast
    then show ?thesis
    proof cases
      case made
      have "k = i" if "k \<in> ids_of C" "nstate (cl_node c k) = LEADER"
          "currentTerm (cl_node c k) = currentTerm (cl_node c i)" for k
        using won_facts(1) [OF assms(4)] won_facts(3) [OF assms(4)] that made(2) own(2) by metis
      with entries_inv_append [OF assms(6) own(2) made(2) won_facts(1) [OF assms(4) own(2) made(2)] w [OF own(2)] _ made(3,4)]
      show ?thesis using own(1) made(1) by blast
    next
      case tame
      have "keeps_within K s"
        using member_synced [OF D(4) [OF own(2)] tame(2), where M = "{}"] tame(3) by simp
      from entries_inv_tame [OF assms(6) own(2) this tame(1), of c'] own(1) show ?thesis
        by (auto simp: set_node_def)
    qed
  next
    case (start_election i args s)
    let ?n = "cl_node c i"
    have s: "s = becomeCandidate ?n"
      using start_election(3) by (auto simp: se_begin_def Let_def split: if_splits)
    have k: "keeps_within K s"
      using member_synced [OF D(4) [OF start_election(2)] synced_becomeCandidate [OF w [OF start_election(2)]], where M = "{}"]
      by (simp add: s frame)
    have "(currentTerm s, i) \<notin> cl_won c"
      using won_facts(2) [OF assms(4) start_election(2), of "currentTerm s"] by (auto simp: s effect)
    then have "entries_inv C K c'"
      using start_election(1)
      by (intro entries_inv_node [OF assms(6) start_election(2) k]) (auto simp: set_node_def s effect)
    then show ?thesis by blast
  next
    case (request_vote j args reply s)
    let ?n = "cl_node c j"
    have "logs s = logs ?n" "lastIncludedIndex s = lastIncludedIndex ?n" "synced ?n s"
      using handleRequestVote_frame [of args ?n] synced_handleRequestVote [OF w [OF request_vote(2)], of args]
      by (simp_all add: request_vote(4))
    moreover from this have "keeps_within K s"
      using member_synced [OF D(4) [OF request_vote(2)], of s, where M = "{}"] by simp
    moreover have "nstate s = FOLLOWER \<or> nstate s = nstate ?n \<and> currentTerm s = currentTerm ?n"
      using handleRequestVote_granted [OF request_vote(4)] handleRequestVote_not_granted [OF request_vote(4)]
      by (cases "rvr_voteGranted reply"; cases "currentTerm ?n = rv_term args") (auto simp: effect)
    ultimately have "entries_inv C K c'"
      using request_vote(1)
      by (intro entries_inv_tame [OF assms(6) request_vote(2)])
        (auto simp: set_node_def getLastLogIndex_def tame_def)
    then show ?thesis by blast
  next
    case (count_vote i args granted j reply res s)
    let ?n = "cl_node c i"
    have same: "entries_inv C K c'" if "s = ?n"
    proof (rule entries_inv_same [OF assms(6)])
      show "cl_won c' = cl_won c"
        using won_facts(1) [OF assms(4) count_vote(2)] by (simp add: count_vote(1) set_node_def that insert_absorb)
    qed (simp_all add: count_vote(1) set_node_def that)
    have "entries_inv C K c'"
      using count_vote(5)
    proof (cases rule: se_reply_cases)
      case won
      have s: "nstate s = LEADER" "logs s = logs ?n" "currentTerm s = currentTerm ?n" "synced ?n s"
        by (auto simp: won becomeLeader_def frame intro: synced_same)
      have new: "(currentTerm s, i) \<notin> cl_won c"
        using D(6) [OF count_vote(2) won(3)] by (simp add: s)
      have "le_term e \<noteq> currentTerm s" if "e \<in> K" for e
      proof
        assume e: "le_term e = currentTerm s"
        from D(2) [OF that] e obtain l where l: "(currentTerm s, l) \<in> cl_won c" by auto
        then have "(currentTerm s, l) \<in> cl_won c'" "(currentTerm s, i) \<in> cl_won c'"
          by (auto simp: count_vote(1) set_node_def s)
        with won_facts(3) [OF assms(5)] l new show False by blast
      qed
      moreover have "keeps_within K s"
        using member_synced [OF D(4) [OF count_vote(2)] s(4), where M = "{}"] s(2) by simp
      ultimately show ?thesis
        by (intro entries_inv_node [OF assms(6) count_vote(2)])
          (auto simp: count_vote(1) set_node_def s split: if_splits)
    next
      case behind
      then have "keeps_within K s" "nstate s = FOLLOWER"
        using member_synced [OF D(4) [OF count_vote(2)] synced_becomeFollower [OF w [OF count_vote(2)]], where M = "{}"]
        by (simp_all add: frame effect)
      then show ?thesis
        by (intro entries_inv_tame [OF assms(6) count_vote(2)])
          (auto simp: count_vote(1) set_node_def tame_follower)
    qed (simp_all add: same)
    then show ?thesis by blast
  next
    case (send_append i k peer T args)
    let ?n = "cl_node c i"
    have "set (ae_entries args) \<subseteq> set (logs ?n)"
      using send_append(3) by (auto simp: rtp_prepare_def bind_eq_Some_conv split: if_splits)
    also have "\<dots> \<subseteq> K"
      using keeps_withinD [OF D(4) [OF send_append(2)]] .
    finally have "entries_inv C K c'"
      by (intro entries_inv_same [OF assms(6)]) (auto simp: send_append(1))
    then show ?thesis by blast
  next
    case (send_heartbeat i T args peer)
    then have "ae_entries args = []"
      by (auto simp: srih_prepare_def split: if_splits)
    then have "entries_inv C K c'"
      by (intro entries_inv_same [OF assms(6)]) (auto simp: send_heartbeat(1))
    then show ?thesis by blast
  next
    case (send_snapshot i k peer T sargs)
    then have "entries_inv C K c'"
      by (intro entries_inv_same [OF assms(6)]) auto
    then show ?thesis by blast
  next
    case (append_entries j args)
    let ?n = "cl_node c j"
    let ?s = "snd (handleAppendEntries L args ?n)"
    have a: "no_config (ae_entries args)"
      using assms(3) append_entries(3) by (auto simp: cl_inv_def net_ok_def dest!: bspec)
    note n = member_no_config [OF mem [OF append_entries(2)]]
    have "keeps_within K ?s"
      using member_synced [OF D(4) [OF append_entries(2)]
        synced_handleAppendEntries [OF w [OF append_entries(2)]] handleAppendEntries_logs [OF n a]
        D(3) [OF append_entries(3)]] .
    then have "entries_inv C K c'"
      using handleAppendEntries_member [OF n a, of L]
      by (intro entries_inv_tame [OF assms(6) append_entries(2)])
        (auto simp: append_entries(1) set_node_def intro: tame_follows)
    then show ?thesis by blast
  next
    case (install_snapshot j sargs)
    let ?n = "cl_node c j"
    let ?s = "snd (handleInstallSnapshot L sargs ?n)"
    note n = member_no_config [OF mem [OF install_snapshot(2)]]
    have "keeps_within K ?s"
      using member_synced [OF D(4) [OF install_snapshot(2)]
        synced_handleInstallSnapshot [OF w [OF install_snapshot(2)]], where M = "{}"]
        handleInstallSnapshot_logs [of L sargs ?n] by auto
    then have "entries_inv C K c'"
      using handleInstallSnapshot_member [OF n, of L sargs]
      by (intro entries_inv_tame [OF assms(6) install_snapshot(2)])
        (auto simp: install_snapshot(1) set_node_def intro: tame_follows)
    then show ?thesis by blast
  next
    case (crash self opn now r)
    let ?n = "cl_node c (pi_id self)"
    let ?s = "boot (L\<lparr>ldb_Open := opn\<rparr>) C self (st_file (storage ?n)) now r"
    have i: "pi_id self \<in> ids_of C"
      using crash(2) by (simp add: ids_of_def)
    have "keeps_within K ?s"
    proof (cases "st_file (storage ?n)")
      case None
      then show ?thesis
        using boot_saved(3) [OF None, of "L\<lparr>ldb_Open := opn\<rparr>" C self now r]
        by (simp add: keeps_within_def boot_saved(2))
    next
      case (Some body)
      with D(4) [OF i] crash(3) obtain v where
        v: "body = save_text v" "set (sv_logs v) \<subseteq> K" "saved_ok v"
        by (auto simp: keeps_within_def)
      then have "load_text body = Some v" by (simp add: load_text_save)
      from boot_saved(4) [OF Some this, of "L\<lparr>ldb_Open := opn\<rparr>" C self now r] v
      have "set (logs ?s) \<subseteq> K" by auto
      with v Some boot_saved(2) show ?thesis unfolding keeps_within_def by metis
    qed
    then have "entries_inv C K c'"
      by (intro entries_inv_tame [OF assms(6) i])
        (auto simp: crash(1) set_node_def boot_fields(3) intro!: tame_follower)
    then show ?thesis by blast
  qed
qed

section \<open>Entries in reachable states\<close>

lemma entries_inv_init:
  assumes "cluster_init C L c"
  shows "entries_inv C {} c"
proof -
  have "keeps_within {} (cl_node c i) \<and> nstate (cl_node c i) = FOLLOWER" if "i \<in> ids_of C" for i
  proof -
    from that assms obtain self now r where "cl_node c i = boot L C self None now r"
      by (auto simp: ids_of_def cluster_init_def)
    with boot_saved(2) [of L C self None now r] boot_saved(3) [of None L C self now r]
      boot_fields(3) [of L C self None now r] show ?thesis
      by (simp add: keeps_within_def)
  qed
  with assms show ?thesis
    by (simp add: entries_inv_def one_content_def cluster_init_def)
qed

lemma reachable_entries:
  assumes "config_valid C" and "cluster_init C L c0" and "(cstep C L)\<^sup>*\<^sup>* c0 c"
  shows "\<exists>K. entries_inv C K c"
  using assms(3)
proof (induction rule: rtranclp_induct)
  case base
  show ?case using entries_inv_init [OF assms(2)] by blast
next
  case (step c c')
  then obtain K where K: "entries_inv C K c" by blast
  from reachable_inv [OF assms(1,2) step(1)] have inv: "cl_inv C c" "einv (cluster_decides C) (abs_cluster C c)"
    by simp_all
  from cstep_inv [OF assms(1) step(2) inv] spec_step_einv inv(2)
  have "einv (cluster_decides C) (abs_cluster C c')" by blast
  from cstep_entries [OF assms(1) step(2) inv this K] show ?case by blast
qed

lemma entry_identity_aux:
  assumes "config_valid C" and "cluster_init C L c0" and "(cstep C L)\<^sup>*\<^sup>* c0 c"
    and "i \<in> ids_of C" and "j \<in> ids_of C"
    and "e \<in> set (logs (cl_node c i))" and "f \<in> set (logs (cl_node c j))"
    and "le_term e = le_term f" and "le_index e = le_index f"
  shows "e = f"
proof -
  from reachable_entries [OF assms(1-3)] obtain K where K: "entries_inv C K c" by blast
  with assms(4-7) keeps_withinD [OF entries_invD(4) [OF K]] have "e \<in> K" "f \<in> K" by auto
  with entries_invD(1) [OF K] assms(8,9) show ?thesis
    by (auto simp: one_content_def)
qed

lemma leader_made_entries_aux:
  assumes "config_valid C" and "cluster_init C L c0" and "(cstep C L)\<^sup>*\<^sup>* c0 c"
    and "i \<in> ids_of C" and "nstate (cl_node c i) = LEADER" and "j \<in> ids_of C"
    and "e \<in> set (logs (cl_node c j))" and "le_term e = currentTerm (cl_node c i)"
  shows "le_index e \<le> getLastLogIndex (cl_node c i)"
proof -
  from reachable_entries [OF assms(1-3)] obtain K where K: "entries_inv C K c" by blast
  with assms(6,7) keeps_withinD [OF entries_invD(4) [OF K]] have "e \<in> K" by auto
  from entries_invD(5) [OF K assms(4,5) this assms(8)] show ?thesis .
qed

end
