(* ===== verification/Log_Matching.thy ===== *)
theory Log_Matching
  imports Entries
begin

text \<open>
  Log matching in the cluster: two logs that have an entry of the same term at one index agree at
  every index below it. It holds for the runs the program means to have; two things that it does
  not rule out break it, and are excluded by \<open>orderly\<close>: AppendEntries that was prepared from a log
  compacted since \<open>nextIndex\<close> was looked at, and a snapshot installed over entries that contradict it.
\<close>

section \<open>Chains of entries\<close>

text \<open>
  \<open>R\<close> is a set of links \<open>(i, T, T')\<close>: an entry of term \<open>T\<close> at index \<open>i\<close> follows one of term \<open>T'\<close>. A list is
  linked after index \<open>b\<close> and term \<open>t\<close> when it is numbered from there on and each step is a link.
\<close>

fun linked :: "(int \<times> int \<times> int) set \<Rightarrow> int \<Rightarrow> int \<Rightarrow> LogEntry list \<Rightarrow> bool" where
  "linked R b t [] = True"
| "linked R b t (e # es) \<longleftrightarrow> le_index e = b + 1 \<and> (b + 1, le_term e, t) \<in> R \<and> linked R (b + 1) (le_term e) es"

definition end_term :: "int \<Rightarrow> LogEntry list \<Rightarrow> int" where
  "end_term t es = (if es = [] then t else le_term (last es))"

lemma end_term_simps [simp]:
  "end_term t [] = t" "end_term t (e # es) = end_term (le_term e) es"
  by (simp_all add: end_term_def)

lemma linked_append [simp]:
  "linked R b t (xs @ ys) \<longleftrightarrow> linked R b t xs \<and> linked R (b + int (length xs)) (end_term t xs) ys"
  by (induction xs arbitrary: b t) (auto simp: algebra_simps)

lemma linked_mono: "linked R b t es \<Longrightarrow> R \<subseteq> R' \<Longrightarrow> linked R' b t es"
  by (induction es arbitrary: b t) auto

lemma linked_numbered: "linked R b t es \<Longrightarrow> numbered_from le_index b es"
  by (induction es arbitrary: b t) auto

lemma linked_take: "linked R b t es \<Longrightarrow> linked R b t (take n es)"
  by (metis append_take_drop_id linked_append)

lemma linked_drop:
  "linked R b t es \<Longrightarrow> n \<le> length es \<Longrightarrow> linked R (b + int n) (end_term t (take n es)) (drop n es)"
  using linked_append [of R b t "take n es" "drop n es"] by (simp add: min_absorb2)

lemma end_term_take:
  "0 < n \<Longrightarrow> n \<le> length es \<Longrightarrow> end_term t (take n es) = le_term (es ! (n - 1))"
  by (cases "take n es = []") (auto simp: end_term_def last_conv_nth min_absorb2)

text \<open>The append loop of a follower joins two linked lists into one.\<close>

lemma linked_append_ref:
  assumes "linked R b t ls" and "p \<le> length ls"
    and "linked R (b + int p) (end_term t (take p ls)) es"
  shows "linked R b t (append_ref p es ls)"
proof -
  let ?n = "length (takeWhile (\<lambda>(a, b). le_term a = le_term b) (zip (drop p ls) es))"
  let ?k = "take ?n (drop p ls)"
  have n: "?n \<le> length (drop p ls)" "?n \<le> length es"
    using length_takeWhile_le [of "\<lambda>(a, b). le_term a = le_term b" "zip (drop p ls) es"] by simp_all
  have same: "le_term (drop p ls ! i) = le_term (es ! i)" if "i < ?n" for i
    using nth_mem [OF that] takeWhile_nth [OF that] n that
    by (auto dest!: set_takeWhileD)
  have "end_term u ?k = end_term u (take ?n es)" for u
  proof (cases "?n = 0")
    case False
    with n same [of "?n - 1"] show ?thesis
      using end_term_take [of ?n "drop p ls" u] end_term_take [of ?n es u] by (simp del: nth_drop)
  qed simp
  moreover have "linked R b t (take (p + ?n) ls)"
    using assms(1) by (rule linked_take)
  moreover have "take (p + ?n) ls = take p ls @ ?k"
    by (simp add: take_add)
  moreover have "end_term t (take p ls @ ?k) = end_term (end_term t (take p ls)) ?k"
    by (simp add: end_term_def)
  ultimately have "linked R b t (take (p + ?n) ls @ drop ?n es)"
    using linked_drop [OF assms(3) n(2)] assms(2) n(1) by (simp add: min_absorb2 algebra_simps)
  with assms(1) show ?thesis by (simp add: append_ref_def Let_def)
qed

section \<open>Linked logs\<close>

definition log_linked :: "(int \<times> int \<times> int) set \<Rightarrow> 'db node \<Rightarrow> bool" where
  "log_linked R s \<longleftrightarrow> linked R (lastIncludedIndex s) (lastIncludedTerm s) (logs s) \<and>
     0 \<le> lastIncludedIndex s \<and> (lastIncludedIndex s = 0 \<longrightarrow> lastIncludedTerm s = 0)"

definition saved_linked :: "(int \<times> int \<times> int) set \<Rightarrow> saved_state \<Rightarrow> bool" where
  "saved_linked R v \<longleftrightarrow> linked R (sv_lastIncludedIndex v) (sv_lastIncludedTerm v) (sv_logs v) \<and>
     0 \<le> sv_lastIncludedIndex v \<and> (sv_lastIncludedIndex v = 0 \<longrightarrow> sv_lastIncludedTerm v = 0)"

definition store_linked :: "(int \<times> int \<times> int) set \<Rightarrow> 'db node \<Rightarrow> bool" where
  "store_linked R s \<longleftrightarrow> st_file (storage s) = None \<or>
     (\<exists>v. st_file (storage s) = Some (save_text v) \<and> saved_linked R v \<and>
        (saved_ok (persistent_of s) \<longrightarrow> saved_ok v))"

lemma log_linked_wf: "log_linked R s \<Longrightarrow> log_wf s"
  by (auto simp: log_linked_def log_wf_def dest: linked_numbered)

lemma log_linked_cong:
  "logs t = logs s \<Longrightarrow> lastIncludedIndex t = lastIncludedIndex s \<Longrightarrow>
   lastIncludedTerm t = lastIncludedTerm s \<Longrightarrow> log_linked R t = log_linked R s"
  by (simp add: log_linked_def)

lemma saved_linked_of: "saved_linked R (persistent_of s) = log_linked R s"
  by (simp add: saved_linked_def log_linked_def persistent_of_def)

lemma store_linked_step:
  assumes "store_linked R s" and "synced s t" and "log_linked R t"
  shows "store_linked R t"
proof (cases "durable t")
  case True
  with assms(3) show ?thesis
    unfolding durable_def store_linked_def saved_linked_of [symmetric] by metis
next
  case False
  with assms show ?thesis by (simp add: synced_def store_linked_def)
qed

lemma linked_sets_mono:
  assumes "R \<subseteq> R'"
  shows "log_linked R s \<Longrightarrow> log_linked R' s" and "store_linked R s \<Longrightarrow> store_linked R' s"
  using assms linked_mono unfolding log_linked_def store_linked_def saved_linked_def by metis+

text \<open>The term the log has at an index is the one its chain has there.\<close>

lemma log_linked_term:
  assumes "log_linked R s" and "lastIncludedIndex s \<le> i" and "i \<le> getLastLogIndex s"
  shows "getLogTermAt i s =
    end_term (lastIncludedTerm s) (take (nat (i - lastIncludedIndex s)) (logs s))"
proof (cases "i = lastIncludedIndex s")
  case True
  with assms(1) show ?thesis by (auto simp: getLogTermAt_def log_linked_def)
next
  case False
  let ?n = "nat (i - lastIncludedIndex s)"
  have "0 < ?n" "?n \<le> length (logs s)"
    using False assms(2,3) getLastLogIndex_eq [OF log_linked_wf [OF assms(1)]] by auto
  moreover have "nat (i - lastIncludedIndex s - 1) = ?n - 1" by simp
  ultimately show ?thesis
    using assms False end_term_take [of ?n "logs s" "lastIncludedTerm s"]
    by (subst getLogTermAt_in) (auto simp: log_linked_def)
qed

lemma last_term_end: "getLastLogTerm s = end_term (lastIncludedTerm s) (logs s)"
  by (simp add: getLastLogTerm_def end_term_def)

lemma log_linked_link:
  assumes "log_linked R s" and "lastIncludedIndex s < i" and "i \<le> getLastLogIndex s"
  shows "(i, getLogTermAt i s, getLogTermAt (i - 1) s) \<in> R"
proof -
  let ?b = "lastIncludedIndex s"
  let ?n = "nat (i - 1 - ?b)"
  have n: "?n < length (logs s)" "i - 1 = ?b + int ?n"
    using assms(2,3) getLastLogIndex_eq [OF log_linked_wf [OF assms(1)]] by auto
  have "linked R (?b + int ?n) (end_term (lastIncludedTerm s) (take ?n (logs s))) (drop ?n (logs s))"
    using assms(1) n(1) linked_drop [of R ?b "lastIncludedTerm s" "logs s" ?n] by (simp add: log_linked_def)
  moreover have "drop ?n (logs s) = logs s ! ?n # drop (Suc ?n) (logs s)"
    using n(1) by (rule Cons_nth_drop_Suc [symmetric])
  ultimately have "(?b + int ?n + 1, le_term (logs s ! ?n),
      end_term (lastIncludedTerm s) (take ?n (logs s))) \<in> R" by simp
  moreover have "getLogTermAt (i - 1) s = end_term (lastIncludedTerm s) (take ?n (logs s))"
    using assms log_linked_term [of R s "i - 1"] by simp
  moreover have "getLogTermAt i s = le_term (logs s ! ?n)"
    using assms n(1) by (subst getLogTermAt_in) (auto simp: log_linked_def algebra_simps)
  moreover have "?b + int ?n + 1 = i" using n(2) by simp
  ultimately show ?thesis by simp
qed

section \<open>Operations keep the links\<close>

lemma createSnapshot_linked:
  assumes "log_linked R s"
  shows "log_linked R (createSnapshot u s)"
proof (cases "createSnapshot u s = s")
  case True
  with assms show ?thesis by simp
next
  case False
  note wf = log_linked_wf [OF assms]
  note c = createSnapshot_logs [OF wf False]
  have u: "u \<le> getLastLogIndex s"
    using assms False by (intro createSnapshot_in_log [OF wf]) (simp_all add: log_linked_def)
  have "nat (u - lastIncludedIndex s) \<le> length (logs s)"
    using u getLastLogIndex_eq [OF wf] by simp
  with assms linked_drop [of R "lastIncludedIndex s" "lastIncludedTerm s" "logs s" "nat (u - lastIncludedIndex s)"]
    c log_linked_term [OF assms _ u]
  show ?thesis by (simp add: log_linked_def)
qed

lemma applyCommittedLogs_linked:
  assumes "log_linked R s"
  shows "log_linked R (applyCommittedLogs L s)"
proof -
  have "log_linked R (applyLoop L s)"
    using assms by (subst log_linked_cong) (simp_all add: frame)
  with createSnapshot_linked maybeCreateSnapshot_cases [of "applyLoop L s"] show ?thesis
    unfolding applyCommittedLogs_def by metis
qed

lemma log_linked_commit: "log_linked R (s\<lparr>commitIndex := i\<rparr>) = log_linked R s"
  by (rule log_linked_cong) simp_all

lemma updateCommitIndex_linked: "log_linked R s \<Longrightarrow> log_linked R (updateCommitIndex L s)"
  using log_linked_commit
  by (cases rule: updateCommitIndex_cases [of L s]) (auto intro!: applyCommittedLogs_linked)

lemma stepDown_linked: "log_linked R (stepDown T l s) = log_linked R s"
  by (rule log_linked_cong) (simp_all add: frame)

lemma ae_append_linked:
  assumes "log_linked R s" and "ae_match args s"
    and "linked R (ae_prevLogIndex args) (ae_prevLogTerm args) (ae_entries args)"
  shows "log_linked R (ae_append args s)"
proof -
  let ?b = "lastIncludedIndex s"
  let ?p = "nat (ae_prevLogIndex args - ?b)"
  note wf = log_linked_wf [OF assms(1)]
  have p: "?b \<le> ae_prevLogIndex args" "ae_prevLogIndex args \<le> getLastLogIndex s"
    "getLogTermAt (ae_prevLogIndex args) s = ae_prevLogTerm args"
    using assms(2) wf by (auto simp: ae_match_def hasLogAt_iff)
  then have "?p \<le> length (logs s)" "?b + int ?p = ae_prevLogIndex args"
    using getLastLogIndex_eq [OF wf] by simp_all
  moreover have "ae_wf args"
    using linked_numbered [OF assms(3)] by (simp add: ae_wf_def)
  ultimately show ?thesis
    using assms(1,3) p log_linked_term [OF assms(1) p(1,2)] ae_append_logs [OF wf assms(2)]
      linked_append_ref [of R ?b "lastIncludedTerm s" "logs s" ?p "ae_entries args"]
    by (simp add: log_linked_def frame)
qed

lemma handleAppendEntries_linked:
  assumes "log_linked R s"
    and "linked R (ae_prevLogIndex args) (ae_prevLogTerm args) (ae_entries args)"
  shows "log_linked R (snd (handleAppendEntries L args s))"
proof (cases rule: handleAppendEntries_cases [of args s])
  case matched
  with ae_append_linked [OF assms(1) matched(2) assms(2)] show ?thesis
    by (auto simp: handleAppendEntries_matched ae_commit_def log_linked_commit
        intro!: applyCommittedLogs_linked)
qed (simp_all add: handleAppendEntries_simps stepDown_linked assms(1))

text \<open>A snapshot fits when it contradicts nothing that the node has after its index.\<close>

definition snapshot_fits :: "InstallSnapshotArgs \<Rightarrow> 'db node \<Rightarrow> bool" where
  "snapshot_fits args s \<longleftrightarrow> getLastLogIndex s \<le> sn_lastIncludedIndex args \<or>
     getLogTermAt (sn_lastIncludedIndex args) s = sn_lastIncludedTerm args"

lemma sn_install_linked:
  assumes "log_linked R s" and "lastIncludedIndex s < sn_lastIncludedIndex args" and "snapshot_fits args s"
  shows "log_linked R (sn_install L args s)"
proof -
  let ?b = "lastIncludedIndex s"
  let ?k = "sn_lastIncludedIndex args"
  let ?n = "nat (?k - ?b)"
  note wf = log_linked_wf [OF assms(1)]
  have f: "filter (\<lambda>e. le_index e > ?k) (logs s) = drop ?n (logs s)"
    using wf assms(2) by (intro numbered_from_filter) (auto simp: log_wf_def)
  have "linked R ?k (sn_lastIncludedTerm args) (drop ?n (logs s))"
  proof (cases "getLastLogIndex s \<le> ?k")
    case True
    then show ?thesis using getLastLogIndex_eq [OF wf] by simp
  next
    case False
    then have n: "?n \<le> length (logs s)" "?b + int ?n = ?k"
      using getLastLogIndex_eq [OF wf] assms(2) by simp_all
    have "sn_lastIncludedTerm args = end_term (lastIncludedTerm s) (take ?n (logs s))"
      using False assms(2,3) log_linked_term [OF assms(1), of ?k] by (simp add: snapshot_fits_def)
    with assms(1) n linked_drop [of R ?b "lastIncludedTerm s" "logs s" ?n] show ?thesis
      by (simp add: log_linked_def)
  qed
  with assms(1,2) f show ?thesis
    by (simp add: sn_install_def log_linked_def frame)
qed

lemma handleInstallSnapshot_linked:
  assumes "log_linked R s"
    and "currentTerm s \<le> sn_term args \<Longrightarrow> lastIncludedIndex s < sn_lastIncludedIndex args \<Longrightarrow> snapshot_fits args s"
  shows "log_linked R (snd (handleInstallSnapshot L args s))"
proof -
  have "getLastLogIndex (stepDown T l s) = getLastLogIndex s"
    "getLogTermAt i (stepDown T l s) = getLogTermAt i s" for T l i
    by (simp_all add: getLastLogIndex_def getLogTermAt_def logIndexToPos_def frame)
  then have "snapshot_fits args (stepDown (sn_term args) (sn_leaderId args) s) = snapshot_fits args s"
    by (simp add: snapshot_fits_def)
  with assms show ?thesis
    by (cases "currentTerm s \<le> sn_term args"; cases "lastIncludedIndex s < sn_lastIncludedIndex args")
      (simp_all add: handleInstallSnapshot_simps stepDown_linked sn_install_linked frame)
qed

lemma rtp_prepare_linked:
  assumes "log_linked R s" and "rtp_prepare k s = Some (Some (peer, T, args))" and "ae_wf args"
  shows "linked R (ae_prevLogIndex args) (ae_prevLogTerm args) (ae_entries args)"
proof (cases "ae_entries args = []")
  case False
  let ?b = "lastIncludedIndex s"
  let ?p = "nextIndex s ! k - 1"
  note wf = log_linked_wf [OF assms(1)]
  have k: "nstate s = LEADER" "k < length (peers s)" "k < length (nextIndex s)"
    and prev: "ae_prevLogIndex args = ?p" "ae_prevLogTerm args = getLogTermAt ?p s"
    and es: "ae_entries args = map (\<lambda>i. logs s ! nat (logIndexToPos i s))
      (filter (\<lambda>i. 0 \<le> logIndexToPos i s \<and> logIndexToPos i s < int (length (logs s)))
        [nextIndex s ! k..getLastLogIndex s])"
    using assms(2) by (auto simp: rtp_prepare_def vec_get_def bind_eq_Some_conv split: if_splits)
  have "logs s \<noteq> []"
    using False by (auto simp: es)
  moreover have "nextIndex s ! k \<le> getLastLogIndex s"
    using False by (cases "nextIndex s ! k \<le> getLastLogIndex s") (simp_all add: es)
  ultimately have n: "?b < nextIndex s ! k" "?b \<le> ?p" "?p \<le> getLastLogIndex s"
    using message_after_compaction_has_gap [OF wf k _ _ assms(2)] assms(3) by force+
  then have "?b + int (nat (?p - ?b)) = ?p" "nat (?p - ?b) \<le> length (logs s)"
    using getLastLogIndex_eq [OF wf] by simp_all
  then have "linked R ?p (getLogTermAt ?p s) (drop (nat (?p - ?b)) (logs s))"
    using assms(1) log_linked_term [OF assms(1) n(2,3)]
      linked_drop [of R ?b "lastIncludedTerm s" "logs s" "nat (?p - ?b)"] by (simp add: log_linked_def)
  then show ?thesis
    by (simp add: prev es leader_entries [OF wf n(1)] log_slice_def linked_take)
qed simp

lemma boot_linked:
  assumes "saved = None \<or> (\<exists>v. saved = Some (save_text v) \<and> saved_ok v \<and> saved_linked R v)"
  shows "log_linked R (boot L C self saved now r)" and "store_linked R (boot L C self saved now r)"
proof -
  have fields: "lastIncludedIndex (boot L C self saved now r) = sv_lastIncludedIndex v"
      "lastIncludedTerm (boot L C self saved now r) = sv_lastIncludedTerm v"
      "logs (boot L C self saved now r) = filter (\<lambda>e. le_index e > sv_lastIncludedIndex v) (sv_logs v)"
    if "saved = Some body" "load_text body = Some v" for body v
    using that by (simp_all add: boot_def raft_start_def setPeers_def setSelfAddress_def RaftNode_new_def
        loadPersistentState_def resetElectionTimer_def storage_load_def mk_PersistentStorage_def)
  have none: "lastIncludedIndex (boot L C self None now r) = 0"
      "lastIncludedTerm (boot L C self None now r) = 0" "logs (boot L C self None now r) = []"
    by (simp_all add: boot_def raft_start_def setPeers_def setSelfAddress_def RaftNode_new_def
        loadPersistentState_def resetElectionTimer_def storage_load_def mk_PersistentStorage_def)
  show "log_linked R (boot L C self saved now r)"
  proof (cases saved)
    case None
    with none show ?thesis by (simp add: log_linked_def)
  next
    case (Some body)
    with assms obtain v where v: "body = save_text v" "saved_ok v" "saved_linked R v" by auto
    then have "load_text body = Some v" by (simp add: load_text_save)
    note f = fields [OF Some this]
    have "filter (\<lambda>e. le_index e > sv_lastIncludedIndex v) (sv_logs v) = sv_logs v"
      using numbered_from_filter [of le_index "sv_lastIncludedIndex v" "sv_logs v" "sv_lastIncludedIndex v"]
        v(3) linked_numbered by (auto simp: saved_linked_def)
    with v(3) f show ?thesis by (simp add: saved_linked_def log_linked_def)
  qed
  show "store_linked R (boot L C self saved now r)"
    using assms unfolding store_linked_def boot_saved(2) by blast
qed

section \<open>Runs\<close>

text \<open>
  A step of the cluster is orderly when every AppendEntries message is numbered from \<open>prevLogIndex\<close>
  on, and a snapshot that is installed fits.
\<close>

definition orderly :: "PeerInfo list \<Rightarrow> 'db leveldb \<Rightarrow> 'db cluster \<Rightarrow> 'db cluster \<Rightarrow> bool" where
  "orderly C L c c' \<longleftrightarrow> cstep C L c c' \<and>
     (\<forall>j args. AppendReq j args \<in> cl_net c' \<longrightarrow> ae_wf args) \<and>
     (\<forall>j args. SnapReq j args \<in> cl_net c \<and>
        c' = set_node j (snd (handleInstallSnapshot L args (cl_node c j))) c \<and>
        currentTerm (cl_node c j) \<le> sn_term args \<and>
        lastIncludedIndex (cl_node c j) < sn_lastIncludedIndex args \<longrightarrow> snapshot_fits args (cl_node c j))"

lemma orderly_cstep: "(orderly C L)\<^sup>*\<^sup>* c0 c \<Longrightarrow> (cstep C L)\<^sup>*\<^sup>* c0 c"
  by (erule rtranclp_mono [THEN predicate2D, rotated]) (auto simp: orderly_def)

definition matching_inv ::
  "PeerInfo list \<Rightarrow> LogEntry set \<Rightarrow> (int \<times> int \<times> int) set \<Rightarrow> 'db cluster \<Rightarrow> bool" where
  "matching_inv C K R c \<longleftrightarrow>
     (\<forall>i T p p'. (i, T, p) \<in> R \<and> (i, T, p') \<in> R \<longrightarrow> p = p') \<and>
     (\<forall>i T p. (i, T, p) \<in> R \<longrightarrow> (\<exists>e \<in> K. le_index e = i \<and> le_term e = T)) \<and>
     (\<forall>j args. AppendReq j args \<in> cl_net c \<longrightarrow>
        linked R (ae_prevLogIndex args) (ae_prevLogTerm args) (ae_entries args)) \<and>
     (\<forall>i \<in> ids_of C. log_linked R (cl_node c i) \<and> store_linked R (cl_node c i))"

lemma matching_invD:
  assumes "matching_inv C K R c"
  shows "(i, T, p) \<in> R \<Longrightarrow> (i, T, p') \<in> R \<Longrightarrow> p = p'"
    and "(i, T, p) \<in> R \<Longrightarrow> \<exists>e \<in> K. le_index e = i \<and> le_term e = T"
    and "AppendReq j args \<in> cl_net c \<Longrightarrow>
      linked R (ae_prevLogIndex args) (ae_prevLogTerm args) (ae_entries args)"
    and "i \<in> ids_of C \<Longrightarrow> log_linked R (cl_node c i)"
    and "i \<in> ids_of C \<Longrightarrow> store_linked R (cl_node c i)"
  using assms unfolding matching_inv_def by blast+

lemma matching_inv_node:
  assumes "matching_inv C K R c" and "K \<subseteq> K'" and "i \<in> ids_of C \<Longrightarrow> log_linked R s \<and> store_linked R s"
    and "cl_node c' = (cl_node c)(i := s)"
    and "\<And>j args. AppendReq j args \<in> cl_net c' \<Longrightarrow> AppendReq j args \<in> cl_net c"
  shows "matching_inv C K' R c'"
proof -
  note D = matching_invD [OF assms(1)]
  have "\<exists>e \<in> K'. le_index e = i \<and> le_term e = T" if "(i, T, p) \<in> R" for i T p
    using D(2) [OF that] assms(2) by blast
  with D assms(3-5) show ?thesis
    unfolding matching_inv_def by (metis fun_upd_apply)
qed

lemma matching_inv_send:
  assumes "matching_inv C K R c" and "K \<subseteq> K'" and "cl_node c' = cl_node c"
    and "\<And>j args. AppendReq j args \<in> cl_net c' \<Longrightarrow> AppendReq j args \<in> cl_net c \<or>
      linked R (ae_prevLogIndex args) (ae_prevLogTerm args) (ae_entries args)"
  shows "matching_inv C K' R c'"
proof -
  note D = matching_invD [OF assms(1)]
  have "\<exists>e \<in> K'. le_index e = i \<and> le_term e = T" if "(i, T, p) \<in> R" for i T p
    using D(2) [OF that] assms(2) by blast
  with D assms(3,4) show ?thesis
    unfolding matching_inv_def by metis
qed

lemma local_step_linked:
  assumes "member_ok C i s" and "local_step L s t" and "log_linked R s"
  shows "(\<exists>e. t = appendLocal e s \<and> nstate s = LEADER \<and> le_term e = currentTerm s \<and>
       le_index e = getLastLogIndex s + 1) \<or> synced s t \<and> log_linked R t"
proof -
  have w: "st_writable (storage s)"
    using assms(1) by (rule member_writable)
  have same: ?thesis if "logs t = logs s" "lastIncludedIndex t = lastIncludedIndex s"
    "lastIncludedTerm t = lastIncludedTerm s" "synced s t"
    using that assms(3) log_linked_cong [of t s] by simp
  have reply: ?thesis if "reply_step s t"
    using local_reply_logs [OF w that] that by (intro same) (auto simp: reply_step_def frame)
  have quiet: ?thesis if "logs t = logs s" "lastIncludedIndex t = lastIncludedIndex s"
    "lastIncludedTerm t = lastIncludedTerm s" "currentTerm t = currentTerm s" "votedFor t = votedFor s"
    "storage t = storage s"
    using that by (intro same synced_same)
  show ?thesis
    using assms(2)
  proof cases
    case (append_reply k T args rep b)
    then show ?thesis by (intro reply rtp_finish_reply)
  next
    case (snapshot_reply k T rep b)
    then show ?thesis by (intro reply sstp_finish_reply)
  next
    case (heartbeat_reply T rep b)
    then show ?thesis by (intro reply srih_finish_reply)
  next
    case (client_put key val)
    then show ?thesis
      using assms(3) by (auto simp: leaderPut_append_def mk_LogEntry_def intro: synced_refl)
  next
    case (client_delete key)
    then show ?thesis
      using assms(3) by (auto simp: leaderDelete_append_def mk_LogEntry_def intro: synced_refl)
  next
    case read_noop
    then show ?thesis
      using assms(3) by (auto simp: etc_append_def mk_LogEntry_def intro: synced_refl)
  next
    case commit
    with updateCommitIndex_linked [OF assms(3)] synced_updateCommitIndex [OF w] show ?thesis by simp
  qed (intro quiet; auto simp: el_check_def se_begin_def Let_def split: if_splits)+
qed

text \<open>The leader's new entry is a new link.\<close>

lemma matching_inv_append:
  assumes "matching_inv C K R c" and "entries_inv C K c" and "entries_inv C K' c'" and "K \<subseteq> K'"
    and "i \<in> ids_of C" and "nstate (cl_node c i) = LEADER" and "st_writable (storage (cl_node c i))"
    and "le_term e = currentTerm (cl_node c i)" and "le_index e = getLastLogIndex (cl_node c i) + 1"
    and "c' = set_node i (appendLocal e (cl_node c i)) c"
  shows "\<exists>R'. matching_inv C K' R' c'"
proof -
  let ?n = "cl_node c i"
  let ?s = "appendLocal e ?n"
  let ?l = "(le_index e, le_term e, getLastLogTerm ?n)"
  let ?R = "insert ?l R"
  note D = matching_invD [OF assms(1)]
  have new: "(le_index e, le_term e, p) \<notin> R" for p
  proof
    assume "(le_index e, le_term e, p) \<in> R"
    from D(2) [OF this] obtain f where "f \<in> K" "le_index f = le_index e" "le_term f = le_term e" by blast
    with entries_invD(5) [OF assms(2,5,6) this(1)] assms(8,9) show False by simp
  qed
  have "e \<in> K'"
    using keeps_withinD [OF entries_invD(4) [OF assms(3,5)]]
    by (simp add: assms(10) set_node_def appendLocal_def frame)
  with D(2) assms(4) have dom: "\<exists>f \<in> K'. le_index f = j \<and> le_term f = T" if "(j, T, p) \<in> ?R" for j T p
    using that by (cases "(j, T, p) \<in> R") (blast | auto)+
  have fn: "p = p'" if "(j, T, p) \<in> ?R" "(j, T, p') \<in> ?R" for j T p p'
    using that new D(1) by auto
  have mono: "R \<subseteq> ?R" by blast
  note wf = log_linked_wf [OF D(4) [OF assms(5)]]
  have "logs ?s = logs ?n @ [e]" "lastIncludedIndex ?s = lastIncludedIndex ?n" "lastIncludedTerm ?s = lastIncludedTerm ?n"
    by (simp_all add: appendLocal_def frame)
  with linked_sets_mono(1) [OF mono D(4) [OF assms(5)]] assms(9) getLastLogIndex_eq [OF wf]
  have s: "log_linked ?R ?s"
    by (simp add: log_linked_def last_term_end [symmetric])
  have sync: "synced ?n ?s"
    using assms(7) by (simp add: synced_def appendLocal_durable)
  have "\<forall>k \<in> ids_of C. log_linked ?R (cl_node c' k) \<and> store_linked ?R (cl_node c' k)"
  proof
    fix k
    assume k: "k \<in> ids_of C"
    show "log_linked ?R (cl_node c' k) \<and> store_linked ?R (cl_node c' k)"
      using s store_linked_step [OF linked_sets_mono(2) [OF mono D(5) [OF assms(5)]] sync s]
        linked_sets_mono [OF mono, of "cl_node c k"] D(4,5) [OF k]
      by (cases "k = i") (simp_all add: assms(10) set_node_def)
  qed
  moreover have "\<forall>j args. AppendReq j args \<in> cl_net c' \<longrightarrow>
      linked ?R (ae_prevLogIndex args) (ae_prevLogTerm args) (ae_entries args)"
    using D(3) linked_mono [OF _ mono] by (simp add: assms(10) set_node_def)
  moreover have "\<forall>j T p p'. (j, T, p) \<in> ?R \<and> (j, T, p') \<in> ?R \<longrightarrow> p = p'"
    using fn by blast
  moreover have "\<forall>j T p. (j, T, p) \<in> ?R \<longrightarrow> (\<exists>f \<in> K'. le_index f = j \<and> le_term f = T)"
    using dom by blast
  ultimately have "matching_inv C K' ?R c'"
    unfolding matching_inv_def by (intro conjI)
  then show ?thesis by blast
qed

lemma orderly_matching:
  assumes "config_valid C" and "orderly C L c c'" and "cl_inv C c"
    and "matching_inv C K R c" and "entries_inv C K c" and "entries_inv C K' c'" and "K \<subseteq> K'"
  shows "\<exists>R'. matching_inv C K' R' c'"
proof -
  note D = matching_invD [OF assms(4)]
  have mem: "member_ok C i (cl_node c i)" if "i \<in> ids_of C" for i
    using assms(3) that by (simp add: cl_inv_def)
  note w = member_writable [OF mem]
  have step: "cstep C L c c'" and numbered: "\<And>j args. AppendReq j args \<in> cl_net c' \<Longrightarrow> ae_wf args"
    using assms(2) by (simp_all add: orderly_def)
  have node: ?thesis if "i \<in> ids_of C" "synced (cl_node c i) s" "log_linked R s"
      "cl_node c' = (cl_node c)(i := s)" "\<And>j args. AppendReq j args \<in> cl_net c' \<Longrightarrow> AppendReq j args \<in> cl_net c" for i s
    using matching_inv_node [OF assms(4,7) _ that(4,5)] that(3)
      store_linked_step [OF D(5) [OF that(1)] that(2,3)] by blast
  have same: "log_linked R s" if "i \<in> ids_of C" "logs s = logs (cl_node c i)"
      "lastIncludedIndex s = lastIncludedIndex (cl_node c i)" "lastIncludedTerm s = lastIncludedTerm (cl_node c i)" for i s
    using log_linked_cong [OF that(2-4)] D(4) [OF that(1)] by simp
  have send: ?thesis if "cl_node c' = cl_node c" "\<And>j args. AppendReq j args \<in> cl_net c' \<Longrightarrow> AppendReq j args \<in> cl_net c \<or>
      linked R (ae_prevLogIndex args) (ae_prevLogTerm args) (ae_entries args)"
    using matching_inv_send [OF assms(4,7) that] by blast
  show ?thesis
    using step
  proof cases
    case (own i s)
    from local_step_linked [OF mem [OF own(2)] own(3) D(4) [OF own(2)]] show ?thesis
      using matching_inv_append [OF assms(4-7) own(2) _ w [OF own(2)]] own(1,2)
        node [OF own(2), of s] by (auto simp: set_node_def)
  next
    case (start_election i args s)
    have s: "s = becomeCandidate (cl_node c i)"
      using start_election(3) by (auto simp: se_begin_def Let_def split: if_splits)
    show ?thesis
      using start_election(1) synced_becomeCandidate [OF w [OF start_election(2)]]
      by (intro node [OF start_election(2), of s] same [OF start_election(2)]) (auto simp: s frame set_node_def)
  next
    case (request_vote j args reply s)
    have "synced (cl_node c j) s" "logs s = logs (cl_node c j)"
      "lastIncludedIndex s = lastIncludedIndex (cl_node c j)" "lastIncludedTerm s = lastIncludedTerm (cl_node c j)"
      using handleRequestVote_frame [of args "cl_node c j"] synced_handleRequestVote [OF w [OF request_vote(2)], of args]
      by (simp_all add: request_vote(4))
    then show ?thesis
      using request_vote(1)
      by (intro node [OF request_vote(2), of s] same [OF request_vote(2)]) (auto simp: set_node_def)
  next
    case (count_vote i args granted j reply res s)
    let ?n = "cl_node c i"
    have "synced ?n s \<and> logs s = logs ?n \<and> lastIncludedIndex s = lastIncludedIndex ?n \<and>
        lastIncludedTerm s = lastIncludedTerm ?n"
      using count_vote(5)
    proof (cases rule: se_reply_cases)
      case behind
      then show ?thesis using synced_becomeFollower [OF w [OF count_vote(2)]] by (simp add: frame)
    next
      case won
      then show ?thesis by (auto simp: becomeLeader_def frame intro: synced_same)
    qed (simp_all add: synced_refl)
    then show ?thesis
      using count_vote(1)
      by (intro node [OF count_vote(2), of s] same [OF count_vote(2)]) (auto simp: set_node_def)
  next
    case (send_append i k peer T args)
    have "ae_wf args"
      using numbered [of "pi_id peer" args] by (simp add: send_append(1))
    from rtp_prepare_linked [OF D(4) [OF send_append(2)] send_append(3) this] show ?thesis
      by (intro send) (auto simp: send_append(1))
  next
    case (send_heartbeat i T args peer)
    then have "ae_entries args = []"
      by (auto simp: srih_prepare_def split: if_splits)
    then show ?thesis
      by (intro send) (auto simp: send_heartbeat(1))
  next
    case (send_snapshot i k peer T sargs)
    then show ?thesis by (intro send) auto
  next
    case (append_entries j args)
    let ?n = "cl_node c j"
    show ?thesis
      using synced_handleAppendEntries [OF w [OF append_entries(2)], of L args]
        handleAppendEntries_linked [OF D(4) [OF append_entries(2)] D(3) [OF append_entries(3)], of L]
      by (rule node [OF append_entries(2)]) (simp_all add: append_entries(1) set_node_def)
  next
    case (install_snapshot j sargs)
    let ?n = "cl_node c j"
    have "snapshot_fits sargs ?n"
      if "currentTerm ?n \<le> sn_term sargs" "lastIncludedIndex ?n < sn_lastIncludedIndex sargs"
      using assms(2) install_snapshot(1,3) that unfolding orderly_def by blast
    from handleInstallSnapshot_linked [OF D(4) [OF install_snapshot(2)] this, of L]
      synced_handleInstallSnapshot [OF w [OF install_snapshot(2)], of L sargs]
    show ?thesis
      by (intro node [OF install_snapshot(2)]) (simp_all add: install_snapshot(1) set_node_def)
  next
    case (crash self opn now r)
    let ?n = "cl_node c (pi_id self)"
    let ?s = "boot (L\<lparr>ldb_Open := opn\<rparr>) C self (st_file (storage ?n)) now r"
    have i: "pi_id self \<in> ids_of C"
      using crash(2) by (simp add: ids_of_def)
    from D(5) [OF i] crash(3) have "st_file (storage ?n) = None \<or>
        (\<exists>v. st_file (storage ?n) = Some (save_text v) \<and> saved_ok v \<and> saved_linked R v)"
      unfolding store_linked_def by blast
    from boot_linked [OF this] have "log_linked R ?s \<and> store_linked R ?s" by blast
    then show ?thesis
      using matching_inv_node [OF assms(4,7), of "pi_id self" ?s c'] crash(1) by (auto simp: set_node_def)
  qed
qed

lemma matching_inv_init:
  assumes "cluster_init C L c"
  shows "matching_inv C {} {} c"
proof -
  have "log_linked {} (cl_node c i) \<and> store_linked {} (cl_node c i)" if i: "i \<in> ids_of C" for i
  proof -
    from i assms obtain self now r where "cl_node c i = boot L C self None now r"
      by (auto simp: ids_of_def cluster_init_def)
    with boot_linked [of None "{}" L C self now r] show ?thesis by simp
  qed
  with assms show ?thesis by (simp add: matching_inv_def cluster_init_def)
qed

lemma orderly_inv:
  assumes "config_valid C" and "cluster_init C L c0" and "(orderly C L)\<^sup>*\<^sup>* c0 c"
  shows "\<exists>K R. entries_inv C K c \<and> matching_inv C K R c"
  using assms(3)
proof (induction rule: rtranclp_induct)
  case base
  show ?case using entries_inv_init [OF assms(2)] matching_inv_init [OF assms(2)] by blast
next
  case (step c c')
  then obtain K R where K: "entries_inv C K c" "matching_inv C K R c" by blast
  from step(2) have cs: "cstep C L c c'" by (simp add: orderly_def)
  from reachable_inv [OF assms(1,2) orderly_cstep [OF step(1)]]
  have inv: "cl_inv C c" "einv (cluster_decides C) (abs_cluster C c)" by simp_all
  from cstep_inv [OF assms(1) cs inv] spec_step_einv inv(2)
  have "einv (cluster_decides C) (abs_cluster C c')" by blast
  from cstep_entries [OF assms(1) cs inv this K(1)] obtain K' where
    "K \<subseteq> K'" "entries_inv C K' c'" by blast
  with orderly_matching [OF assms(1) step(2) inv(1) K(2,1)] show ?case by blast
qed

text \<open>Where the terms at an index agree, they agree at every index below that both logs still have.\<close>

lemma linked_agree:
  assumes "\<And>i T p p'. (i, T, p) \<in> R \<Longrightarrow> (i, T, p') \<in> R \<Longrightarrow> p = p'"
    and "log_linked R s" and "log_linked R t"
    and "n \<le> getLastLogIndex s" and "n \<le> getLastLogIndex t" and "getLogTermAt n s = getLogTermAt n t"
    and "lastIncludedIndex s \<le> m" and "lastIncludedIndex t \<le> m" and "m \<le> n"
  shows "getLogTermAt m s = getLogTermAt m t"
  using assms(9,7,8)
proof (induction m rule: int_le_induct)
  case base
  show ?case by (rule assms(6))
next
  case (step i)
  then have "getLogTermAt i s = getLogTermAt i t" by simp
  moreover have "(i, getLogTermAt i s, getLogTermAt (i - 1) s) \<in> R" "(i, getLogTermAt i t, getLogTermAt (i - 1) t) \<in> R"
    using log_linked_link [OF assms(2), of i] log_linked_link [OF assms(3), of i] step assms(4,5) by simp_all
  ultimately show ?case using assms(1) by metis
qed

lemma log_matching_aux:
  assumes "config_valid C" and "cluster_init C L c0" and "(orderly C L)\<^sup>*\<^sup>* c0 c"
    and "i \<in> ids_of C" and "j \<in> ids_of C"
    and "n \<le> getLastLogIndex (cl_node c i)" and "n \<le> getLastLogIndex (cl_node c j)"
    and "getLogTermAt n (cl_node c i) = getLogTermAt n (cl_node c j)"
    and "lastIncludedIndex (cl_node c i) < m" and "lastIncludedIndex (cl_node c j) < m" and "m \<le> n"
  shows "logs (cl_node c i) ! nat (logIndexToPos m (cl_node c i)) =
    logs (cl_node c j) ! nat (logIndexToPos m (cl_node c j))"
proof -
  from orderly_inv [OF assms(1-3)] obtain K R where K: "entries_inv C K c" and R: "matching_inv C K R c"
    by blast
  note D = matching_invD [OF R]
  have t: "getLogTermAt m (cl_node c i) = getLogTermAt m (cl_node c j)"
    using linked_agree [OF D(1) D(4) [OF assms(4)] D(4) [OF assms(5)] assms(6-8)] assms(9-11) by simp
  have e: "logs (cl_node c k) ! nat (logIndexToPos m (cl_node c k)) \<in> K \<and>
      le_term (logs (cl_node c k) ! nat (logIndexToPos m (cl_node c k))) = getLogTermAt m (cl_node c k) \<and>
      le_index (logs (cl_node c k) ! nat (logIndexToPos m (cl_node c k))) = m"
    if "k \<in> ids_of C" "lastIncludedIndex (cl_node c k) < m" "m \<le> getLastLogIndex (cl_node c k)" for k
  proof -
    let ?s = "cl_node c k"
    note wf = log_linked_wf [OF D(4) [OF that(1)]]
    have p: "nat (logIndexToPos m ?s) < length (logs ?s)"
      using that(2,3) getLastLogIndex_eq [OF wf] by (simp add: logIndexToPos_def)
    moreover have "getLogTermAt m ?s = le_term (logs ?s ! nat (logIndexToPos m ?s))"
      using that getLastLogIndex_eq [OF wf] D(4) [OF that(1)]
      by (subst getLogTermAt_in) (auto simp: logIndexToPos_def log_linked_def)
    ultimately show ?thesis
      using keeps_withinD [OF entries_invD(4) [OF K that(1)]] log_nth_index [OF wf p] that(2) nth_mem [OF p]
      by (auto simp: logIndexToPos_def)
  qed
  from e [OF assms(4,9)] e [OF assms(5,10)] t assms(6,7,11) entries_invD(1) [OF K] show ?thesis
    by (auto simp: one_content_def)
qed

text \<open>Messages stay in the network, so a run is orderly when the messages at its end are, and none is a
  snapshot.\<close>

lemma cstep_net: "cstep C L c c' \<Longrightarrow> cl_net c \<subseteq> cl_net c'"
  by (erule cstep.cases) (auto simp: set_node_def)

lemma orderly_run:
  assumes "(cstep C L)\<^sup>*\<^sup>* c0 c" and "\<And>j args. SnapReq j args \<notin> cl_net c"
    and "\<And>j args. AppendReq j args \<in> cl_net c \<Longrightarrow> ae_wf args"
  shows "(orderly C L)\<^sup>*\<^sup>* c0 c"
  using assms
proof (induction rule: rtranclp_induct)
  case (step c c')
  note n = subsetD [OF cstep_net [OF step(2)]]
  have "(orderly C L)\<^sup>*\<^sup>* c0 c"
    using step(4,5) n by (intro step(3)) blast+
  moreover have "orderly C L c c'"
    using step(2,4,5) n unfolding orderly_def by blast
  ultimately show ?case by simp
qed simp

end
