(* ===== verification/Examples.thy ===== *)
theory Examples
  imports Undisturbed Log_Matching
begin

text \<open>
  Concrete nodes on the key-value store \<open>mem_leveldb\<close>, made by running the operations of the
  program: a cluster of three started without state files, an election, a client write and its
  replication. The witnesses of the properties are evaluated on them.
\<close>

section \<open>A cluster of three\<close>

definition peer_a :: PeerInfo where
  "peer_a = \<lparr>pi_id = 1, pi_ip = ''10.0.0.1'', pi_port = 9001\<rparr>"

definition peer_b :: PeerInfo where
  "peer_b = \<lparr>pi_id = 2, pi_ip = ''10.0.0.2'', pi_port = 9002\<rparr>"

definition peer_c :: PeerInfo where
  "peer_c = \<lparr>pi_id = 3, pi_ip = ''10.0.0.3'', pi_port = 9003\<rparr>"

definition trio :: "PeerInfo list" where
  "trio = [peer_a, peer_b, peer_c]"

definition fresh_a :: "memdb node" where
  "fresh_a = boot mem_leveldb trio peer_a None 0 7"

definition fresh_b :: "memdb node" where
  "fresh_b = boot mem_leveldb trio peer_b None 0 11"

text \<open>Node 1 times out, wins with the vote of node 2, and takes a write of a client.\<close>

definition candidate_a :: "memdb node" where
  "candidate_a = snd (se_begin fresh_a)"

definition vote_request :: RequestVoteArgs where
  "vote_request = \<lparr>rv_term = 1, rv_candidateId = 1, rv_lastLogIndex = 0, rv_lastLogTerm = 0\<rparr>"

definition leader_a :: "memdb node" where
  "leader_a = becomeLeader candidate_a"

definition writer_a :: "memdb node" where
  "writer_a = snd (leaderPut_append ''x'' ''1'' leader_a)"

text \<open>Node 2 grants its vote and takes the entry.\<close>

definition voter_b :: "memdb node" where
  "voter_b = snd (handleRequestVote vote_request fresh_b)"

definition put_x :: LogEntry where
  "put_x = mk_LogEntry 1 1 PUT ''x'' ''1''"

definition append_x :: AppendEntriesArgs where
  "append_x = \<lparr>ae_term = 1, ae_leaderId = 1, ae_prevLogIndex = 0, ae_prevLogTerm = 0,
     ae_entries = [put_x], ae_leaderCommit = 0\<rparr>"

definition follower_b :: "memdb node" where
  "follower_b = snd (handleAppendEntries mem_leveldb append_x voter_b)"

text \<open>Node 1 hears that node 2 has it, and commits.\<close>

definition heard_a :: "memdb node" where
  "heard_a = writer_a\<lparr>matchIndex := [1, 0], nextIndex := [2, 1]\<rparr>"

definition committed_a :: "memdb node" where
  "committed_a = updateCommitIndex mem_leveldb heard_a"

section \<open>The same in a network\<close>

text \<open>A network in which nobody else holds the mutex and no peer answers.\<close>

definition silent :: "(memdb, unit) env" where
  "silent = \<lparr>acquire = (\<lambda>w. w), send_message = (\<lambda>ip port req x. (None, x)), sleep_ms = (\<lambda>ms x. x)\<rparr>"

lemma calm_silent: "calm silent"
  by (simp add: calm_def silent_def steady_refl)

definition snap_x :: InstallSnapshotArgs where
  "snap_x = \<lparr>sn_term = 1, sn_leaderId = 1, sn_lastIncludedIndex = 1, sn_lastIncludedTerm = 1,
     sn_kvData = [(''x'', ''1'')]\<rparr>"

definition commit_x :: AppendEntriesArgs where
  "commit_x = \<lparr>ae_term = 1, ae_leaderId = 1, ae_prevLogIndex = 1, ae_prevLogTerm = 1,
     ae_entries = [mk_LogEntry 1 2 DEL ''x'' ''__del__''], ae_leaderCommit = 1\<rparr>"

definition applied_b :: "memdb node" where
  "applied_b = snd (handleAppendEntries mem_leveldb commit_x follower_b)"

definition rewrite_x :: AppendEntriesArgs where
  "rewrite_x = \<lparr>ae_term = 2, ae_leaderId = 3, ae_prevLogIndex = 1, ae_prevLogTerm = 1,
     ae_entries = [mk_LogEntry 2 2 PUT ''y'' ''2''], ae_leaderCommit = 2\<rparr>"


definition two_puts :: AppendEntriesArgs where
  "two_puts = \<lparr>ae_term = 1, ae_leaderId = 1, ae_prevLogIndex = 1, ae_prevLogTerm = 1,
     ae_entries = [mk_LogEntry 1 2 PUT ''y'' ''2''], ae_leaderCommit = 2\<rparr>"


lemma put_x_ok: "entry_ok put_x"
proof -
  have "le_index put_x = 1" "le_term put_x = 1" "op_named (le_op put_x)" "tokenp (le_key put_x)"
    "tokenp (le_value put_x)" "le_oldConfig put_x = []" "le_newConfig put_x = []"
    by code_simp+
  then show ?thesis
    by (simp add: entry_ok_def config_ok_def size_ok_def int_ok_def INT_MAX_def INT_MIN_def)
qed

lemma follower_b_saved: "saved_ok (persistent_of follower_b)"
proof -
  have "sv_currentTerm (persistent_of follower_b) = 1" "sv_votedFor (persistent_of follower_b) = 1"
    "sv_lastIncludedIndex (persistent_of follower_b) = 0" "sv_lastIncludedTerm (persistent_of follower_b) = 0"
    "sv_logs (persistent_of follower_b) = [put_x]"
    by code_simp+
  then show ?thesis
    by (simp add: saved_ok_def put_x_ok size_ok_def SIZE_MAX_def int_ok_def INT_MAX_def INT_MIN_def)
qed

section \<open>A run in which a reply is late\<close>

type_synonym trio_state = "memdb node \<times> memdb node \<times> memdb node"

text \<open>A client writes to node 1, the leader.\<close>

fun run_put :: "trio_state \<Rightarrow> trio_state" where
  "run_put (a, b, c) = (snd (leaderPut_append ''k'' ''v'' a), b, c)"

text \<open>A message prepared for a peer reaches it; the leader does not see the answer.\<close>

definition reaches :: "AppendEntriesArgs option \<Rightarrow> memdb node \<Rightarrow> memdb node" where
  "reaches m f = (case m of None \<Rightarrow> f | Some args \<Rightarrow> snd (handleAppendEntries mem_leveldb args f))"

definition prepared :: "nat \<Rightarrow> memdb node \<Rightarrow> AppendEntriesArgs option" where
  "prepared k s = (case rtp_prepare k s of Some (Some (_, _, args)) \<Rightarrow> Some args | _ \<Rightarrow> None)"

text \<open>The same, and the leader takes the answer and moves its commit index.\<close>

definition answered :: "nat \<Rightarrow> AppendEntriesArgs option \<Rightarrow> memdb node \<Rightarrow> memdb node \<Rightarrow> memdb node \<times> memdb node" where
  "answered k m s f =
     (case m of None \<Rightarrow> (s, f) | Some args \<Rightarrow>
       (case handleAppendEntries mem_leveldb args f of (r, f') \<Rightarrow>
         (case rtp_finish k (ae_term args) args r s of
            None \<Rightarrow> (s, f')
          | Some (_, t) \<Rightarrow> (updateCommitIndex mem_leveldb t, f'))))"

fun run_b :: "trio_state \<Rightarrow> trio_state" where
  "run_b (a, b, c) = (case answered 0 (prepared 0 a) a b of (a', b') \<Rightarrow> (a', b', c))"

fun run_c :: "trio_state \<Rightarrow> trio_state" where
  "run_c (a, b, c) = (case answered 1 (prepared 1 a) a c of (a', c') \<Rightarrow> (a', b, c'))"

fun run_snap_c :: "trio_state \<Rightarrow> trio_state" where
  "run_snap_c (a, b, c) =
     (case sstp_prepare mem_leveldb 1 a of None \<Rightarrow> (a, b, c) | Some (_, T, args) \<Rightarrow>
       (case handleInstallSnapshot mem_leveldb args c of (r, c') \<Rightarrow>
         (case sstp_finish 1 T r a of None \<Rightarrow> (a, b, c') | Some (_, a') \<Rightarrow> (a', b, c'))))"

fun run_late_b :: "trio_state \<Rightarrow> trio_state" where
  "run_late_b (a, b, c) = (a, reaches (prepared 0 a) b, c)"

definition trio_start :: trio_state where
  "trio_start = (leader_a, voter_b, boot mem_leveldb trio peer_c None 0 13)"

text \<open>
  Five writes reach node 2 and are committed, and the leader compacts. Node 3 is brought up by a
  snapshot and takes the sixth write, which commits it. Node 2 takes the sixth write together
  with the commit index 6 and compacts; its answer is late. A seventh write is sent to node 2 from
  the same \<open>nextIndex\<close>, and this answer arrives.
\<close>

definition late_run :: trio_state where
  "late_run =
     (let s5 = run_b (run_put (run_put (run_put (run_put (run_put trio_start)))));
          s6 = run_c (run_snap_c (run_put s5))
      in run_b (run_put (run_late_b s6)))"

text \<open>A network in which every peer accepts.\<close>

definition agreeing :: "(memdb, unit) env" where
  "agreeing = \<lparr>acquire = (\<lambda>w. w), send_message = (\<lambda>ip port req x. (Some ''AER 1 1'', x)), sleep_ms = (\<lambda>ms x. x)\<rparr>"

definition shrunk_a :: "memdb node" where
  "shrunk_a = applyConfigEntry \<lparr>le_term = 1, le_index = 2, le_op = CONFIG_NEW, le_key = [], le_value = [],
     le_oldConfig = [], le_newConfig = [peer_a, peer_b]\<rparr> leader_a"

text \<open>What a follower with an empty log makes of such a message: a log that does not start at 1.\<close>

definition behind_a :: "memdb node" where
  "behind_a = snd (leaderPut_append ''y'' ''2'' (createSnapshot 1 (committed_a\<lparr>nextIndex := [2, 1]\<rparr>)))"

text \<open>A network whose peers are silent; at its third turn another thread of the node takes a message of a
  new leader.\<close>

definition overtaking :: "AppendEntriesArgs \<Rightarrow> (memdb, nat) env" where
  "overtaking args = \<lparr>acquire = (\<lambda>(s, n). (if n = 2 then snd (handleAppendEntries mem_leveldb args s) else s, n + 1)),
     send_message = (\<lambda>ip port req x. (None, x)), sleep_ms = (\<lambda>ms x. x)\<rparr>"

definition usurping :: AppendEntriesArgs where
  "usurping = \<lparr>ae_term = 2, ae_leaderId = 3, ae_prevLogIndex = 0, ae_prevLogTerm = 0,
     ae_entries = [mk_LogEntry 2 1 PUT ''y'' ''2''], ae_leaderCommit = 1\<rparr>"

lemma examples_ok: "rv_ok vote_request" "ae_ok append_x" "sn_ok snap_x"
proof -
  show "rv_ok vote_request" by (simp add: rv_ok_def vote_request_def)
  have "tokenp ''x''" "tokenp ''1''" by (simp_all add: tokenp_def isspace_def)
  then show "sn_ok snap_x"
    by (simp add: sn_ok_def snap_x_def size_ok_def SIZE_MAX_def smap_ok_def kv_ok_def)
  show "ae_ok append_x"
    by (simp add: ae_ok_def append_x_def put_x_ok size_ok_def SIZE_MAX_def)
qed

lemma trio_peers_ok: "peer_ok peer_a" "peer_ok peer_b" "peer_ok peer_c"
  by (simp_all add: peer_ok_def peer_a_def peer_b_def peer_c_def tokenp_def isspace_def)

definition trio_file :: "string list" where
  "trio_file = [''# members'', show_peer peer_a, [], show_peer peer_b, show_peer peer_c]"

lemma trio_file_lines: "\<forall>l \<in> set trio_file. CHR 0x0A \<notin> set l" "filter node_line trio_file = map show_peer trio"
proof -
  have "\<forall>l \<in> set trio_file. list_all (\<lambda>c. c \<noteq> CHR 0x0A) l" "filter node_line trio_file = map show_peer trio"
    by code_simp+
  then show "\<forall>l \<in> set trio_file. CHR 0x0A \<notin> set l" "filter node_line trio_file = map show_peer trio"
    by (auto simp: list_all_iff)
qed

definition only_c_answers :: "nat clerk_env" where
  "only_c_answers = \<lparr>read_file = \<lambda>f x. Some (file_of trio_file),
     send_request = \<lambda>ip port req x. (if ip = ''10.0.0.3'' then Some ''OK'' else None, x + 1)\<rparr>"

section \<open>A run of the cluster\<close>

definition fresh_c :: "memdb node" where
  "fresh_c = boot mem_leveldb trio peer_c None 0 13"

definition quiet_cluster :: "memdb cluster" where
  "quiet_cluster = \<lparr>cl_node = (\<lambda>i. if i = 1 then fresh_a else if i = 2 then fresh_b else fresh_c),
     cl_net = {}, cl_camp = (\<lambda>_. None), cl_votes = {}, cl_won = {}\<rparr>"

definition voted :: RequestVoteReply where
  "voted = \<lparr>rvr_term = 1, rvr_voteGranted = True\<rparr>"

definition elected_cluster :: "memdb cluster" where
  "elected_cluster = \<lparr>cl_node = (\<lambda>i. if i = 1 then leader_a else if i = 2 then voter_b else fresh_c),
     cl_net = {VoteReq 2 vote_request, VoteReq 3 vote_request, VoteRep 2 vote_request voted},
     cl_camp = (\<lambda>_. None), cl_votes = {(1, 1, 1), (2, 1, 1)}, cl_won = {(1, 1)}\<rparr>"

lemma trio_valid: "config_valid trio" "ids_of trio = {1, 2, 3}" "cluster_init trio mem_leveldb quiet_cluster"
proof -
  show "config_valid trio" "ids_of trio = {1, 2, 3}"
    by (simp_all add: config_valid_def ids_of_def trio_def peer_a_def peer_b_def peer_c_def)
  have "pi_id peer_a = 1" "pi_id peer_b = 2" "pi_id peer_c = 3"
    by (simp_all add: peer_a_def peer_b_def peer_c_def)
  then show "cluster_init trio mem_leveldb quiet_cluster"
    by (auto simp: cluster_init_def quiet_cluster_def trio_def fresh_a_def fresh_b_def fresh_c_def)
qed

text \<open>Node 1 starts an election, node 2 votes, node 1 counts the vote and leads.\<close>

lemma trio_elects: "(cstep trio mem_leveldb)\<^sup>*\<^sup>* quiet_cluster elected_cluster"
proof -
  let ?c1 = "set_node 1 candidate_a (quiet_cluster\<lparr>
      cl_net := {VoteReq 2 vote_request, VoteReq 3 vote_request},
      cl_camp := (\<lambda>_. None)(1 \<mapsto> (vote_request, [1])), cl_votes := {(1, 1, 1)}\<rparr>)"
  let ?c2 = "set_node 2 voter_b (?c1\<lparr>cl_net := {VoteReq 2 vote_request, VoteReq 3 vote_request, VoteRep 2 vote_request voted},
      cl_votes := {(1, 1, 1), (2, 1, 1)}\<rparr>)"
  have v: "rv_term vote_request = 1" "rv_candidateId vote_request = 1" "rvr_voteGranted voted"
    by (simp_all add: vote_request_def voted_def)
  have b: "se_begin fresh_a = (Some vote_request, candidate_a)"
    unfolding candidate_a_def prod_eq_iff by (simp, code_simp)
  have p: "peers candidate_a = [peer_b, peer_c]" "pi_id peer_b = 2" "pi_id peer_c = 3"
    by code_simp+
  have h: "handleRequestVote vote_request fresh_b = (voted, voter_b)"
    unfolding voter_b_def prod_eq_iff by (simp, code_simp)
  have "fst (se_reply 1 2 voted [1] candidate_a) = None" "hasElectionMajority [1, 2] candidate_a"
    "nstate candidate_a = CANDIDATE \<and> currentTerm candidate_a = 1" "\<not> 1 < (0 :: int)"
    by code_simp+
  then have w: "se_reply 1 2 voted [1] candidate_a = (None, leader_a)"
    by (simp add: se_reply_def voted_def leader_a_def)
  have l: "nstate leader_a = LEADER" "currentTerm leader_a = 1"
    by code_simp+
  have n: "(\<lambda>i :: int. if i = 1 then fresh_a else if i = 2 then fresh_b else fresh_c)(2 := voter_b, 1 := leader_a) =
      (\<lambda>i. if i = 1 then leader_a else if i = 2 then voter_b else fresh_c)"
    by (rule ext) simp
  have "cstep trio mem_leveldb quiet_cluster ?c1"
    using cstep.start_election [of 1 trio quiet_cluster vote_request candidate_a mem_leveldb] b p v
    by (simp add: trio_valid(2) quiet_cluster_def insert_commute)
  moreover have "cstep trio mem_leveldb ?c1 ?c2"
    using cstep.request_vote [of 2 trio vote_request ?c1 voted voter_b mem_leveldb] h v
    by (simp add: trio_valid(2) quiet_cluster_def set_node_def insert_commute)
  moreover have "cstep trio mem_leveldb ?c2 elected_cluster"
    using cstep.count_vote [of 1 trio ?c2 vote_request "[1]" 2 voted None leader_a mem_leveldb] w v l
    by (simp add: trio_valid(2) quiet_cluster_def set_node_def elected_cluster_def n)
  ultimately show ?thesis
    by (rule rtranclp.rtrancl_into_rtrancl [OF rtranclp.rtrancl_into_rtrancl [OF r_into_rtranclp]])
qed

text \<open>Then node 1 takes a write, sends it to node 2, and node 2 appends it.\<close>

definition wrote_a :: "memdb node" where
  "wrote_a = snd (leaderPut_append ''k'' ''v'' leader_a)"

definition first_entry :: LogEntry where
  "first_entry = mk_LogEntry 1 1 PUT ''k'' ''v''"

definition first_append :: AppendEntriesArgs where
  "first_append = \<lparr>ae_term = 1, ae_leaderId = 1, ae_prevLogIndex = 0, ae_prevLogTerm = 0,
     ae_entries = [first_entry], ae_leaderCommit = 0\<rparr>"

definition copier_b :: "memdb node" where
  "copier_b = snd (handleAppendEntries mem_leveldb first_append voter_b)"

definition written_cluster :: "memdb cluster" where
  "written_cluster = set_node 2 copier_b ((set_node 1 wrote_a elected_cluster)\<lparr>
     cl_net := insert (AppendReq 2 first_append) (cl_net elected_cluster)\<rparr>)"

lemma written_logs: "logs wrote_a = [first_entry]" "logs copier_b = [first_entry]"
  by code_simp+

lemma trio_writes: "(cstep trio mem_leveldb)\<^sup>*\<^sup>* quiet_cluster written_cluster"
proof -
  let ?c1 = "set_node 1 wrote_a elected_cluster"
  let ?c2 = "?c1\<lparr>cl_net := insert (AppendReq 2 first_append) (cl_net ?c1)\<rparr>"
  have n: "cl_node elected_cluster 1 = leader_a" "cl_node elected_cluster 2 = voter_b"
    by (simp_all add: elected_cluster_def)
  have "rtp_prepare 0 wrote_a = Some (Some (peer_b, 1, first_append))"
    by code_simp
  moreover have "pi_id peer_b = 2" by code_simp
  ultimately have "cstep trio mem_leveldb ?c1 ?c2"
    using cstep.send_append [of 1 trio 0 ?c1 peer_b 1 first_append mem_leveldb]
    by (simp add: trio_valid(2) set_node_def)
  moreover have "cstep trio mem_leveldb elected_cluster ?c1"
    using cstep.own [OF _ local_step.client_put, of 1 trio mem_leveldb elected_cluster "''k''" "''v''"]
    by (simp add: trio_valid(2) n wrote_a_def)
  moreover have "cstep trio mem_leveldb ?c2 written_cluster"
    using cstep.append_entries [of 2 trio first_append ?c2 mem_leveldb]
    by (simp add: trio_valid(2) set_node_def written_cluster_def copier_b_def n)
  ultimately show ?thesis
    using trio_elects by (meson rtranclp.rtrancl_into_rtrancl)
qed

lemma trio_writes_orderly: "(orderly trio mem_leveldb)\<^sup>*\<^sup>* quiet_cluster written_cluster"
  using trio_writes
  by (rule orderly_run)
    (auto simp: written_cluster_def elected_cluster_def set_node_def ae_wf_def first_append_def first_entry_def mk_LogEntry_def)

end
