(* ===== verification/Node_Properties.thy ===== *)
theory Node_Properties
  imports Examples
begin

text \<open>
  What the handlers of a node guarantee (\<open>handleRequestVote\<close>, \<open>handleAppendEntries\<close>,
  \<open>handleInstallSnapshot\<close>, \<open>applyCommittedLogs\<close>, \<open>createSnapshot\<close>, the constructor after a
  crash), each with a concrete instance, and the cases in which they do not do what the protocol
  needs.
\<close>

section \<open>RequestVote\<close>

text \<open>C9: A vote is granted exactly when the node is a voting member, the candidate is in the current
  configuration, the term is not old, the node has not voted for someone else in that term, and
  the candidate's log ends at or after the node's in Raft's order. The node then has the term and
  the vote, and so has the state file, where it can be written (\<open>persist\<close> ignores that it cannot).\<close>

theorem vote_granted_iff:
  assumes "handleRequestVote args s = (r, t)"
  shows "(rvr_voteGranted r \<longleftrightarrow>
      votingMember s \<and> isNodeInCurrentVotingConfig (rv_candidateId args) s \<and>
      currentTerm s \<le> rv_term args \<and>
      (currentTerm s = rv_term args \<longrightarrow> votedFor s = -1 \<or> votedFor s = rv_candidateId args) \<and>
      last_pos s \<le> LogPos (rv_lastLogTerm args) (rv_lastLogIndex args)) \<and>
    (rvr_voteGranted r \<longrightarrow> currentTerm t = rv_term args \<and> votedFor t = rv_candidateId args \<and>
      (st_writable (storage s) \<longrightarrow> durable t))"
  using assms
  by (auto simp: handleRequestVote_def Let_def frame effect isCandidateLogUpToDate_order
      last_pos_def getLastLogIndex_def getLastLogTerm_def durable_persist split: if_splits)

lemma vote_granted_iff_witness:
  "handleRequestVote vote_request fresh_b = (\<lparr>rvr_term = 1, rvr_voteGranted = True\<rparr>, voter_b) \<and>
   currentTerm voter_b = 1 \<and> votedFor voter_b = 1 \<and> durable voter_b"
proof -
  have h: "handleRequestVote vote_request fresh_b = (\<lparr>rvr_term = 1, rvr_voteGranted = True\<rparr>, voter_b)"
    unfolding voter_b_def prod_eq_iff by (simp, code_simp)
  moreover have "st_writable (storage fresh_b)" "rv_term vote_request = 1" "rv_candidateId vote_request = 1"
    by code_simp+
  ultimately show ?thesis
    using vote_granted_iff [OF h] by simp
qed

section \<open>AppendEntries\<close>

text \<open>C12: AppendEntries keeps the node in order: when the entries of the message are numbered from
  \<open>prevLogIndex\<close> on and contradict no committed entry, the log stays numbered without gaps from the
  snapshot on, \<open>lastIncludedIndex\<close>, \<open>lastApplied\<close>, \<open>commitIndex\<close> and the last index stay in that order,
  with one \<open>nextIndex\<close> and \<open>matchIndex\<close> per peer, whatever branch the handler takes. The handler
  checks neither of the message.\<close>

theorem append_entries_keeps_order:
  assumes "node_ok s" and "ae_wf args" and "ae_consistent args s"
  shows "node_ok (snd (handleAppendEntries L args s))"
  using assms by (rule handleAppendEntries_ok_aux)

lemma append_entries_keeps_order_witness: "node_ok (snd (handleAppendEntries mem_leveldb append_x voter_b))"
proof (rule append_entries_keeps_order)
  show "node_ok voter_b" by code_simp
  show "ae_wf append_x" by code_simp
  show "ae_consistent append_x voter_b" by code_simp
qed

text \<open>C10: What AppendEntries does to committed entries depends on the message alone, the handler has no guard
  of its own: when the entries, numbered from \<open>prevLogIndex\<close> on, contradict no committed entry, the
  commit index does not go down and every committed entry still in the log is the one that was
  there before; when the message is accepted, matches at \<open>prevLogIndex\<close> and contradicts a committed
  entry, a committed entry is overwritten.\<close>

theorem append_entries_keeps_committed:
  assumes "node_ok s" and "ae_wf args" and "handleAppendEntries L args s = (r, t)"
  shows "(ae_consistent args s \<longrightarrow> commitIndex s \<le> commitIndex t \<and>
      (\<forall>a \<ge> lastIncludedIndex t. log_slice a (commitIndex s) t = log_slice a (commitIndex s) s)) \<and>
    (ae_accepted args s \<and> ae_match args s \<and> \<not> ae_consistent args s \<longrightarrow>
      (\<exists>i \<le> commitIndex s. lastIncludedIndex s < i \<and>
        (lastIncludedIndex t \<le> i \<longrightarrow> getLogTermAt i t \<noteq> getLogTermAt i s)))"
  using handleAppendEntries_slice [OF assms(1,2) _ assms(3)] disagreeing_append_overwrites [OF assms(1,2) _ _ _ assms(3)]
  by blast

lemma append_entries_keeps_committed_witness:
  "1 \<le> commitIndex (snd (handleAppendEntries mem_leveldb rewrite_x applied_b)) \<and>
   log_slice 0 1 (snd (handleAppendEntries mem_leveldb rewrite_x applied_b)) = [put_x]"
proof -
  have "node_ok applied_b" "ae_wf rewrite_x" "ae_consistent rewrite_x applied_b"
    "lastIncludedIndex (snd (handleAppendEntries mem_leveldb rewrite_x applied_b)) \<le> 0"
    "commitIndex applied_b = 1" "log_slice 0 1 applied_b = [put_x]"
    by code_simp+
  with append_entries_keeps_committed [OF this(1,2) prod.collapse [symmetric], of mem_leveldb] show ?thesis
    by force
qed

text \<open>C11: The append loop of AppendEntries, which compares and truncates entry by entry, computes the
  reference definition \<open>append_ref\<close>: find the first received entry whose term differs from the
  local one, cut there and append the rest; when nothing differs the log is left alone, so that
  an old, reordered message never shortens it.\<close>

theorem append_loop_is_append_ref:
  assumes "log_wf s" and "numbered_from le_index prev es"
    and "lastIncludedIndex s \<le> prev" and "prev \<le> getLastLogIndex s"
  shows "fst (appendLoop es s changed) =
    s\<lparr>logs := append_ref (nat (prev - lastIncludedIndex s)) es (logs s)\<rparr>"
  using assms by (rule appendLoop_ref)

lemma append_loop_is_append_ref_witness:
  "logs (fst (appendLoop [put_x, mk_LogEntry 2 2 PUT ''y'' ''2''] follower_b False)) =
     [put_x, mk_LogEntry 2 2 PUT ''y'' ''2''] \<and>
   logs (fst (appendLoop [] follower_b False)) = [put_x]"
proof -
  have l: "log_wf follower_b" "lastIncludedIndex follower_b = 0" "getLastLogIndex follower_b = 1"
    "logs follower_b = [put_x]"
    by code_simp+
  have n: "numbered_from le_index 0 [put_x, mk_LogEntry 2 2 PUT ''y'' ''2'']"
    by code_simp
  have r: "append_ref 0 [put_x, mk_LogEntry 2 2 PUT ''y'' ''2''] [put_x] =
      [put_x, mk_LogEntry 2 2 PUT ''y'' ''2'']"
    by code_simp
  show ?thesis
    using append_loop_is_append_ref [OF l(1) n, of False] append_loop_is_append_ref [OF l(1), of 0 "[]" False]
      l r by (simp add: append_ref_def)
qed

lemma el_check_deferred:
  "timers s = (c, c, 1500 + r mod 1500) \<Longrightarrow> d < 1500 \<Longrightarrow> \<not> fst (el_check (s\<lparr>clk := c + d\<rparr>))"
  using pos_mod_sign [of 1500 r]
  by (auto simp: el_check_def isElectionTimeout_def timers_def)

text \<open>C23: A follower that takes AppendEntries from a current leader restarts its timer with a timeout of
  at least 1500 ms: during that time the election loop does not start an election. It does when
  3000 ms have passed without a message and the node is a voting member of its configuration.\<close>

theorem leader_contact_defers_election:
  assumes "ae_accepted args s" and "handleAppendEntries L args s = (r, t)"
  shows "(\<forall>d < 1500. \<not> fst (el_check (t\<lparr>clk := clk s + d\<rparr>))) \<and>
    (\<forall>d \<ge> 3000. votingMember t \<and> \<not> removed t \<and> \<not> leaving t \<and> nstate t \<noteq> LEADER \<and>
      isNodeInCurrentVotingConfig (nid t) t \<longrightarrow> fst (el_check (t\<lparr>clk := clk s + d\<rparr>)))"
proof -
  have t: "timers t = (clk s, clk s, 1500 + rnd s mod 1500)"
    using timers_handleAppendEntries [OF assms(1), of L] assms(2) by simp
  have "electionTimeoutMs t < 3000"
    using t pos_mod_bound [of 1500 "rnd s"] by (simp add: timers_def)
  moreover have "isNodeInCurrentVotingConfig i (t\<lparr>clk := c\<rparr>) = isNodeInCurrentVotingConfig i t" for i c
    by (simp add: isNodeInCurrentVotingConfig_def)
  ultimately show ?thesis
    using el_check_deferred [OF t] t by (auto simp: el_check_def isElectionTimeout_def timers_def)
qed

lemma leader_contact_defers_election_witness:
  "\<not> fst (el_check (follower_b\<lparr>clk := 1499\<rparr>)) \<and> fst (el_check (follower_b\<lparr>clk := 3000\<rparr>))"
proof -
  have a: "ae_accepted append_x voter_b" by code_simp
  have h: "handleAppendEntries mem_leveldb append_x voter_b =
      (fst (handleAppendEntries mem_leveldb append_x voter_b), follower_b)"
    by (simp add: follower_b_def)
  have "clk voter_b = 0" "votingMember follower_b" "\<not> removed follower_b" "\<not> leaving follower_b"
    "nstate follower_b \<noteq> LEADER" "isNodeInCurrentVotingConfig (nid follower_b) follower_b"
    by code_simp+
  then show ?thesis
    using leader_contact_defers_election [OF a h] by simp
qed

text \<open>C13: What a reply promises survives a crash: where the state file was current and can be written, after
  RequestVote, AppendEntries and InstallSnapshot it reads back as the term, the vote, the log and the
  snapshot position the node has, as long as these can be written as text (\<open>saved_ok\<close>).\<close>

theorem handlers_are_durable:
  assumes "durable s"
    and "t \<in> {snd (handleRequestVote rv s), snd (handleAppendEntries L ae s), snd (handleInstallSnapshot L sn s)}"
    and "saved_ok (persistent_of t)"
  shows "storage_load (storage t) = Some (persistent_of t)"
proof -
  have "durable t"
    using assms(1,2) handleRequestVote_durable handleAppendEntries_durable handleInstallSnapshot_durable
    by blast
  then show ?thesis
    using assms(3) by (rule durable_load)
qed

lemma handlers_are_durable_witness:
  "storage_load (storage follower_b) = Some (persistent_of follower_b)"
proof (rule handlers_are_durable)
  show "durable voter_b" by code_simp
  show "follower_b \<in> {snd (handleRequestVote vote_request voter_b),
      snd (handleAppendEntries mem_leveldb append_x voter_b), snd (handleInstallSnapshot mem_leveldb snap_x voter_b)}"
    by (simp add: follower_b_def)
  show "saved_ok (persistent_of follower_b)" by (rule follower_b_saved)
qed

text \<open>C17: Committing applies exactly the entries between \<open>lastApplied\<close> and \<open>commitIndex\<close>, each once and in
  the order of the log: \<open>applyCommittedLogs\<close> is a fold over these entries that runs \<open>applyConfigEntry\<close>
  for a configuration entry and \<open>kv_apply\<close> for any other and counts \<open>lastApplied\<close> up, followed by the
  compaction. On a database that does not fail its contents are
  those of before with the effects of these entries, and \<open>lastApplied\<close> is \<open>commitIndex\<close>.\<close>

theorem committed_entries_applied_once:
  assumes "healthy_leveldb L view" and "node_ok s" and "kv_ready (kvStore s)"
  shows "applyCommittedLogs L s = maybeCreateSnapshot
      (fold (\<lambda>e s. (if le_op e \<in> {CONFIG_JOINT, CONFIG_NEW} then applyConfigEntry e s
                   else s\<lparr>kvStore := kv_apply L e (kvStore s)\<rparr>)\<lparr>lastApplied := lastApplied s + 1\<rparr>)
        (log_slice (lastApplied s) (commitIndex s) s) s) \<and>
    kv_look view (kvStore (applyCommittedLogs L s)) =
      fold entry_effect (log_slice (lastApplied s) (commitIndex s) s) (kv_look view (kvStore s)) \<and>
    lastApplied (applyCommittedLogs L s) = commitIndex s"
proof (intro conjI)
  note n = node_okD [OF assms(2)]
  have "applyLoop L s = fold (\<lambda>e s. (if le_op e \<in> {CONFIG_JOINT, CONFIG_NEW} then applyConfigEntry e s
        else s\<lparr>kvStore := kv_apply L e (kvStore s)\<rparr>)\<lparr>lastApplied := lastApplied s + 1\<rparr>)
      (log_slice (lastApplied s) (commitIndex s) s) s"
    using applyLoop_fold [OF n(1,7,5), of L] by (simp add: applyOne_def)
  then show "applyCommittedLogs L s = maybeCreateSnapshot
      (fold (\<lambda>e s. (if le_op e \<in> {CONFIG_JOINT, CONFIG_NEW} then applyConfigEntry e s
                   else s\<lparr>kvStore := kv_apply L e (kvStore s)\<rparr>)\<lparr>lastApplied := lastApplied s + 1\<rparr>)
        (log_slice (lastApplied s) (commitIndex s) s) s)"
    by (simp only: applyCommittedLogs_def)
  show "kv_look view (kvStore (applyCommittedLogs L s)) =
      fold entry_effect (log_slice (lastApplied s) (commitIndex s) s) (kv_look view (kvStore s))"
    using healthy_leveldb.applied_look [OF assms order.refl n(5)] by simp
  show "lastApplied (applyCommittedLogs L s) = commitIndex s"
    by (rule applyCommittedLogs_effect(2) [OF n(1,7,8,5)])
qed

lemma committed_entries_applied_once_witness:
  "kv_look mem_view (kvStore (applyCommittedLogs mem_leveldb (follower_b\<lparr>commitIndex := 1\<rparr>))) ''x'' = Some ''1'' \<and>
   lastApplied (applyCommittedLogs mem_leveldb (follower_b\<lparr>commitIndex := 1\<rparr>)) = 1"
proof -
  let ?s = "follower_b\<lparr>commitIndex := 1\<rparr>"
  have "node_ok ?s" "lastApplied ?s = 0" "log_slice 0 1 ?s = [put_x]" by code_simp+
  moreover have "kv_db (kvStore ?s) = Some []" by code_simp
  ultimately show ?thesis
    using conjunct2 [OF committed_entries_applied_once [OF mem.healthy_leveldb_axioms, of ?s]]
    by (simp add: kv_ready_def put_x_def mk_LogEntry_def entry_effect_def)
qed

section \<open>Compaction and restart\<close>

text \<open>C16: Compaction is invisible: \<open>createSnapshot\<close> drops only applied entries, and the last index and term,
  the term at every index from the new snapshot on, every slice of the log above it, the database
  and the commit index read as before.\<close>

theorem compaction_is_invisible:
  assumes "node_ok s" and "createSnapshot u s = t"
  shows "node_ok t \<and> kvStore t = kvStore s \<and> commitIndex t = commitIndex s \<and>
    lastIncludedIndex s \<le> lastIncludedIndex t \<and> lastIncludedIndex t \<le> lastApplied s \<and>
    last_pos t = last_pos s \<and>
    (\<forall>i \<ge> lastIncludedIndex t. getLogTermAt i t = getLogTermAt i s) \<and>
    (\<forall>a \<ge> lastIncludedIndex t. \<forall>b. log_slice a b t = log_slice a b s)"
proof (cases "u \<le> lastApplied s \<and> lastIncludedIndex s < u")
  case False
  then have "t = s"
    using assms(2) by (auto simp: createSnapshot_def)
  then show ?thesis
    using assms(1) node_okD [OF assms(1)] by simp
next
  case True
  note n = node_okD [OF assms(1)]
  have u: "u \<le> getLastLogIndex s"
    using True n by linarith
  have "node_ok t"
    using assms n u createSnapshot_last(1) [OF n(1,6) u]
    by (auto simp: node_ok_def node_inv_def createSnapshot_log_wf createSnapshot_idx_wf
        createSnapshot_lead_wf timer_wf_def frame)
  then show ?thesis
    using assms(2) n u createSnapshot_last [OF n(1,6) u] createSnapshot_term [OF n(1,6) u]
      createSnapshot_slice [OF n(1), of u] createSnapshot_logs [OF n(1), of u] True
    by (cases "t = s") (auto simp: last_pos_def frame)
qed

lemma compaction_is_invisible_witness:
  "last_pos (createSnapshot 1 committed_a) = LogPos 1 1 \<and> logs (createSnapshot 1 committed_a) = []"
proof -
  have "node_ok committed_a" "last_pos committed_a = LogPos 1 1" "logs (createSnapshot 1 committed_a) = []"
    by code_simp+
  then show ?thesis
    using compaction_is_invisible [of committed_a 1] by simp
qed

text \<open>C14: A crash loses nothing: the node the program makes from the state file has the term, the vote, the
  log and the snapshot position of the node that crashed, and when the log is committed again, up
  to any index at or after the old commit index, the database ends with the contents the node
  would have had without the crash, although entries are applied a second time.\<close>

theorem restart_is_invisible:
  assumes "healthy_leveldb L view" and "node_ok s" and "durable s" and "saved_ok (persistent_of s)"
    and "kv_reflects view m s" and "commitIndex s \<le> c" and "c \<le> getLastLogIndex s"
  shows "persistent_of (restarted L now r s) = persistent_of s \<and> node_ok (restarted L now r s) \<and>
    kv_look view (kvStore (applyCommittedLogs L (restarted L now r s\<lparr>commitIndex := c\<rparr>))) =
    kv_look view (kvStore (applyCommittedLogs L (s\<lparr>commitIndex := c\<rparr>)))"
  using healthy_leveldb.restart_replays_aux [OF assms] restarted_ok [OF assms(2-4)]
    restarted_fields [OF assms(3,4)] node_okD(1) [OF assms(2)]
  by (simp add: persistent_of_def)

lemma restart_is_invisible_witness:
  "persistent_of (restarted mem_leveldb 0 0 follower_b) = persistent_of follower_b \<and>
   kv_look mem_view (kvStore (applyCommittedLogs mem_leveldb (restarted mem_leveldb 0 0 follower_b\<lparr>commitIndex := 1\<rparr>))) =
   kv_look mem_view (kvStore (applyCommittedLogs mem_leveldb (follower_b\<lparr>commitIndex := 1\<rparr>)))"
proof -
  have f: "node_ok follower_b" "durable follower_b" "commitIndex follower_b \<le> 1" "1 \<le> getLastLogIndex follower_b"
    by code_simp+
  have "kv_db (kvStore follower_b) = Some []" "log_slice (lastIncludedIndex follower_b) (lastApplied follower_b) follower_b = []"
    by code_simp+
  then have "kv_reflects mem_view (mem_view []) follower_b"
    by (simp add: kv_reflects_def kv_ready_def kv_look_def)
  then show ?thesis
    using restart_is_invisible [OF mem.healthy_leveldb_axioms f(1,2) _ _ f(3,4), of "mem_view []" 0 0]
    by (simp add: follower_b_saved)
qed

text \<open>C35: An answer can be counted as a copy that was never made: a follower whose snapshot is past
  \<open>prevLogIndex\<close> answers \<open>success\<close> to AppendEntries and keeps its log as it is, and a leader that still
  leads that term and takes the answer raises the follower's \<open>matchIndex\<close> to the end of what it sent,
  although the follower's log ends before that.\<close>

theorem stale_append_counted_as_copy:
  assumes "ae_accepted args f" and "ae_prevLogIndex args < lastIncludedIndex f"
    and "getLastLogIndex f < ae_prevLogIndex args + int (length (ae_entries args))"
    and "handleAppendEntries L args f = (r, f')"
    and "lead_wf s" and "nstate s = LEADER" and "currentTerm s = ae_term args" and "k < length (peers s)"
  shows "aer_success r \<and> logs f' = logs f \<and>
    (\<exists>t. rtp_finish k (currentTerm s) args r s = Some (True, t) \<and>
      getLastLogIndex f' < matchIndex t ! k \<and>
      ae_prevLogIndex args + int (length (ae_entries args)) \<le> matchIndex t ! k)"
proof -
  have "getLastLogIndex f' = getLastLogIndex f" "logs f' = logs f" and r: "r = \<lparr>aer_term = ae_term args, aer_success = True\<rparr>"
    using assms(4) handleAppendEntries_stale [OF assms(1,2), of L] by (auto simp: getLastLogIndex_def frame)
  moreover have "k < length (matchIndex s)" "k < length (nextIndex s)"
    using assms(5,6,8) by (simp_all add: lead_wf_def)
  ultimately show ?thesis
    using assms(3,6,7) by (auto simp: rtp_finish_def vec_get_def vec_set_def)
qed

lemma stale_append_counted_as_copy_witness:
  "let f = snd (handleInstallSnapshot mem_leveldb snap_x fresh_b);
       args = append_x\<lparr>ae_entries := [put_x, mk_LogEntry 1 2 PUT ''y'' ''2'']\<rparr>
   in logs (snd (handleAppendEntries mem_leveldb args f)) = [] \<and>
   (\<exists>t. rtp_finish 0 1 args (fst (handleAppendEntries mem_leveldb args f)) writer_a = Some (True, t) \<and>
      2 \<le> matchIndex t ! 0)"
proof -
  let ?f = "snd (handleInstallSnapshot mem_leveldb snap_x fresh_b)"
  let ?args = "append_x\<lparr>ae_entries := [put_x, mk_LogEntry 1 2 PUT ''y'' ''2'']\<rparr>"
  have "ae_accepted ?args ?f" "ae_prevLogIndex ?args < lastIncludedIndex ?f"
    "getLastLogIndex ?f < ae_prevLogIndex ?args + int (length (ae_entries ?args))"
    "lead_wf writer_a" "nstate writer_a = LEADER" "currentTerm writer_a = ae_term ?args" "0 < length (peers writer_a)"
    by code_simp+
  note w = stale_append_counted_as_copy [OF this(1-3) prod.collapse [symmetric] this(4-7)]
  have "logs ?f = []" "currentTerm writer_a = 1" "ae_prevLogIndex ?args + int (length (ae_entries ?args)) = 2"
    by code_simp+
  with w [of mem_leveldb] show ?thesis by (auto simp: Let_def)
qed

section \<open>InstallSnapshot\<close>

text \<open>C22: InstallSnapshot keeps the node in order and on disk: log, indices, leader tables and timer stay
  well formed on every branch, and the state file holds the new snapshot position.\<close>

theorem install_snapshot_keeps_order:
  assumes "node_ok s" and "durable s"
  shows "node_ok (snd (handleInstallSnapshot L args s)) \<and> durable (snd (handleInstallSnapshot L args s))"
  using assms by (simp add: handleInstallSnapshot_ok_aux handleInstallSnapshot_durable)

lemma install_snapshot_keeps_order_witness:
  "node_ok (snd (handleInstallSnapshot mem_leveldb snap_x voter_b)) \<and>
   durable (snd (handleInstallSnapshot mem_leveldb snap_x voter_b))"
proof -
  have "node_ok voter_b" "durable voter_b" by code_simp+
  then show ?thesis by (rule install_snapshot_keeps_order)
qed

text \<open>Installing a snapshot on a follower whose log ends at or before it leaves the snapshot alone.\<close>

lemma installed_behind:
  assumes "node_ok f" and "currentTerm f \<le> sn_term args"
    and "lastIncludedIndex f < sn_lastIncludedIndex args" and "getLastLogIndex f \<le> sn_lastIncludedIndex args"
    and "g = snd (handleInstallSnapshot L args f)"
  shows "fst (handleInstallSnapshot L args f) = \<lparr>isr_term = sn_term args\<rparr>" and "node_ok g"
    and "logs g = []" and "lastIncludedIndex g = sn_lastIncludedIndex args"
    and "lastIncludedTerm g = sn_lastIncludedTerm args" and "commitIndex g = sn_lastIncludedIndex args"
    and "lastApplied g = sn_lastIncludedIndex args" and "currentTerm g = sn_term args"
    and "kvStore g = kv_loadFromSnapshot L (sn_kvData args) (kvStore f)"
    and "isNodeInCurrentVotingConfig i g = isNodeInCurrentVotingConfig i f"
proof -
  note n = node_okD [OF assms(1)]
  note h = handleInstallSnapshot_new [OF assms(2,3), of L]
  have "le_index e \<le> sn_lastIncludedIndex args" if "e \<in> set (logs f)" for e
  proof -
    from that obtain j where j: "j < length (logs f)" "e = logs f ! j" by (auto simp: in_set_conv_nth)
    with log_nth_index [OF n(1) j(1)] assms(4) getLastLogIndex_eq [OF n(1)] show ?thesis by simp
  qed
  then show "logs g = []"
    by (simp add: assms(5) h sn_install_def frame filter_empty_conv not_less)
  show "node_ok g"
    unfolding assms(5) using assms(1) by (rule handleInstallSnapshot_ok_aux)
  show "fst (handleInstallSnapshot L args f) = \<lparr>isr_term = sn_term args\<rparr>"
    "lastIncludedIndex g = sn_lastIncludedIndex args" "lastIncludedTerm g = sn_lastIncludedTerm args"
    "commitIndex g = sn_lastIncludedIndex args" "lastApplied g = sn_lastIncludedIndex args"
    "currentTerm g = sn_term args" "kvStore g = kv_loadFromSnapshot L (sn_kvData args) (kvStore f)"
    "isNodeInCurrentVotingConfig i g = isNodeInCurrentVotingConfig i f"
    using assms(2,4) n by (simp_all add: assms(5) h sn_install_def frame effect isNodeInCurrentVotingConfig_def)
qed

text \<open>The AppendEntries that follows the snapshot copies the leader's log.\<close>

lemma append_after_snapshot:
  assumes "node_ok s" and "node_ok g" and "logs g = []" and "0 < lastIncludedIndex s"
    and "lastIncludedIndex g = lastIncludedIndex s" and "lastIncludedTerm g = lastIncludedTerm s"
    and "commitIndex g = lastIncludedIndex s" and "ae_accepted args g"
    and "ae_prevLogIndex args = lastIncludedIndex s" and "ae_prevLogTerm args = lastIncludedTerm s"
    and "ae_entries args = logs s" and "ae_leaderCommit args = commitIndex s"
    and "handleAppendEntries L args g = (r, h)"
  shows "aer_success r" and "getLastLogIndex h = getLastLogIndex s"
    and "lastIncludedIndex h \<le> i \<Longrightarrow> getLogTermAt i h = getLogTermAt i s"
    and "commitIndex h = commitIndex s"
    and "h = (if lastIncludedIndex s < commitIndex s
      then applyCommittedLogs L ((ae_append args g)\<lparr>commitIndex := commitIndex s\<rparr>) else ae_append args g)"
    and "node_ok (ae_append args g)" and "logs (ae_append args g) = logs s"
proof -
  let ?u = "ae_append args g"
  note n = node_okD [OF assms(1)] and gn = node_okD [OF assms(2)]
  have mat: "ae_match args g"
    using assms(3-6,9,10) hasLogAt_iff [OF gn(1)] getLastLogIndex_eq [OF gn(1)]
    by (simp add: ae_match_def getLogTermAt_def)
  have wf: "ae_wf args"
    using n(1) assms(9,11) by (simp add: ae_wf_def log_wf_def)
  show logs: "logs ?u = logs s"
    using ae_append_logs [OF gn(1) mat wf] assms(3,11) by (simp add: append_ref_def)
  have same: "lastIncludedIndex ?u = lastIncludedIndex s" "lastIncludedTerm ?u = lastIncludedTerm s"
    "commitIndex ?u = lastIncludedIndex s"
    using assms(5-7) by (simp_all add: frame)
  with logs have u: "getLastLogIndex ?u = getLastLogIndex s" "getLogTermAt j ?u = getLogTermAt j s" for j
    by (simp_all add: getLastLogIndex_def getLogTermAt_def logIndexToPos_def)
  have "ae_consistent args g"
    using assms(7,9) by (simp add: ae_consistent_def)
  then show ok: "node_ok ?u"
    by (rule ae_append_ok [OF assms(2) mat wf])
  have rh: "r = \<lparr>aer_term = ae_term args, aer_success = True\<rparr>" "h = ae_commit L args ?u"
    using handleAppendEntries_matched [OF assms(8) mat, of L] assms(13) by simp_all
  then show "aer_success r" by simp
  show "getLastLogIndex h = getLastLogIndex s"
    "lastIncludedIndex h \<le> i \<Longrightarrow> getLogTermAt i h = getLogTermAt i s"
    using ae_commit_log [OF node_okD(1,6) [OF ok], of L args] u by (simp_all add: rh)
  show "h = (if lastIncludedIndex s < commitIndex s
      then applyCommittedLogs L (?u\<lparr>commitIndex := commitIndex s\<rparr>) else ?u)"
    using n u same assms(12) by (simp add: rh ae_commit_def)
  then show "commitIndex h = commitIndex s"
    using same n by (auto simp: frame)
qed

text \<open>C15: A snapshot and the AppendEntries after it bring a follower to the leader's contents. The follower's
  log ends at or before the leader's snapshot index, its snapshot lies before that, it is not ahead
  of the leader's term and has the leader in its configuration; the leader has applied what it has
  committed, and the database it dumps may be ahead of \<open>lastIncludedIndex\<close>. Then the follower installs
  the snapshot, the leader takes the reply, prepares AppendEntries for the same peer, and the
  follower accepts it and ends with the last index, the terms, the commit index and the database
  contents of the leader.\<close>

theorem snapshot_catches_up:
  assumes "healthy_leveldb L view" and "node_ok s" and "kv_reflects view m s" and "lastApplied s = commitIndex s"
    and "sstp_prepare L k s = Some (peer, T, args)"
    and "node_ok f" and "kv_ready (kvStore f)" and "currentTerm f \<le> T" and "isNodeInCurrentVotingConfig (nid s) f"
    and "lastIncludedIndex f < lastIncludedIndex s" and "getLastLogIndex f \<le> lastIncludedIndex s"
    and "handleInstallSnapshot L args f = (r, g)"
  shows "\<exists>s' args'. sstp_finish k T r s = Some (True, s') \<and> rtp_prepare k s' = Some (Some (peer, T, args')) \<and>
    (case handleAppendEntries L args' g of (r', h) \<Rightarrow>
      aer_success r' \<and> getLastLogIndex h = getLastLogIndex s \<and> commitIndex h = commitIndex s \<and>
      (\<forall>i \<ge> lastIncludedIndex h. getLogTermAt i h = getLogTermAt i s) \<and>
      kv_look view (kvStore h) = kv_look view (kvStore s))"
proof -
  note n = node_okD [OF assms(2)]
  have lead: "nstate s = LEADER" "k < length (peers s)" "peer = peers s ! k" "T = currentTerm s"
    and args: "sn_term args = T" "sn_lastIncludedIndex args = lastIncludedIndex s"
      "sn_lastIncludedTerm args = lastIncludedTerm s" "sn_kvData args = kv_dump L (kvStore s)"
    using assms(5) by (auto simp: sstp_prepare_def split: if_splits)
  have "g = snd (handleInstallSnapshot L args f)" "currentTerm f \<le> sn_term args"
    "lastIncludedIndex f < sn_lastIncludedIndex args" "getLastLogIndex f \<le> sn_lastIncludedIndex args"
    using assms(8,10-12) args by simp_all
  note g = installed_behind [OF assms(6) this(2-4,1), unfolded args]
  have pos: "0 < lastIncludedIndex s"
    using node_okD(6) [OF assms(6)] assms(10) by simp
  have ready: "kv_ready (kvStore s)"
    using assms(3) by (simp add: kv_reflects_def)
  note look = healthy_leveldb.snapshot_look [OF assms(1) ready assms(7), folded g(9)]
  let ?s = "s\<lparr>matchIndex := (matchIndex s)[k := max (matchIndex s ! k) (lastIncludedIndex s)],
    nextIndex := (nextIndex s)[k := lastIncludedIndex s + 1]\<rparr>"
  let ?args = "\<lparr>ae_term = T, ae_leaderId = nid s, ae_prevLogIndex = lastIncludedIndex s,
    ae_prevLogTerm = lastIncludedTerm s, ae_entries = logs s, ae_leaderCommit = commitIndex s\<rparr>"
  have len: "length (nextIndex s) = length (peers s)" "length (matchIndex s) = length (peers s)"
    using n(3) lead(1) by (simp_all add: lead_wf_def)
  have "fst (handleInstallSnapshot L args f) = r"
    using assms(12) by simp
  with g(1) have fin: "sstp_finish k T r s = Some (True, ?s)"
    using lead len by (simp add: sstp_finish_def vec_get_def vec_set_def)
  have "node_ok ?s"
    using n len by (auto simp: node_ok_def node_inv_def log_wf_def idx_wf_def lead_wf_def timer_wf_def getLastLogIndex_def)
  moreover from this have "log_slice (lastIncludedIndex s) (getLastLogIndex ?s) ?s = logs s"
    using getLastLogIndex_eq [of ?s] by (simp add: node_okD(1) log_slice_def)
  moreover have "getLogTermAt (lastIncludedIndex s) ?s = lastIncludedTerm s"
    using pos by (simp add: getLogTermAt_def)
  ultimately have prep: "rtp_prepare k ?s = Some (Some (peer, T, ?args))"
    using rtp_prepare_eq [of ?s k] lead len by simp
  obtain r' h where h: "handleAppendEntries L ?args g = (r', h)"
    by (cases "handleAppendEntries L ?args g")
  have "ae_accepted ?args g"
    using assms(9) g(8,10) by (simp add: ae_accepted_def)
  note a = append_after_snapshot [OF assms(2) g(2,3) pos g(4,5,6) this _ _ _ _ h, simplified]
  have "kv_look view (kvStore h) = kv_look view (kvStore s)"
  proof (cases "lastIncludedIndex s < commitIndex s")
    case True
    let ?u = "ae_append ?args g"
    have u: "lastApplied ?u = lastIncludedIndex s" "commitIndex ?u = lastIncludedIndex s" "kvStore ?u = kvStore g"
      using g(6,7) by (simp_all add: frame)
    have i: "lastIncludedIndex ?u = lastIncludedIndex s"
      using g(4) by (simp add: frame)
    have last: "getLastLogIndex ?u = getLastLogIndex s"
      by (simp only: getLastLogIndex_def a(7) i)
    have "kv_ready (kvStore ?u)" "commitIndex ?u \<le> commitIndex s" "commitIndex s \<le> getLastLogIndex ?u"
      using u look(1) last n by simp_all
    from healthy_leveldb.applied_look [OF assms(1) a(6) this]
    have "kv_look view (kvStore h) =
        fold entry_effect (log_slice (lastIncludedIndex s) (commitIndex s) ?u) (kv_look view (kvStore s))"
      using a(5) True u(1,3) look(2) by (simp only: if_True)
    also have "log_slice (lastIncludedIndex s) (commitIndex s) ?u = log_slice (lastIncludedIndex s) (commitIndex s) s"
      using a(7) i by (rule log_slice_cong)
    also have "fold entry_effect (log_slice (lastIncludedIndex s) (commitIndex s) s) (kv_look view (kvStore s)) =
        kv_look view (kvStore s)"
      using healthy_leveldb.reflects_replay [OF assms(1-3) order.refl n(5)]
        healthy_leveldb.applied_look [OF assms(1,2) ready order.refl n(5)] assms(4) by simp
    finally show ?thesis .
  next
    case False
    with a(5) look show ?thesis by (simp add: frame)
  qed
  with fin prep h a(1-4) show ?thesis by fastforce
qed


lemma snapshot_catches_up_witness:
  "let g = snd (handleInstallSnapshot mem_leveldb snap_x fresh_b)
   in logs g = [] \<and> (\<exists>args r h. handleAppendEntries mem_leveldb args g = (r, h) \<and> aer_success r \<and>
      getLastLogIndex h = 1 \<and> kv_look mem_view (kvStore h) ''x'' = Some ''1'')"
proof -
  let ?s = "createSnapshot 1 committed_a"
  let ?g = "snd (handleInstallSnapshot mem_leveldb snap_x fresh_b)"
  have s: "node_ok ?s" "lastApplied ?s = commitIndex ?s" "sstp_prepare mem_leveldb 0 ?s = Some (peer_b, 1, snap_x)"
    by code_simp+
  have db: "kv_db (kvStore ?s) = Some [BPut ''x'' ''1'']" and sl: "log_slice (lastIncludedIndex ?s) (lastApplied ?s) ?s = []"
    by code_simp+
  from db sl have m: "kv_reflects mem_view (mem_view [BPut ''x'' ''1'']) ?s"
    by (simp add: kv_reflects_def kv_ready_def kv_look_def)
  have "kv_db (kvStore fresh_b) = Some []" by code_simp
  then have f: "kv_ready (kvStore fresh_b)" by (simp add: kv_ready_def)
  have b: "node_ok fresh_b" "currentTerm fresh_b \<le> 1" "isNodeInCurrentVotingConfig (nid ?s) fresh_b"
    "lastIncludedIndex fresh_b < lastIncludedIndex ?s" "getLastLogIndex fresh_b \<le> lastIncludedIndex ?s"
    by code_simp+
  note c = snapshot_catches_up [OF mem.healthy_leveldb_axioms s(1) m s(2,3) b(1) f b(2-5) prod.collapse [symmetric]]
  from c obtain args r h where h: "handleAppendEntries mem_leveldb args ?g = (r, h)"
    "aer_success r" "getLastLogIndex h = getLastLogIndex ?s" "kv_look mem_view (kvStore h) = kv_look mem_view (kvStore ?s)"
    by auto
  have "logs ?g = []" "getLastLogIndex ?s = 1" by code_simp+
  moreover have "mem_view [BPut ''x'' ''1''] ''x'' = Some ''1''"
    by (simp add: mem_view_def memdb_entries_def)
  ultimately have "kv_look mem_view (kvStore h) ''x'' = Some ''1''" "logs ?g = []" "getLastLogIndex h = 1"
    using h(3,4) db by (simp_all add: kv_look_def)
  with h(1,2) show ?thesis by (auto simp: Let_def)
qed

text \<open>C36: A snapshot that is older than what the follower has applied takes the database back: the contents
  become those of the snapshot, \<open>lastApplied\<close> stays where it was, and the entries in between are
  not applied again, so their effects are gone.\<close>

theorem old_snapshot_takes_database_back:
  assumes "healthy_leveldb L view" and "kv_ready (kvStore s)" and "smap_ok (sn_kvData args)"
    and "currentTerm s \<le> sn_term args" and "lastIncludedIndex s < sn_lastIncludedIndex args"
    and "sn_lastIncludedIndex args \<le> lastApplied s" and "lastApplied s = commitIndex s"
    and "handleInstallSnapshot L args s = (r, t)"
  shows "kv_look view (kvStore t) = map_of (sn_kvData args) \<and> lastApplied t = lastApplied s \<and>
    kvStore (applyCommittedLogs L t) = kvStore t"
  using handleInstallSnapshot_new [OF assms(4,5), of L] assms(6-8)
    healthy_leveldb.snapshot_loaded [OF assms(1-3)]
  by (auto simp: sn_install_def frame applyCommittedLogs_def applyLoop.simps [of L "persist _"])

lemma old_snapshot_takes_database_back_witness:
  "let f = snd (handleAppendEntries mem_leveldb two_puts follower_b);
       g = snd (handleInstallSnapshot mem_leveldb snap_x f)
   in kv_look mem_view (kvStore f) ''y'' = Some ''2'' \<and> lastApplied g = 2 \<and>
      kv_look mem_view (kvStore g) ''y'' = None"
proof -
  let ?f = "snd (handleAppendEntries mem_leveldb two_puts follower_b)"
  have db: "kv_db (kvStore ?f) = Some [BPut ''x'' ''1'', BPut ''y'' ''2'']" by code_simp
  have "smap_ok (sn_kvData snap_x)" "currentTerm ?f \<le> sn_term snap_x"
    "lastIncludedIndex ?f < sn_lastIncludedIndex snap_x" "sn_lastIncludedIndex snap_x \<le> lastApplied ?f"
    "lastApplied ?f = commitIndex ?f"
    by code_simp+
  note old_snapshot_takes_database_back [OF mem.healthy_leveldb_axioms _ this prod.collapse [symmetric]]
  moreover have "lastApplied ?f = 2" "sn_kvData snap_x = [(''x'', ''1'')]" by code_simp+
  moreover have "mem_view [BPut ''x'' ''1'', BPut ''y'' ''2''] ''y'' = Some ''2''"
    by (simp add: mem_view_def memdb_entries_def)
  ultimately show ?thesis
    using db by (simp add: Let_def kv_ready_def kv_look_def)
qed

text \<open>InstallSnapshot keeps the entries after the snapshot's index without a look at the local term
  there: a snapshot of term 2 leaves an entry of term 1 behind it that the leader never had.\<close>

lemma snapshot_keeps_foreign_suffix:
  "let s = fresh_b\<lparr>logs := [mk_LogEntry 1 1 PUT ''x'' ''0'', mk_LogEntry 1 2 PUT ''y'' ''0'']\<rparr>;
       t = snd (handleInstallSnapshot mem_leveldb (snap_x\<lparr>sn_term := 2, sn_lastIncludedTerm := 2\<rparr>) s)
   in lastIncludedIndex t = 1 \<and> lastIncludedTerm t = 2 \<and> logs t = [mk_LogEntry 1 2 PUT ''y'' ''0'']"
  by code_simp

end
