(* ===== verification/Leader_Properties.thy ===== *)
theory Leader_Properties
  imports Examples
begin

text \<open>
  What the leader's operations guarantee (\<open>updateCommitIndex\<close>, \<open>replicateToPeer\<close>, \<open>leaderPut\<close>,
  \<open>linearizableGet\<close>, \<open>handleRpcText\<close>), each with a concrete instance, and the cases in which they
  fall short of the protocol.
\<close>

section \<open>Commitment\<close>

text \<open>C6: The commit index moves only on the leader, only forward, only to an entry of the leader's own
  term, and only where a majority of the configuration (of both configurations during a change,
  and of the old and the new one for the entry that starts a change) is recorded in the
  leader's \<open>matchIndex\<close> as holding the log up to it; and it moves to the highest such entry.\<close>

theorem commit_needs_quorum:
  assumes "node_ok s" and "updateCommitIndex L s = t" and "commitIndex t \<noteq> commitIndex s"
    and "e = logs s ! nat (commitIndex t - lastIncludedIndex s - 1)"
  shows "nstate s = LEADER \<and> commitIndex s < commitIndex t \<and> commitIndex t \<le> getLastLogIndex s \<and>
    le_index e = commitIndex t \<and> getLogTermAt (commitIndex t) s = currentTerm s \<and>
    (if le_op e = CONFIG_JOINT
     then majority \<lparr>cfg_nodes = le_oldConfig e\<rparr> (holders (commitIndex t) s) \<and>
          majority \<lparr>cfg_nodes = le_newConfig e\<rparr> (holders (commitIndex t) s)
     else node_decides s (holders (commitIndex t) s)) \<and>
    (\<forall>M. commitIndex t < M \<and> M \<le> getLastLogIndex s \<longrightarrow> \<not> canCommit s M)"
proof -
  note q = updateCommitIndex_quorum_aux [OF assms(1), of L, unfolded assms(2), OF assms(3), folded assms(4)]
  have "\<forall>M. commitIndex t < M \<and> M \<le> getLastLogIndex s \<longrightarrow> \<not> canCommit s M"
    by (cases rule: updateCommitIndex_cases [of L s]) (use assms(2,3) in \<open>auto simp: frame\<close>)
  with q show ?thesis
    by (auto simp: isMajorityMatchedForEntry_iff)
qed

lemma commit_needs_quorum_witness:
  "commitIndex committed_a = 1 \<and> node_decides heard_a (holders 1 heard_a) \<and> getLogTermAt 1 heard_a = 1"
proof -
  have a: "node_ok heard_a" "commitIndex heard_a = 0" "commitIndex committed_a = 1" "lastIncludedIndex heard_a = 0"
    "le_op (logs heard_a ! 0) = PUT" "currentTerm heard_a = 1"
    by code_simp+
  show ?thesis
    using commit_needs_quorum [OF a(1) committed_a_def [symmetric] _ refl] a by simp
qed

text \<open>C7: A quorum that commits and a quorum that elects meet: when the leader has moved its commit index,
  every set of ids that wins an election under the same configuration contains a member recorded
  in \<open>matchIndex\<close> as holding the committed entry. Where that entry starts a configuration change this
  needs its old configuration to be the current one and no change under way, as \<open>addNode\<close> and
  \<open>removeNode\<close> write it.\<close>

theorem commit_meets_election:
  assumes "node_ok s" and "updateCommitIndex L s = t" and "commitIndex t \<noteq> commitIndex s"
    and "e = logs s ! nat (commitIndex t - lastIncludedIndex s - 1)"
    and "le_op e = CONFIG_JOINT \<longrightarrow> configState s = STABLE \<and> le_oldConfig e = cfg_nodes (currentConfig s)"
    and "hasElectionMajority ids v"
    and "configState v = configState s" and "currentConfig v = currentConfig s"
    and "oldConfig v = oldConfig s" and "newConfig v = newConfig s"
  shows "\<exists>i \<in> set ids. i \<in> holders (commitIndex t) s"
proof -
  note q = updateCommitIndex_quorum_aux(5,6) [OF assms(1), of L, unfolded assms(2), OF assms(3), folded assms(4)]
  have "node_decides s (holders (commitIndex t) s)"
  proof (cases "le_op e = CONFIG_JOINT")
    case True
    then have "configState s = STABLE" "currentConfig s = \<lparr>cfg_nodes = le_oldConfig e\<rparr>"
      using assms(5) by simp_all
    with q True show ?thesis by (simp add: isMajorityMatchedForEntry_iff node_decides_def)
  next
    case False
    with q show ?thesis by (simp add: isMajorityMatchedForEntry_iff)
  qed
  then show ?thesis
    using election_meets_commit [of v "set ids" s] assms(6-10) by (auto simp: hasElectionMajority_iff)
qed


lemma commit_meets_election_witness: "\<exists>i \<in> {2, 3}. i \<in> holders 1 heard_a"
proof -
  have a: "node_ok heard_a" "commitIndex committed_a \<noteq> commitIndex heard_a"
    "le_op (logs heard_a ! nat (commitIndex committed_a - lastIncludedIndex heard_a - 1)) \<noteq> CONFIG_JOINT"
    "hasElectionMajority [2, 3] heard_a" "commitIndex committed_a = 1"
    by code_simp+
  show ?thesis
    using commit_meets_election [OF a(1) committed_a_def [symmetric] a(2) refl _ a(4) refl refl refl refl] a(3,5) by simp
qed

section \<open>Replication\<close>

text \<open>C8: What the leader sends and the follower takes is the leader's log: when a leader whose snapshot ends
  before \<open>nextIndex\<close>, which is not past its log, prepares AppendEntries for a peer, and the peer,
  whose own snapshot does not reach past \<open>prevLogIndex\<close>, answers \<open>success\<close>, then the peer's log
  reaches the end of the leader's and agrees with it in the term at every index from \<open>prevLogIndex\<close>
  on that the peer still has. (A peer compacted past \<open>prevLogIndex\<close> says \<open>success\<close> and appends nothing:
  \<open>stale_append_counted_as_copy\<close>.)\<close>

theorem accepted_log_agrees:
  assumes "node_ok s" and "node_ok f" and "k < length (peers s)" and "lastIncludedIndex s < nextIndex s ! k"
    and "nextIndex s ! k \<le> getLastLogIndex s + 1"
    and "rtp_prepare k s = Some (Some (peer, T, args))"
    and "handleAppendEntries L args f = (r, t)" and "aer_success r"
    and "lastIncludedIndex f \<le> ae_prevLogIndex args"
  shows "ae_prevLogIndex args = nextIndex s ! k - 1 \<and> currentTerm t = currentTerm s \<and>
    getLastLogIndex s \<le> getLastLogIndex t \<and>
    (\<forall>i. ae_prevLogIndex args \<le> i \<and> lastIncludedIndex t \<le> i \<and> i \<le> getLastLogIndex s \<longrightarrow>
      getLogTermAt i t = getLogTermAt i s)"
proof -
  have lead: "nstate s = LEADER"
    using assms(6) by (auto simp: rtp_prepare_def split: if_splits)
  let ?p = "nextIndex s ! k - 1"
  have args: "args = \<lparr>ae_term = currentTerm s, ae_leaderId = nid s, ae_prevLogIndex = ?p,
       ae_prevLogTerm = getLogTermAt ?p s, ae_entries = log_slice ?p (getLastLogIndex s) s,
       ae_leaderCommit = commitIndex s\<rparr>"
    using rtp_prepare_eq [OF assms(1) lead assms(3,4)] assms(6) by simp
  have acc: "ae_accepted args f" and mat: "ae_match args f"
    using assms(7-9) handleAppendEntries_rejected [of args f L] handleAppendEntries_mismatch [of args f L]
    by force+
  have t: "t = ae_commit L args (ae_append args f)" and tT: "aer_term r = ae_term args"
    using handleAppendEntries_matched [OF acc mat, of L] assms(7) by simp_all
  note n = node_okD [OF assms(1)] and fn = node_okD [OF assms(2)]
  have wf: "ae_wf args"
    using log_slice_numbered [OF n(1), of ?p "getLastLogIndex s"] assms(4,5) by (simp add: ae_wf_def args)
  have u: "log_wf (ae_append args f)" "0 \<le> lastIncludedIndex (ae_append args f)"
    using ae_append_log_wf [OF fn(1) mat wf] fn(6) by (simp_all add: frame)
  have len: "int (length (ae_entries args)) = getLastLogIndex s - ?p"
    using length_log_slice [OF n(1), of ?p "getLastLogIndex s"] assms(4,5) by (simp add: args)
  have slice: "getLogTermAt i (ae_append args f) = getLogTermAt i s" "i \<le> getLastLogIndex (ae_append args f)"
    if "?p \<le> i" "i \<le> getLastLogIndex s" for i
    by (rule accepted_slice_aux [OF assms(1,2)]; use that assms(4,5) mat len in \<open>simp add: args\<close>)+
  have log: "getLastLogIndex t = getLastLogIndex (ae_append args f)"
    "lastIncludedIndex t \<le> i \<Longrightarrow> getLogTermAt i t = getLogTermAt i (ae_append args f)" for i
    using ae_commit_log [OF u, of L args] by (simp_all add: t)
  show ?thesis
    using slice(1) slice(2) [of "getLastLogIndex s"] log assms(5) ae_append_term [OF acc]
    by (auto simp: t args)
qed

lemma accepted_log_agrees_witness:
  "getLastLogIndex writer_a \<le> getLastLogIndex follower_b \<and> getLogTermAt 1 follower_b = getLogTermAt 1 writer_a"
proof -
  have a: "node_ok writer_a" "node_ok voter_b" "0 < length (peers writer_a)"
    "lastIncludedIndex writer_a < nextIndex writer_a ! 0" "nextIndex writer_a ! 0 \<le> getLastLogIndex writer_a + 1"
    "rtp_prepare 0 writer_a = Some (Some (peer_b, 1, append_x))"
    "handleAppendEntries mem_leveldb append_x voter_b = (\<lparr>aer_term = 1, aer_success = True\<rparr>, follower_b)"
    "lastIncludedIndex voter_b \<le> ae_prevLogIndex append_x"
    by (code_simp, code_simp, code_simp, code_simp, code_simp, code_simp,
      simp add: follower_b_def prod_eq_iff, code_simp, code_simp)
  have b: "lastIncludedIndex follower_b = 0" "getLastLogIndex writer_a = 1" "ae_prevLogIndex append_x = 0"
    by code_simp+
  show ?thesis
    using accepted_log_agrees [OF a(1-7) _ a(8)] b by simp
qed

text \<open>C18: A write the leader carries out undisturbed and reports as done is done: when \<open>leaderPut\<close> returns
  true and no other thread changed the node meanwhile, whatever the network did, the entry is
  committed and applied, and the database has the value under the key.\<close>

theorem undisturbed_put_is_applied:
  assumes "healthy_leveldb L view" and "alone E" and "node_ok (fst w)" and "kv_ready (kvStore (fst w))"
    and "leaderPut L E key val w = Some (True, w')"
  shows "commitIndex (fst w') = getLastLogIndex (fst w) + 1 \<and>
    lastApplied (fst w') = getLastLogIndex (fst w) + 1 \<and>
    kv_look view (kvStore (fst w')) key = Some val"
proof -
  let ?e = "mk_LogEntry (currentTerm (fst w)) (getLastLogIndex (fst w) + 1) PUT key val"
  have r: "replicateAndCommit L E (appendLocal ?e (fst w), snd w) = Some w'"
    and c: "commitIndex (fst w') \<ge> getLastLogIndex (fst w')"
    using assms(5) by (auto simp: leaderPut_def leaderPut_append_def alone_locked [OF assms(2)]
        bind_eq_Some_conv split: if_splits)
  from appended_and_replicated [OF assms(1-4) _ r c] show ?thesis
    by (auto simp: mk_LogEntry_def entry_effect_def)
qed

lemma undisturbed_put_is_applied_witness:
  "kv_look mem_view (kvStore (fst (snd (the (leaderPut mem_leveldb agreeing ''x'' ''1'' (leader_a, ())))))) ''x'' = Some ''1''"
proof -
  let ?r = "leaderPut mem_leveldb agreeing ''x'' ''1'' (leader_a, ())"
  have "?r \<noteq> None \<and> fst (the ?r)"  by code_simp
  then have r: "?r = Some (True, snd (the ?r))" by auto
  have "node_ok leader_a" "kv_db (kvStore leader_a) = Some []" by code_simp+
  then have "node_ok (fst (leader_a, ()))" "kv_ready (kvStore (fst (leader_a, ())))" by (simp_all add: kv_ready_def)
  moreover have "alone agreeing" by (simp add: alone_def agreeing_def)
  ultimately show ?thesis
    using undisturbed_put_is_applied [OF mem.healthy_leveldb_axioms _ _ _ r] by blast
qed

section \<open>Answers\<close>

text \<open>C21: Every request is answered: as long as the other threads keep one \<open>nextIndex\<close> and one
  \<open>matchIndex\<close> per peer and do not change the number of peers, \<open>handleRpcText\<close> returns a reply for
  every text, no access to a vector is out of range, every loop ends, whatever the network does,
  and the tables of the leader still fit; so does a round of the heartbeat loop.\<close>

theorem every_request_answered:
  assumes "calm E" and "lead_wf (fst w)"
  shows "(\<exists>reply w'. handleRpcText L E req w = Some (reply, w') \<and> lead_wf (fst w')) \<and>
    heartbeatLoop_round L E w \<noteq> None"
proof -
  obtain b w1 where w1: "locked E isLeader w = (b, w1)" by (cases "locked E isLeader w")
  with assms have "lead_wf (fst w1)" by (auto intro: isLeader_locked)
  with assms(1) replicateAndCommit_returns [of E w1 L] w1 show ?thesis
    using handleRpcText_safe [OF assms, of L req]
    by (auto simp: safe_def heartbeatLoop_round_def sendHeartbeats_def)
qed

lemma every_request_answered_witness:
  "\<exists>reply w'. handleRpcText mem_leveldb silent ''CPUT x 1'' (leader_a, ()) = Some (reply, w') \<and> lead_wf (fst w')"
proof -
  have "lead_wf leader_a" by code_simp
  then show ?thesis
    using every_request_answered [OF calm_silent, of "(leader_a, ())"] by simp
qed

section \<open>Linearizable reads\<close>

text \<open>C19: A read answers \<open>READ_OK\<close> only after the protocol of the read index, in one term: the node is leader
  of a term \<open>T\<close> when it starts, an entry of its current term is committed, which is \<open>T\<close> as long as no
  other thread lowers the term, the node is still leader of \<open>T\<close> when it takes its commit index, then
  peers confirm \<open>T\<close> by heartbeats, then the state machine has applied up to that index, and then,
  still leader of \<open>T\<close>, the node reads the value from the database.\<close>

theorem read_ok_follows_read_index:
  assumes "linearizableGet L E key w = Some ((READ_OK, val), w')" and "T = currentTerm (fst (acquire E w))"
  shows "nstate (fst (acquire E w)) = LEADER \<and> (\<exists>we wr wq wa.
    ensureCurrentTermCommitted L E (acquire E w) = Some (True, we) \<and>
    getLogTermAt (commitIndex (fst we)) (fst we) = currentTerm (fst we) \<and>
    (forward E \<longrightarrow> currentTerm (fst we) = T) \<and>
    wr = acquire E we \<and> nstate (fst wr) = LEADER \<and> currentTerm (fst wr) = T \<and>
    sendReadIndexHeartbeats E T wr = (True, wq) \<and>
    waitAppliedTo E (commitIndex (fst wr)) T wq = (True, wa) \<and>
    commitIndex (fst wr) \<le> lastApplied (fst wa) \<and>
    w' = acquire E wa \<and> nstate (fst w') = LEADER \<and> currentTerm (fst w') = T \<and>
    kv_get L key (kvStore (fst w')) = Some val)"
proof -
  obtain we wr wq wa where r: "nstate (fst (acquire E w)) = LEADER"
    "ensureCurrentTermCommitted L E (acquire E w) = Some (True, we)"
    "wr = acquire E we" "nstate (fst wr) = LEADER" "currentTerm (fst wr) = T"
    "sendReadIndexHeartbeats E T wr = (True, wq)"
    "waitAppliedTo E (commitIndex (fst wr)) T wq = (True, wa)"
    "commitIndex (fst wr) \<le> lastApplied (fst wa)"
    "w' = acquire E wa" "nstate (fst w') = LEADER" "currentTerm (fst w') = T"
    "kv_get L key (kvStore (fst w')) = Some val"
    using linearizableGet_ok_aux [OF assms] by blast
  have "currentTerm (fst we) = T" if F: "forward E"
  proof (rule antisym)
    show "currentTerm (fst we) \<le> T"
      using F r(3,5) unfolding forward_def by metis
    show "T \<le> currentTerm (fst we)"
      using later_ensure [OF F r(2)] assms(2) by (simp add: later_def)
  qed
  with r ensureCurrentTermCommitted_true [OF r(2)] show ?thesis by blast
qed

lemma read_ok_follows_read_index_witness:
  "\<exists>wr wq. sendReadIndexHeartbeats agreeing 1 wr = (True, wq) \<and>
    linearizableGet mem_leveldb agreeing ''x'' (committed_a, ()) = Some ((READ_OK, ''1''), (committed_a, ()))"
proof -
  have r: "linearizableGet mem_leveldb agreeing ''x'' (committed_a, ()) = Some ((READ_OK, ''1''), (committed_a, ()))"
    unfolding committed_a_def by code_simp
  have "1 = currentTerm (fst (acquire agreeing (committed_a, ())))" by code_simp
  from read_ok_follows_read_index [OF r this] r show ?thesis by blast
qed

text \<open>C20: The leader serves a read only after a majority confirmed its term: when
  \<open>sendReadIndexHeartbeats\<close> returns true for a term, more than half of the peers and the node itself
  answered an empty AppendEntries of that term with success and no higher term.\<close>

theorem read_index_needs_majority:
  assumes "sendReadIndexHeartbeats E T w = (True, w')"
  shows "\<exists>acks. subseq acks (peers (fst w)) \<and> (\<forall>p \<in> set acks. acked E T p) \<and>
    int (length (peers (fst w))) + 1 < 2 * (1 + int (length acks))"
  using assms by (rule sendReadIndexHeartbeats_majority_aux)

lemma read_index_needs_majority_witness:
  "\<exists>p. acked agreeing 1 p \<and> p \<in> {peer_b, peer_c}"
proof -
  have p: "peers leader_a = [peer_b, peer_c]" by code_simp
  have "sendReadIndexHeartbeats agreeing 1 (leader_a, ()) = (True, snd (sendReadIndexHeartbeats agreeing 1 (leader_a, ())))"
    unfolding prod_eq_iff by (simp, code_simp)
  from read_index_needs_majority [OF this] p obtain acks where
    "subseq acks [peer_b, peer_c]" "\<forall>p \<in> set acks. acked agreeing 1 p" "1 < 2 * int (length acks)"
    by auto
  moreover from this(3) have "acks \<noteq> []" by auto
  ultimately show ?thesis
    using list_emb_set [of "(=)" acks "[peer_b, peer_c]" "hd acks"]
    by (intro exI [of _ "hd acks"]) auto
qed

section \<open>Where the leader goes wrong\<close>

text \<open>C37: A reply is taken under the index the peer had when the message was prepared. On a node whose tables
  are as long as its peers this has no defined result exactly when the node still leads the term of
  the message, the reply is not from a later term, and \<open>peers_\<close> was rebuilt in between so short that
  the index is past the tables.\<close>

theorem late_reply_out_of_range:
  assumes "lead_wf s"
  shows "rtp_finish k T args reply s = None \<longleftrightarrow>
    nstate s = LEADER \<and> currentTerm s = T \<and> aer_term reply \<le> T \<and> length (peers s) \<le> k"
  using assms by (auto simp: rtp_finish_def vec_get_def vec_set_def lead_wf_def)

lemma late_reply_out_of_range_witness:
  "rtp_finish 1 1 append_x \<lparr>aer_term = 1, aer_success = True\<rparr> shrunk_a = None"
proof -
  have "lead_wf shrunk_a" "nstate shrunk_a = LEADER \<and> currentTerm shrunk_a = 1 \<and> length (peers shrunk_a) \<le> 1"
    by code_simp+
  then show ?thesis
    using late_reply_out_of_range [of shrunk_a 1 1 append_x "\<lparr>aer_term = 1, aer_success = True\<rparr>"] by simp
qed

text \<open>Such a message (\<open>message_after_compaction_has_gap\<close>) gives a follower with an empty log a log that
  does not start at 1.\<close>

lemma compaction_gap_example:
  "case rtp_prepare 1 behind_a of Some (Some (_, _, args)) \<Rightarrow>
     \<not> ae_wf args \<and> \<not> log_wf (snd (handleAppendEntries mem_leveldb args fresh_b)) | _ \<Rightarrow> False"
proof -
  let ?m = "rtp_prepare 1 behind_a"
  have l: "log_wf behind_a" "nstate behind_a = LEADER" "1 < length (peers behind_a)" "1 < length (nextIndex behind_a)"
    "nextIndex behind_a ! 1 \<le> lastIncludedIndex behind_a" "logs behind_a \<noteq> []"
    by code_simp+
  have m: "case ?m of Some (Some (_, _, args)) \<Rightarrow> \<not> log_wf (snd (handleAppendEntries mem_leveldb args fresh_b)) | _ \<Rightarrow> False"
    by code_simp
  then obtain p T args where a: "?m = Some (Some (p, T, args))"
    by (auto split: option.splits prod.splits)
  from message_after_compaction_has_gap [OF l a] a m show ?thesis by simp
qed

text \<open>C40: A node alone in its configuration does not elect itself: a majority is looked for only when a peer
  answers, so with no peers \<open>startElection\<close> ends without a leader.\<close>

theorem lone_node_never_leads:
  assumes "alone E" and "peers (fst w) = []" and "nstate (fst w) \<noteq> LEADER"
  shows "nstate (fst (startElection E w)) \<noteq> LEADER"
  using assms(2,3)
  by (auto simp: startElection_def alone_locked [OF assms(1)] se_begin_def Let_def frame effect
      split: option.split)

lemma lone_node_never_leads_witness:
  "nstate (fst (startElection silent (boot mem_leveldb [peer_a] peer_a None 0 7, ()))) \<noteq> LEADER"
proof (rule lone_node_never_leads)
  show "alone silent" by (simp add: alone_def silent_def)
  show "peers (fst (boot mem_leveldb [peer_a] peer_a None 0 7, ())) = []" by code_simp
  show "nstate (fst (boot mem_leveldb [peer_a] peer_a None 0 7, ())) \<noteq> LEADER" by code_simp
qed

text \<open>A client can be told \<open>OK\<close> for a write that is lost: \<open>leaderPut\<close> compares the commit index with the
  last index of the log at the end, not with the index of its own entry. In this run a new leader
  has replaced the entry meanwhile and committed its own.\<close>

lemma ok_for_lost_write:
  "case handleClientPut mem_leveldb (overtaking usurping) ''x'' ''1'' (leader_a, 0) of
     None \<Rightarrow> False
   | Some (reply, (s, n)) \<Rightarrow> reply = ''OK'' \<and> list_all (\<lambda>e. le_key e \<noteq> ''x'') (logs s) \<and>
       commitIndex s = 1 \<and> kv_get mem_leveldb ''x'' (kvStore s) = None"
  by code_simp

text \<open>C39: A leader cannot remove itself: on a node in order in the stable configuration, with no
  configuration entry waiting to be applied and no other thread interfering, whatever the network
  does, \<open>removeNode\<close> of its own id returns, with false; no entry that ends a change is written, and
  where the change was begun, the node is left a follower that is leaving, in the joint
  configuration. (Applying the first entry makes it a follower, and the wait for the joint
  configuration then fails.)\<close>

theorem leader_cannot_remove_itself:
  assumes "alone E" and "node_ok s" and "configState s = STABLE"
    and "\<forall>e \<in> set (log_slice (lastApplied s) (getLastLogIndex s) s). le_op e \<noteq> CONFIG_JOINT \<and> le_op e \<noteq> CONFIG_NEW"
  shows "\<exists>t x'. removeNode L E (nid s) (s, x) = Some (False, (t, x')) \<and>
    (\<forall>e \<in> set (logs t). le_op e = CONFIG_NEW \<longrightarrow> e \<in> set (logs s)) \<and>
    (configState t = JOINT \<longrightarrow> nstate t = FOLLOWER \<and> leaving t)"
proof (cases "removeNode_check (nid s) s")
  case None
  then show ?thesis
    using assms(3) by (simp add: removeNode_def alone_locked [OF assms(1)])
next
  case (Some c)
  obtain oc nc where c: "c = (oc, nc)" by (cases c)
  let ?e = "config_entry CONFIG_JOINT ''__config_joint__'' (cfg_nodes oc) (cfg_nodes nc) s"
  have lead: "nstate s = LEADER"
    using Some by (auto simp: removeNode_check_def split: if_splits)
  have "\<forall>e \<in> waiting s. drops_node (nid s) e"
    using assms(4) by (simp add: waiting_def drops_node_def)
  from config_entry_waits [OF assms(2) this assms(3) Some [unfolded c] refl, of "''__config_joint__''"]
  have "on_the_way_out (set (logs s)) (nid s) (fst (appendLocal ?e s, x))" by simp
  from on_the_way_out_replicate [OF assms(1) this, of L] obtain w2 where
    r: "replicateAndCommit L E (appendLocal ?e s, x) = Some w2" "on_the_way_out (set (logs s)) (nid s) (fst w2)"
    by blast
  from wait_on_the_way_out [OF assms(1) r(2), of L 3000 0] obtain w3 where
    w: "wcs_loop L E JOINT 3000 0 w2 = Some (False, w3)" "on_the_way_out (set (logs s)) (nid s) (fst w3)" by blast
  have "removeNode L E (nid s) (s, x) = Some (False, w3)"
    using Some lead r(1) w(1)
    by (simp add: c removeNode_def alone_locked [OF assms(1)] changeConfig_def appendConfigJoint_def acj_append_def
        waitConfigState_def)
  with w(2) show ?thesis
    by (cases w3) (auto simp: on_the_way_out_def)
qed

lemma leader_cannot_remove_itself_witness:
  "case removeNode mem_leveldb agreeing 1 (committed_a, ()) of
     None \<Rightarrow> False
   | Some (ok, (s, x)) \<Rightarrow> \<not> ok \<and> configState s = JOINT \<and> nstate s = FOLLOWER \<and> leaving s"
proof -
  have a: "node_ok committed_a" "configState committed_a = STABLE" "nid committed_a = 1"
    "log_slice (lastApplied committed_a) (getLastLogIndex committed_a) committed_a = []"
    by code_simp+
  have "alone agreeing" by (simp add: alone_def agreeing_def)
  from leader_cannot_remove_itself [OF this a(1,2), of mem_leveldb "()"] a(3,4) obtain t where
    t: "removeNode mem_leveldb agreeing 1 (committed_a, ()) = Some (False, (t, ()))"
    "configState t = JOINT \<longrightarrow> nstate t = FOLLOWER \<and> leaving t" by auto
  have "case removeNode mem_leveldb agreeing 1 (committed_a, ()) of None \<Rightarrow> False
    | Some (ok, (s, x)) \<Rightarrow> configState s = JOINT"
    by code_simp
  with t show ?thesis by simp
qed

text \<open>In this run of three nodes the leader commits its seventh entry and applies it while neither of the
  other two nodes has it: node 2 answers \<open>success\<close> without appending, because \<open>prevLogIndex\<close> lies
  below its own snapshot, and the leader counts the answer as a copy of everything it sent
  (\<open>stale_append_counted_as_copy\<close>).\<close>

lemma commit_without_majority:
  "case late_run of (a, b, c) \<Rightarrow>
     nstate a = LEADER \<and> commitIndex a = 7 \<and> lastApplied a = 7 \<and> matchIndex a = [7, 6] \<and>
     lastIncludedIndex b = 6 \<and> getLastLogIndex b = 6 \<and> getLastLogIndex c = 6 \<and>
     node_ok a \<and> node_ok b \<and> node_ok c"
  by code_simp

end
