(* ===== verification/Packet.thy ===== *)
theory Packet
  imports Prelude "HOL-Library.Word"
begin

unbundle bit_operations_syntax

text \<open>
  The length-prefixed framing of \<open>src/src/rpc\<close>: the buffer, \<open>encodePacket\<close> and
  \<open>tryDecodePacket\<close>, a server connection (\<open>TcpConnection\<close>) and the two loops of the client
  (\<open>tcp_client.cpp\<close>). Sockets are the environment: each \<open>recv\<close> and \<open>send\<close> takes its result from
  a script. The contract between the two ends is the locale \<open>framing\<close>: however TCP cuts the byte
  stream, the bodies come out as they went in.
\<close>

section \<open>The length prefix\<close>

text \<open>\<open>htonl\<close> and \<open>memcpy\<close>: the four bytes of the length, most significant first.\<close>

definition be32 :: "32 word \<Rightarrow> string" where
  "be32 w = [char_of (unat (drop_bit 24 w AND 255)), char_of (unat (drop_bit 16 w AND 255)),
     char_of (unat (drop_bit 8 w AND 255)), char_of (unat (w AND 255))]"

definition from_be32 :: "string \<Rightarrow> 32 word" where
  "from_be32 bs =
     word_of_nat (16777216 * of_char (bs ! 0) + 65536 * of_char (bs ! 1) + 256 * of_char (bs ! 2) +
       of_char (bs ! 3))"

text \<open>The cast of the size to \<open>uint32_t\<close> drops its upper bits.\<close>

definition encodePacket :: "string \<Rightarrow> string" where
  "encodePacket body = be32 (word_of_nat (length body)) @ body"

definition max_body :: nat where "max_body = 64 * 1024 * 1024"

text \<open>The decoded body and the buffer that is left; \<open>None\<close> is \<open>false\<close>, with the buffer unchanged.\<close>

definition tryDecodePacket :: "string \<Rightarrow> (string \<times> string) option" where
  "tryDecodePacket input =
     (if length input < 4 then None
      else let len = unat (from_be32 (take 4 input)) in
        if len = 0 \<or> len > max_body then None
        else if length input < 4 + len then None
        else Some (take len (drop 4 input), drop (4 + len) input))"

section \<open>The buffer\<close>

text \<open>What one \<open>recv\<close> or \<open>send\<close> returns.\<close>

datatype recv_result = Received string | PeerClosed | RecvAgain | RecvError

datatype send_result = Sent nat | SendAgain | SendError

definition buf_append :: "string \<Rightarrow> string \<Rightarrow> string" where
  "buf_append d data = data @ d"

definition buf_retrieve :: "nat \<Rightarrow> string \<Rightarrow> string" where
  "buf_retrieve len data = drop len data"

definition buf_retrieveAllAsString :: "string \<Rightarrow> string \<times> string" where
  "buf_retrieveAllAsString data = (data, [])"

text \<open>
  \<open>readFd\<close> until the socket would block (true), is closed or fails (false). A script that is at
  its end would block.
\<close>

fun buf_readFd :: "recv_result list \<Rightarrow> string \<Rightarrow> bool \<times> string" where
  "buf_readFd [] data = (True, data)"
| "buf_readFd (Received d # rs) data = buf_readFd rs (buf_append d data)"
| "buf_readFd (PeerClosed # rs) data = (False, data)"
| "buf_readFd (RecvAgain # rs) data = (True, data)"
| "buf_readFd (RecvError # rs) data = (False, data)"

fun buf_writeFd :: "send_result list \<Rightarrow> string \<Rightarrow> bool \<times> string" where
  "buf_writeFd [] data = (True, data)"
| "buf_writeFd (r # rs) data =
     (if data = [] then (True, data)
      else case r of
             Sent n \<Rightarrow> if n > 0 then buf_writeFd rs (buf_retrieve n data) else (False, data)
           | SendAgain \<Rightarrow> (True, data)
           | SendError \<Rightarrow> (False, data))"

section \<open>A server connection\<close>

record tcp_conn =
  tc_input :: string
  tc_output :: string
  tc_open :: bool

definition tc_new :: tcp_conn where
  "tc_new = \<lparr>tc_input = [], tc_output = [], tc_open = True\<rparr>"

definition tc_handleClose :: "tcp_conn \<Rightarrow> tcp_conn" where
  "tc_handleClose c = c\<lparr>tc_open := False\<rparr>"

lemma tryDecodePacket_shrinks: "tryDecodePacket d = Some (b, r) \<Longrightarrow> length r < length d"
  by (auto simp: tryDecodePacket_def Let_def split: if_splits)

text \<open>
  The loop of \<open>handleRead\<close> on the two buffers: decode, call the node (\<open>h\<close>, with its state), queue
  the reply. With the channel it is \<open>conn_serve\<close> of the event loop.
\<close>

function tc_serve :: "(string \<Rightarrow> 's \<Rightarrow> string \<times> 's) \<Rightarrow> tcp_conn \<Rightarrow> 's \<Rightarrow> tcp_conn \<times> 's" where
  "tc_serve h c s =
     (case tryDecodePacket (tc_input c) of
        None \<Rightarrow> (c, s)
      | Some (req, r) \<Rightarrow>
          (case h req s of
             (resp, s') \<Rightarrow>
               tc_serve h (c\<lparr>tc_input := r, tc_output := buf_append (encodePacket resp) (tc_output c)\<rparr>) s'))"
  by pat_completeness auto
termination
  by (relation "measure (\<lambda>(h, c, s). length (tc_input c))") (auto dest: tryDecodePacket_shrinks)

declare tc_serve.simps [simp del]

definition tc_handleRead ::
  "(string \<Rightarrow> 's \<Rightarrow> string \<times> 's) \<Rightarrow> recv_result list \<Rightarrow> tcp_conn \<Rightarrow> 's \<Rightarrow> tcp_conn \<times> 's" where
  "tc_handleRead h rs c s =
     (case buf_readFd rs (tc_input c) of
        (False, d) \<Rightarrow> (tc_handleClose (c\<lparr>tc_input := d\<rparr>), s)
      | (True, d) \<Rightarrow> tc_serve h (c\<lparr>tc_input := d\<rparr>) s)"

section \<open>The client's loops\<close>

text \<open>
  \<open>readN\<close> on a blocking socket: \<open>n\<close> bytes, or \<open>None\<close> where a \<open>recv\<close> returns no data. A \<open>recv\<close>
  gives at most what was asked for.
\<close>

fun readN :: "nat \<Rightarrow> recv_result list \<Rightarrow> (string \<times> recv_result list) option" where
  "readN 0 rs = Some ([], rs)"
| "readN (Suc n) (Received (c # cs) # rs) =
     map_option (\<lambda>(d, rs'). (c # d, rs'))
       (readN n (if cs = [] then rs else Received cs # rs))"
| "readN (Suc n) rs = None"

text \<open>\<open>sendMessage\<close> once the connection is up and the request is written.\<close>

definition recvResponse :: "recv_result list \<Rightarrow> string option" where
  "recvResponse rs =
     (case readN 4 rs of
        None \<Rightarrow> None
      | Some (hdr, rs1) \<Rightarrow>
          let len = unat (from_be32 hdr) in
          if len = 0 \<or> len > max_body then None
          else map_option fst (readN len rs1))"

text \<open>\<open>writeN\<close>: whether everything was sent.\<close>

fun writeN :: "nat \<Rightarrow> send_result list \<Rightarrow> bool" where
  "writeN 0 rs = True"
| "writeN (Suc n) (Sent (Suc k) # rs) = writeN (n - k) rs"
| "writeN (Suc n) rs = False"

text \<open>
  \<open>sendMessage\<close> over the results of the system calls: did \<open>socket\<close>, \<open>inet_pton\<close> and \<open>connect\<close>
  succeed, and what the writes and reads returned.
\<close>

definition sendMessage ::
  "bool \<Rightarrow> bool \<Rightarrow> bool \<Rightarrow> send_result list \<Rightarrow> recv_result list \<Rightarrow> string \<Rightarrow> string option" where
  "sendMessage socketOk addrOk connectOk ws rs request =
     (if \<not> socketOk then None
      else if \<not> addrOk then None
      else if \<not> connectOk then None
      else if \<not> writeN (length (encodePacket request)) ws then None
      else recvResponse rs)"

section \<open>The framing contract\<close>

locale framing =
  fixes enc :: "string \<Rightarrow> string"
    and dec :: "string \<Rightarrow> (string \<times> string) option"
    and ok :: "string \<Rightarrow> bool"
  assumes dec_enc: "ok b \<Longrightarrow> dec (enc b @ r) = Some (b, r)"
    and dec_wait: "ok b \<Longrightarrow> enc b = p @ q \<Longrightarrow> q \<noteq> [] \<Longrightarrow> dec p = None"
    and enc_nonempty: "enc b \<noteq> []"
begin

text \<open>Decode as often as it goes; the fuel is a bound on the number of packets.\<close>

fun drain :: "nat \<Rightarrow> string \<Rightarrow> string list \<times> string" where
  "drain 0 d = ([], d)"
| "drain (Suc n) d =
     (case dec d of None \<Rightarrow> ([], d) | Some (b, r) \<Rightarrow> let (bs, r') = drain n r in (b # bs, r'))"

text \<open>Receiving chunk after chunk, draining after each.\<close>

fun receive :: "nat \<Rightarrow> string list \<Rightarrow> string \<Rightarrow> string list \<times> string" where
  "receive n [] d = ([], d)"
| "receive n (c # cs) d =
     (let (bs, r) = drain n (d @ c); (bs', r') = receive n cs r in (bs @ bs', r'))"

lemma drain_packets:
  assumes "\<forall>b \<in> set bs. ok b" and "dec r = None" and "length bs \<le> n"
  shows "drain n (concat (map enc bs) @ r) = (bs, r)"
  using assms
proof (induction bs arbitrary: n)
  case Nil
  then show ?case by (cases n) auto
next
  case (Cons b bs)
  then obtain m where "n = Suc m" by (cases n) auto
  with Cons dec_enc show ?case by simp
qed

text \<open>A prefix of a stream of packets is some whole packets and the beginning of the next.\<close>

lemma prefix_split:
  assumes "concat (map enc bs) = d @ e"
  shows "\<exists>bs1 bs2 p q. bs = bs1 @ bs2 \<and> d = concat (map enc bs1) @ p \<and>
    concat (map enc bs2) = p @ e \<and> (p = [] \<or> (\<exists>b bs'. bs2 = b # bs' \<and> enc b = p @ q \<and> q \<noteq> []))"
  using assms
proof (induction bs arbitrary: d)
  case Nil
  then show ?case by (intro exI [of _ "[]"]) auto
next
  case (Cons b bs)
  show ?case
  proof (cases "length (enc b) \<le> length d")
    case True
    with Cons.prems have d: "d = enc b @ drop (length (enc b)) d"
      by (metis append_eq_append_conv_if append_take_drop_id concat.simps(2) list.map(2))
    with Cons.prems have "concat (map enc bs) = drop (length (enc b)) d @ e"
      by (metis append.assoc append_same_eq concat.simps(2) list.map(2) same_append_eq)
    from Cons.IH [OF this] obtain bs1 bs2 p q where
      *: "bs = bs1 @ bs2" "drop (length (enc b)) d = concat (map enc bs1) @ p"
      "concat (map enc bs2) = p @ e"
      "p = [] \<or> (\<exists>b bs'. bs2 = b # bs' \<and> enc b = p @ q \<and> q \<noteq> [])"
      by blast
    with d show ?thesis
      by (intro exI [of _ "b # bs1"] exI [of _ bs2] exI [of _ p] exI [of _ q]) auto
  next
    case False
    with Cons.prems have "enc b = d @ drop (length d) (enc b)" "drop (length d) (enc b) \<noteq> []"
      by (auto simp: append_eq_append_conv_if) (metis append_take_drop_id)
    with Cons.prems show ?thesis
      by (intro exI [of _ "[]"] exI [of _ "b # bs"] exI [of _ d]
          exI [of _ "drop (length d) (enc b)"]) auto
  qed
qed

text \<open>However the stream is cut into chunks, the bodies are the ones that were sent, in order.\<close>

lemma receive_chunks:
  assumes "\<forall>b \<in> set bs. ok b" and "concat (map enc bs) = d @ concat cs" and "dec d = None"
    and "d = [] \<or> (\<exists>b bs' q. bs = b # bs' \<and> enc b = d @ q \<and> q \<noteq> [])" and "length bs \<le> n"
    and nil: "dec [] = None"
  shows "receive n cs d = (bs, [])"
  using assms(1-5)
proof (induction cs arbitrary: bs d)
  case Nil
  then have "d = []"
    by (cases bs) (auto simp: enc_nonempty)
  with Nil show ?case
    using enc_nonempty by (cases bs) auto
next
  case (Cons c cs)
  then have "concat (map enc bs) = (d @ c) @ concat cs" by simp
  from prefix_split [OF this] obtain bs1 bs2 p q where
    s: "bs = bs1 @ bs2" "d @ c = concat (map enc bs1) @ p" "concat (map enc bs2) = p @ concat cs"
    "p = [] \<or> (\<exists>b bs'. bs2 = b # bs' \<and> enc b = p @ q \<and> q \<noteq> [])"
    by blast
  have p: "dec p = None"
    using s(1,4) Cons.prems(1) nil dec_wait by (auto)
  have "drain n (d @ c) = (bs1, p)"
    using s(1,2) p Cons.prems(1,5) drain_packets [of bs1 p n] by simp
  moreover have "receive n cs p = (bs2, [])"
    using s p Cons.prems(1,5) by (intro Cons.IH) auto
  ultimately show ?case
    using s(1) by simp
qed

end

section \<open>The framing of the program\<close>

definition body_ok :: "string \<Rightarrow> bool" where
  "body_ok b \<longleftrightarrow> b \<noteq> [] \<and> length b \<le> max_body"

lemma byte_of_word: "unat (drop_bit k w AND (255 :: 32 word)) = unat w div 2 ^ k mod 256"
proof -
  have "drop_bit k w AND 255 = take_bit 8 (drop_bit k w)"
    using take_bit_eq_mask [of 8 "drop_bit k w"] by (simp add: mask_eq_exp_minus_1)
  moreover have "unat (take_bit 8 v) = unat v mod 256" for v :: "32 word"
    by (simp only: unsigned_take_bit_eq) (simp add: take_bit_eq_mod)
  moreover have "unat (drop_bit k w) = unat w div 2 ^ k"
    by (simp only: unat_drop_bit_eq) (simp add: drop_bit_eq_div)
  ultimately show ?thesis by simp
qed

lemma bytes_of_nat:
  assumes "(n :: nat) < 4294967296"
  shows "16777216 * (n div 16777216 mod 256) + 65536 * (n div 65536 mod 256) +
     256 * (n div 256 mod 256) + n mod 256 = n"
proof -
  have d: "n div 65536 = n div 256 div 256" "n div 16777216 = n div 65536 div 256"
    by (simp_all flip: div_mult2_eq)
  have "n div 16777216 < 256" using assms by (simp add: less_mult_imp_div_less)
  then have "n div 16777216 mod 256 = n div 16777216" by simp
  moreover have "n = 256 * (n div 256) + n mod 256"
    "n div 256 = 256 * (n div 65536) + n div 256 mod 256"
    "n div 65536 = 256 * (n div 16777216) + n div 65536 mod 256"
    by (simp_all add: d)
  ultimately show ?thesis by linarith
qed

lemma be32_roundtrip: "from_be32 (be32 w) = w"
proof -
  have "unat w < 4294967296"
    using unsigned_less [of w] by simp
  then show ?thesis
    using byte_of_word [of 0 w] bytes_of_nat [of "unat w"]
    by (simp add: from_be32_def be32_def byte_of_word flip: of_nat_mult of_nat_add)
qed

lemma length_be32 [simp]: "length (be32 w) = 4"
  by (simp add: be32_def)

lemma body_len: "body_ok b \<Longrightarrow> unat (word_of_nat (length b) :: 32 word) = length b"
  by (simp add: body_ok_def max_body_def unat_of_nat take_bit_nat_eq_self)

lemma tryDecodePacket_encode: "body_ok b \<Longrightarrow> tryDecodePacket (encodePacket b @ r) = Some (b, r)"
  by (auto simp: tryDecodePacket_def encodePacket_def be32_roundtrip body_len body_ok_def Let_def)

lemma tryDecodePacket_wait:
  assumes "body_ok b" and "encodePacket b = p @ q" and "q \<noteq> []"
  shows "tryDecodePacket p = None"
proof (cases "length p < 4")
  case True
  then show ?thesis by (simp add: tryDecodePacket_def)
next
  case False
  from assms(2) have "take 4 (p @ q) = be32 (word_of_nat (length b))"
    by (metis encodePacket_def append_eq_conv_conj length_be32)
  with False have t: "take 4 p = be32 (word_of_nat (length b))" by simp
  have "length (encodePacket b) = 4 + length b"
    by (simp add: encodePacket_def)
  with assms(2,3) have "length p < 4 + length b"
    by (metis add.commute length_append length_greater_0_conv less_add_same_cancel2)
  then show ?thesis
    by (simp add: tryDecodePacket_def t be32_roundtrip body_len [OF assms(1)] Let_def)
qed

interpretation pkt: framing encodePacket tryDecodePacket body_ok
proof unfold_locales
  show "encodePacket b \<noteq> []" for b
    by (simp add: encodePacket_def be32_def)
qed (auto intro: tryDecodePacket_encode tryDecodePacket_wait)

lemma tryDecodePacket_nil [simp]: "tryDecodePacket [] = None"
  by (simp add: tryDecodePacket_def)

text \<open>What does not decode and can never decode: the length is zero or too large.\<close>

lemma tryDecodePacket_stuck:
  assumes "4 \<le> length d" and "unat (from_be32 (take 4 d)) = 0 \<or> max_body < unat (from_be32 (take 4 d))"
  shows "tryDecodePacket (d @ e) = None"
  using assms by (auto simp: tryDecodePacket_def Let_def)

section \<open>The server's read handler\<close>

text \<open>The node's answers to a list of requests, one after the other.\<close>

fun answers :: "(string \<Rightarrow> 's \<Rightarrow> string \<times> 's) \<Rightarrow> string list \<Rightarrow> 's \<Rightarrow> string list \<times> 's" where
  "answers h [] s = ([], s)"
| "answers h (b # bs) s =
     (let (a, s') = h b s; (as, s'') = answers h bs s' in (a # as, s''))"

lemma tc_serve_drain:
  assumes "length (tc_input c) \<le> n"
  shows "\<exists>bs r as s'. pkt.drain n (tc_input c) = (bs, r) \<and> answers h bs s = (as, s') \<and>
    tc_serve h c s =
      (c\<lparr>tc_input := r, tc_output := tc_output c @ concat (map encodePacket as)\<rparr>, s')"
  using assms
proof (induction n arbitrary: c s)
  case 0
  then show ?case by (simp add: tc_serve.simps [of h c s])
next
  case (Suc n)
  show ?case
  proof (cases "tryDecodePacket (tc_input c)")
    case None
    then show ?thesis by (simp add: tc_serve.simps [of h c s])
  next
    case (Some br)
    then obtain b r where d: "tryDecodePacket (tc_input c) = Some (b, r)" by (cases br) auto
    obtain a s1 where a: "h b s = (a, s1)" by (cases "h b s")
    let ?c = "c\<lparr>tc_input := r, tc_output := buf_append (encodePacket a) (tc_output c)\<rparr>"
    from tryDecodePacket_shrinks [OF d] Suc.prems have "length (tc_input ?c) \<le> n" by simp
    from Suc.IH [OF this, of s1] d a show ?thesis
      by (auto simp: tc_serve.simps [of h c s] buf_append_def)
  qed
qed

lemma tc_serve_packets:
  assumes "tc_input c = concat (map encodePacket bs) @ p" and "\<forall>b \<in> set bs. body_ok b"
    and "tryDecodePacket p = None" and "answers h bs s = (as, s')"
  shows "tc_serve h c s =
      (c\<lparr>tc_input := p, tc_output := tc_output c @ concat (map encodePacket as)\<rparr>, s')"
proof -
  have len: "length bs \<le> length (concat (map encodePacket bs))" for bs
    by (induction bs) (auto simp: encodePacket_def be32_def)
  have "length bs \<le> length (tc_input c)"
    using assms(1) len [of bs] by simp
  with assms have "pkt.drain (length (tc_input c)) (tc_input c) = (bs, p)"
    using pkt.drain_packets by simp
  with tc_serve_drain [of c "length (tc_input c)" h s] assms(4) show ?thesis by auto
qed

lemma buf_readFd_received: "buf_readFd (map Received ds) d = (True, d @ concat ds)"
  by (induction ds arbitrary: d) (auto simp: buf_append_def)

text \<open>
  The buffers of a connection over read events, each with what the socket delivers, as long as no
  write event comes in between.
\<close>

fun tc_reads ::
  "(string \<Rightarrow> 's \<Rightarrow> string \<times> 's) \<Rightarrow> string list list \<Rightarrow> tcp_conn \<Rightarrow> 's \<Rightarrow> tcp_conn \<times> 's" where
  "tc_reads h [] c s = (c, s)"
| "tc_reads h (ds # dss) c s =
     (let (c', s') = tc_handleRead h (map Received ds) c s in tc_reads h dss c' s')"

lemma answers_length: "answers h bs s = (as, s') \<Longrightarrow> length as = length bs"
  by (induction bs arbitrary: s as) (auto split: prod.splits)

lemma answers_append:
  "answers h (bs1 @ bs2) s =
     (let (a1, s1) = answers h bs1 s; (a2, s2) = answers h bs2 s1 in (a1 @ a2, s2))"
  by (induction bs1 arbitrary: s) (auto simp: Let_def split: prod.split)

lemma tc_reads_packets:
  assumes "\<forall>b \<in> set bs. body_ok b"
    and "concat (map encodePacket bs) = tc_input c @ concat (concat dss)"
    and "tc_input c = [] \<or> (\<exists>b bs' q. bs = b # bs' \<and> encodePacket b = tc_input c @ q \<and> q \<noteq> [])"
    and "answers h bs s = (as, s')"
  shows "tc_reads h dss c s =
      (c\<lparr>tc_input := [], tc_output := tc_output c @ concat (map encodePacket as)\<rparr>, s')"
  using assms
proof (induction dss arbitrary: bs c s as s')
  case Nil
  then have "tc_input c = [] \<and> bs = []"
    using pkt.enc_nonempty by (cases bs) auto
  with Nil show ?case by simp
next
  case (Cons ds dss)
  let ?d = "tc_input c @ concat ds"
  from Cons.prems(2) have "concat (map encodePacket bs) = ?d @ concat (concat dss)" by simp
  from pkt.prefix_split [OF this] obtain bs1 bs2 p q where
    s: "bs = bs1 @ bs2" "?d = concat (map encodePacket bs1) @ p"
    "concat (map encodePacket bs2) = p @ concat (concat dss)"
    "p = [] \<or> (\<exists>b bs'. bs2 = b # bs' \<and> encodePacket b = p @ q \<and> q \<noteq> [])"
    by blast
  have p: "tryDecodePacket p = None"
    using s(1,4) Cons.prems(1) tryDecodePacket_wait by auto
  obtain a1 s1 where a1: "answers h bs1 s = (a1, s1)" by (cases "answers h bs1 s")
  obtain a2 s2 where a2: "answers h bs2 s1 = (a2, s2)" by (cases "answers h bs2 s1")
  from a1 a2 s(1) Cons.prems(4) have a: "as = a1 @ a2" "s' = s2"
    by (auto simp: answers_append)
  let ?c = "c\<lparr>tc_input := p, tc_output := tc_output c @ concat (map encodePacket a1)\<rparr>"
  have "tc_serve h (c\<lparr>tc_input := ?d\<rparr>) s = (?c, s1)"
    using tc_serve_packets [of "c\<lparr>tc_input := ?d\<rparr>" bs1 p h s a1 s1] s(1,2) p a1 Cons.prems(1) by simp
  then have "tc_handleRead h (map Received ds) c s = (?c, s1)"
    by (simp add: tc_handleRead_def buf_readFd_received)
  moreover have "tc_reads h dss ?c s1 =
      (?c\<lparr>tc_input := [], tc_output := tc_output ?c @ concat (map encodePacket a2)\<rparr>, s2)"
  proof (rule Cons.IH)
    show "\<forall>b \<in> set bs2. body_ok b" using s(1) Cons.prems(1) by simp
    show "concat (map encodePacket bs2) = tc_input ?c @ concat (concat dss)" using s(3) by simp
    show "tc_input ?c = [] \<or> (\<exists>b bs' q. bs2 = b # bs' \<and> encodePacket b = tc_input ?c @ q \<and> q \<noteq> [])"
      using s(4) by auto
    show "answers h bs2 s1 = (a2, s2)" by (rule a2)
  qed
  ultimately show ?case
    using s(1) a by (simp add: disj_assoc)
qed

section \<open>The client's read loop\<close>

lemma readN_received:
  "n \<le> length (concat ds) \<Longrightarrow> (\<forall>d \<in> set ds. d \<noteq> []) \<Longrightarrow>
     \<exists>ds'. readN n (map Received ds) = Some (take n (concat ds), map Received ds') \<and>
       concat ds' = drop n (concat ds) \<and> (\<forall>d \<in> set ds'. d \<noteq> [])"
proof (induction n arbitrary: ds)
  case 0
  then show ?case by auto
next
  case (Suc n)
  then obtain c cs rs where ds: "ds = (c # cs) # rs"
    by (cases ds) (auto simp: neq_Nil_conv)
  let ?ds = "if cs = [] then rs else cs # rs"
  have "concat ds = c # concat ?ds" using ds by simp
  moreover from Suc.prems ds have "n \<le> length (concat ?ds)" "\<forall>d \<in> set ?ds. d \<noteq> []" by auto
  from Suc.IH [OF this] obtain ds' where
    "readN n (map Received ?ds) = Some (take n (concat ?ds), map Received ds')"
    "concat ds' = drop n (concat ?ds)" "\<forall>d \<in> set ds'. d \<noteq> []" by blast
  moreover have "readN (Suc n) (map Received ds) =
      map_option (\<lambda>(d, rs'). (c # d, rs')) (readN n (map Received ?ds))"
    using ds by simp
  ultimately show ?case by auto
qed

lemma recvResponse_chunks_aux:
  assumes "body_ok b" and "concat ds = encodePacket b" and "\<forall>d \<in> set ds. d \<noteq> []"
  shows "recvResponse (map Received ds) = Some b"
proof -
  have len: "length (concat ds) = 4 + length b" by (simp add: assms(2) encodePacket_def)
  from readN_received [of 4 ds] len assms(3) obtain ds1 where
    1: "readN 4 (map Received ds) = Some (take 4 (concat ds), map Received ds1)"
      "concat ds1 = drop 4 (concat ds)" "\<forall>d \<in> set ds1. d \<noteq> []" by auto
  have b: "concat ds1 = b" using 1(2) by (simp add: assms(2) encodePacket_def)
  from readN_received [of "length b" ds1] b 1(3) obtain ds2 where
    "readN (length b) (map Received ds1) = Some (b, map Received ds2)" by auto
  moreover have "take 4 (concat ds) = be32 (word_of_nat (length b))"
    by (simp add: assms(2) encodePacket_def)
  ultimately show ?thesis
    using 1(1) assms(1)
    by (simp add: recvResponse_def be32_roundtrip body_len) (simp add: body_ok_def)
qed

lemma writeN_total: "(\<forall>k \<in> set ks. 0 < k) \<Longrightarrow> n \<le> sum_list ks \<Longrightarrow> writeN n (map Sent ks)"
proof (induction ks arbitrary: n)
  case Nil
  then show ?case by simp
next
  case (Cons k ks)
  then show ?case by (cases n; cases k) auto
qed

end
