(* ===== verification/Reactor.thy ===== *)
theory Reactor
  imports Packet
begin

text \<open>
  The event loop of a node's server: \<open>Channel\<close> and \<open>EventLoop\<close> over epoll, \<open>TcpServer\<close> with its
  acceptor and its map of connections, and \<open>TcpConnection\<close> as the owner of a channel. What the
  kernel reports (the events of \<open>epoll_wait\<close>, the results of \<open>accept\<close>, \<open>recv\<close> and \<open>send\<close>) are
  parameters. A use of a destroyed object is undefined behaviour: an operation that does it has
  no result, \<open>None\<close>.
\<close>

unbundle bit_operations_syntax

section \<open>Channels and epoll\<close>

definition EPOLLIN :: "32 word" where "EPOLLIN = 1"
definition EPOLLOUT :: "32 word" where "EPOLLOUT = 4"
definition EPOLLERR :: "32 word" where "EPOLLERR = 8"
definition EPOLLHUP :: "32 word" where "EPOLLHUP = 16"

record channel =
  ch_fd :: int
  ch_events :: "32 word"
  ch_revents :: "32 word"
  ch_inEpoll :: bool

definition Channel_new :: "int \<Rightarrow> channel" where
  "Channel_new fd = \<lparr>ch_fd = fd, ch_events = 0, ch_revents = 0, ch_inEpoll = False\<rparr>"

text \<open>
  The interest list of the epoll instance. \<open>epoll_ctl\<close> refuses to add a descriptor that is there
  and to modify or delete one that is not; the program does not look at its result.
\<close>

type_synonym epoll = "int \<rightharpoonup> 32 word"

definition epoll_add :: "int \<Rightarrow> 32 word \<Rightarrow> epoll \<Rightarrow> epoll" where
  "epoll_add fd ev ep = (if ep fd = None then ep(fd \<mapsto> ev) else ep)"

definition epoll_mod :: "int \<Rightarrow> 32 word \<Rightarrow> epoll \<Rightarrow> epoll" where
  "epoll_mod fd ev ep = (if ep fd = None then ep else ep(fd \<mapsto> ev))"

definition epoll_del :: "int \<Rightarrow> epoll \<Rightarrow> epoll" where
  "epoll_del fd ep = ep(fd := None)"

definition updateChannel :: "channel \<Rightarrow> epoll \<Rightarrow> channel \<times> epoll" where
  "updateChannel ch ep =
     (if \<not> ch_inEpoll ch then (ch\<lparr>ch_inEpoll := True\<rparr>, epoll_add (ch_fd ch) (ch_events ch) ep)
      else (ch, epoll_mod (ch_fd ch) (ch_events ch) ep))"

definition removeChannel :: "channel \<Rightarrow> epoll \<Rightarrow> channel \<times> epoll" where
  "removeChannel ch ep =
     (if ch_inEpoll ch then (ch\<lparr>ch_inEpoll := False\<rparr>, epoll_del (ch_fd ch) ep) else (ch, ep))"

definition enableReading :: "channel \<Rightarrow> epoll \<Rightarrow> channel \<times> epoll" where
  "enableReading ch = updateChannel (ch\<lparr>ch_events := ch_events ch OR EPOLLIN\<rparr>)"

definition enableWriting :: "channel \<Rightarrow> epoll \<Rightarrow> channel \<times> epoll" where
  "enableWriting ch = updateChannel (ch\<lparr>ch_events := ch_events ch OR EPOLLOUT\<rparr>)"

definition disableWriting :: "channel \<Rightarrow> epoll \<Rightarrow> channel \<times> epoll" where
  "disableWriting ch = updateChannel (ch\<lparr>ch_events := ch_events ch AND NOT EPOLLOUT\<rparr>)"

definition disableAll :: "channel \<Rightarrow> epoll \<Rightarrow> channel \<times> epoll" where
  "disableAll ch = updateChannel (ch\<lparr>ch_events := 0\<rparr>)"

definition isWriting :: "channel \<Rightarrow> bool" where
  "isWriting ch \<longleftrightarrow> ch_events ch AND EPOLLOUT \<noteq> 0"

section \<open>The server\<close>

record conn =
  cn_tc :: tcp_conn
  cn_chan :: channel

text \<open>\<open>connections_\<close> owns the connections, each of which owns its channel.\<close>

record server =
  sv_listenFd :: int
  sv_running :: bool
  sv_quit :: bool
  sv_epoll :: epoll
  sv_accept :: "channel option"
  sv_conns :: "int \<rightharpoonup> conn"

definition TcpServer_new :: server where
  "TcpServer_new = \<lparr>sv_listenFd = -1, sv_running = False, sv_quit = False, sv_epoll = Map.empty,
     sv_accept = None, sv_conns = Map.empty\<rparr>"

definition server_start :: "server \<Rightarrow> server" where
  "server_start S = S\<lparr>sv_running := True\<rparr>"

text \<open>Closing a descriptor also takes it off the interest list.\<close>

definition server_stop :: "server \<Rightarrow> server" where
  "server_stop S =
     (let S1 = S\<lparr>sv_running := False, sv_quit := True\<rparr>
      in if sv_listenFd S1 \<ge> 0
         then S1\<lparr>sv_epoll := epoll_del (sv_listenFd S1) (sv_epoll S1), sv_listenFd := -1\<rparr> else S1)"

text \<open>
  \<open>startInLoop\<close> up to the loop, with the results of \<open>socket\<close>, \<open>bind\<close> and \<open>listen\<close>; the flag says
  whether the loop is entered.
\<close>

definition startInLoop :: "int \<Rightarrow> bool \<Rightarrow> bool \<Rightarrow> server \<Rightarrow> bool \<times> server" where
  "startInLoop sock bindOk listenOk S =
     (let S1 = S\<lparr>sv_listenFd := sock\<rparr> in
      if sock < 0 then (False, S1)
      else if \<not> bindOk then (False, S1)
      else if \<not> listenOk then (False, S1)
      else case enableReading (Channel_new sock) (sv_epoll S1) of
             (ch, ep) \<Rightarrow> (True, S1\<lparr>sv_accept := Some ch, sv_epoll := ep\<rparr>))"

text \<open>The constructor of \<open>TcpConnection\<close>, and the loop of \<open>handleAccept\<close>.\<close>

definition conn_new :: "int \<Rightarrow> epoll \<Rightarrow> conn \<times> epoll" where
  "conn_new fd ep =
     (case enableReading (Channel_new fd) ep of (ch, ep') \<Rightarrow> (\<lparr>cn_tc = tc_new, cn_chan = ch\<rparr>, ep'))"

datatype accept_result = Accepted int | AcceptAgain | AcceptError

fun handleAccept :: "accept_result list \<Rightarrow> server \<Rightarrow> server" where
  "handleAccept (Accepted fd # as) S =
     (case conn_new fd (sv_epoll S) of
        (c, ep) \<Rightarrow> handleAccept as (S\<lparr>sv_epoll := ep, sv_conns := (sv_conns S)(fd \<mapsto> c)\<rparr>))"
| "handleAccept _ S = S"

text \<open>
  \<open>handleClose\<close>: the channel leaves the interest list, the descriptor is closed, and the close
  callback erases the connection, which destroys it and its channel.
\<close>

definition conn_close :: "int \<Rightarrow> conn \<Rightarrow> server \<Rightarrow> server" where
  "conn_close fd c S =
     S\<lparr>sv_epoll := epoll_del fd (snd (removeChannel (cn_chan c) (sv_epoll S))),
       sv_conns := (sv_conns S)(fd := None)\<rparr>"

definition conn_store :: "int \<Rightarrow> conn \<Rightarrow> epoll \<Rightarrow> server \<Rightarrow> server" where
  "conn_store fd c ep S = S\<lparr>sv_epoll := ep, sv_conns := (sv_conns S)(fd \<mapsto> c)\<rparr>"

text \<open>
  The loop of \<open>handleRead\<close>: each decoded request goes to the node (\<open>h\<close>, with its state), the answer
  is queued, and the channel waits for writing.
\<close>

function conn_serve ::
  "(string \<Rightarrow> 's \<Rightarrow> string \<times> 's) \<Rightarrow> conn \<Rightarrow> epoll \<Rightarrow> 's \<Rightarrow> conn \<times> epoll \<times> 's" where
  "conn_serve h c ep s =
     (case tryDecodePacket (tc_input (cn_tc c)) of
        None \<Rightarrow> (c, ep, s)
      | Some (req, r) \<Rightarrow>
          (case h req s of (resp, s') \<Rightarrow>
             (case enableWriting (cn_chan c) ep of (ch, ep') \<Rightarrow>
                conn_serve h \<lparr>cn_tc = (cn_tc c)\<lparr>tc_input := r,
                    tc_output := buf_append (encodePacket resp) (tc_output (cn_tc c))\<rparr>,
                  cn_chan = ch\<rparr> ep' s')))"
  by pat_completeness auto
termination
  by (relation "measure (\<lambda>(h, c, ep, s). length (tc_input (cn_tc c)))") (auto dest: tryDecodePacket_shrinks)

declare conn_serve.simps [simp del]

definition conn_handleRead ::
  "(string \<Rightarrow> 's \<Rightarrow> string \<times> 's) \<Rightarrow> recv_result list \<Rightarrow> int \<Rightarrow> conn \<Rightarrow> server \<Rightarrow> 's \<Rightarrow> server \<times> 's" where
  "conn_handleRead h rs fd c S s =
     (case buf_readFd rs (tc_input (cn_tc c)) of (ok, d) \<Rightarrow>
        let c1 = c\<lparr>cn_tc := (cn_tc c)\<lparr>tc_input := d\<rparr>\<rparr> in
        if \<not> ok then (conn_close fd c1 S, s)
        else case conn_serve h c1 (sv_epoll S) s of (c2, ep, s') \<Rightarrow> (conn_store fd c2 ep S, s'))"

definition conn_handleWrite :: "send_result list \<Rightarrow> int \<Rightarrow> conn \<Rightarrow> server \<Rightarrow> server" where
  "conn_handleWrite ws fd c S =
     (case buf_writeFd ws (tc_output (cn_tc c)) of (ok, d) \<Rightarrow>
        let c1 = c\<lparr>cn_tc := (cn_tc c)\<lparr>tc_output := d\<rparr>\<rparr> in
        if \<not> ok then conn_close fd c1 S
        else if d = [] then
          (case disableWriting (cn_chan c1) (sv_epoll S) of (ch, ep) \<Rightarrow>
             conn_close fd (c1\<lparr>cn_chan := ch\<rparr>) (S\<lparr>sv_epoll := ep\<rparr>))
        else conn_store fd c1 (sv_epoll S) S)"

section \<open>Events\<close>

text \<open>What the kernel answers while an event is handled.\<close>

record io =
  io_accept :: "accept_result list"
  io_recv :: "recv_result list"
  io_send :: "send_result list"

text \<open>
  \<open>Channel::handleEvent\<close> of a connection. After the read callback it reads \<open>revents_\<close> again: where
  the callback has closed the connection the channel is gone by then.
\<close>

definition handleEvent ::
  "(string \<Rightarrow> 's \<Rightarrow> string \<times> 's) \<Rightarrow> io \<Rightarrow> 32 word \<Rightarrow> int \<Rightarrow> server \<Rightarrow> 's \<Rightarrow> (server \<times> 's) option" where
  "handleEvent h k revt fd S s =
     (case sv_conns S fd of
        None \<Rightarrow> None
      | Some c0 \<Rightarrow>
          let c = c0\<lparr>cn_chan := (cn_chan c0)\<lparr>ch_revents := revt\<rparr>\<rparr>;
              S0 = conn_store fd c (sv_epoll S) S
          in if revt AND (EPOLLHUP OR EPOLLERR) \<noteq> 0 then Some (conn_close fd c S0, s)
             else case (if revt AND EPOLLIN \<noteq> 0 then conn_handleRead h (io_recv k) fd c S0 s else (S0, s)) of
                    (S1, s1) \<Rightarrow>
                      (case sv_conns S1 fd of
                         None \<Rightarrow> None
                       | Some c1 \<Rightarrow>
                           if revt AND EPOLLOUT \<noteq> 0 then Some (conn_handleWrite (io_send k) fd c1 S1, s1)
                           else Some (S1, s1)))"

text \<open>One event of a round of \<open>EventLoop::loop\<close>: of the acceptor, which has a read callback only, or of a
  connection.\<close>

definition serve_event ::
  "(string \<Rightarrow> 's \<Rightarrow> string \<times> 's) \<Rightarrow> io \<times> 32 word \<times> int \<Rightarrow> server \<times> 's \<Rightarrow> (server \<times> 's) option" where
  "serve_event h e Ss =
     (case e of (k, revt, fd) \<Rightarrow> case Ss of (S, s) \<Rightarrow>
        if fd = sv_listenFd S then
          (if revt AND (EPOLLHUP OR EPOLLERR) \<noteq> 0 then Some (S, s)
           else if revt AND EPOLLIN \<noteq> 0 then Some (handleAccept (io_accept k) S, s)
           else Some (S, s))
        else handleEvent h k revt fd S s)"

fun loop_round ::
  "(string \<Rightarrow> 's \<Rightarrow> string \<times> 's) \<Rightarrow> (io \<times> 32 word \<times> int) list \<Rightarrow> server \<times> 's \<Rightarrow> (server \<times> 's) option" where
  "loop_round h [] Ss = Some Ss"
| "loop_round h (e # es) Ss = Option.bind (serve_event h e Ss) (loop_round h es)"

section \<open>The registry invariant\<close>

text \<open>
  Every connection in the map is open, is in the interest list under its descriptor with the
  events its channel has, always reads, and writes exactly when an answer waits; the list holds
  nothing but these and the acceptor.
\<close>

definition conn_ok :: "epoll \<Rightarrow> int \<Rightarrow> conn \<Rightarrow> bool" where
  "conn_ok ep fd c \<longleftrightarrow> ch_fd (cn_chan c) = fd \<and> ch_inEpoll (cn_chan c) \<and>
     ch_events (cn_chan c) = (if tc_output (cn_tc c) = [] then EPOLLIN else EPOLLIN OR EPOLLOUT) \<and>
     ep fd = Some (ch_events (cn_chan c)) \<and> tc_open (cn_tc c)"

definition server_ok :: "server \<Rightarrow> bool" where
  "server_ok S \<longleftrightarrow> (\<forall>fd c. sv_conns S fd = Some c \<longrightarrow> conn_ok (sv_epoll S) fd c) \<and>
     (\<forall>fd. sv_epoll S fd \<noteq> None \<longrightarrow> fd = sv_listenFd S \<or> sv_conns S fd \<noteq> None) \<and> sv_conns S (sv_listenFd S) = None"

text \<open>\<open>accept\<close> returns a descriptor that is not in use.\<close>

fun fresh_accepts :: "accept_result list \<Rightarrow> server \<Rightarrow> bool" where
  "fresh_accepts (Accepted fd # as) S \<longleftrightarrow>
     sv_conns S fd = None \<and> fd \<noteq> sv_listenFd S \<and> Accepted fd \<notin> set as \<and> fresh_accepts as S"
| "fresh_accepts _ S \<longleftrightarrow> True"

lemma conn_close_ok: "server_ok S \<Longrightarrow> ch_fd (cn_chan c) = fd \<Longrightarrow> server_ok (conn_close fd c S)"
  by (auto simp: server_ok_def conn_close_def conn_ok_def removeChannel_def epoll_del_def)

lemma conn_store_ok:
  assumes "server_ok S" and "fd \<noteq> sv_listenFd S" and "conn_ok ep fd c"
    and "\<And>i. i \<noteq> fd \<Longrightarrow> ep i = sv_epoll S i"
  shows "server_ok (conn_store fd c ep S)"
proof -
  have "conn_ok ep i d" if "conn_ok (sv_epoll S) i d" "i \<noteq> fd" for i d
    using that assms(4) by (simp add: conn_ok_def)
  moreover have "i = sv_listenFd S \<or> i = fd \<or> sv_conns S i \<noteq> None" if "ep i \<noteq> None" for i
    using that assms(1,4) by (cases "i = fd") (auto simp: server_ok_def)
  ultimately show ?thesis
    using assms(1-3) by (auto simp: server_ok_def conn_store_def)
qed

lemma conn_new_ok:
  assumes "server_ok S" and "sv_conns S fd = None" and "fd \<noteq> sv_listenFd S" and "conn_new fd (sv_epoll S) = (c, ep)"
  shows "server_ok (S\<lparr>sv_epoll := ep, sv_conns := (sv_conns S)(fd \<mapsto> c)\<rparr>)"
proof -
  have "sv_epoll S fd = None"
    using assms(1-3) unfolding server_ok_def by blast
  with assms(4) have "conn_ok ep fd c" "\<And>i. i \<noteq> fd \<Longrightarrow> ep i = sv_epoll S i"
    by (auto simp: conn_ok_def conn_new_def enableReading_def updateChannel_def Channel_new_def
        epoll_add_def tc_new_def)
  from conn_store_ok [OF assms(1,3) this] show ?thesis
    by (simp add: conn_store_def)
qed

lemma server_conn: "server_ok S \<Longrightarrow> sv_conns S fd = Some c \<Longrightarrow> fd \<noteq> sv_listenFd S \<and> conn_ok (sv_epoll S) fd c"
  by (auto simp: server_ok_def)

lemma channel_write_bits:
  "(EPOLLIN OR EPOLLOUT) OR EPOLLOUT = EPOLLIN OR EPOLLOUT" "(EPOLLIN OR EPOLLOUT) AND EPOLLOUT \<noteq> 0"
  "EPOLLIN AND EPOLLOUT = 0"
  by (simp_all add: EPOLLIN_def EPOLLOUT_def)

lemma conn_ok_input: "conn_ok ep fd c \<Longrightarrow> conn_ok ep fd (c\<lparr>cn_tc := (cn_tc c)\<lparr>tc_input := d\<rparr>\<rparr>)"
  by (simp add: conn_ok_def)

lemma encodePacket_nonempty: "encodePacket b \<noteq> []"
  by (simp add: encodePacket_def be32_def)

lemma enableWriting_ok:
  assumes "conn_ok ep fd c" and "enableWriting (cn_chan c) ep = (ch, ep')" and "tc_open t" and "tc_output t \<noteq> []"
  shows "conn_ok ep' fd \<lparr>cn_tc = t, cn_chan = ch\<rparr>" and "i \<noteq> fd \<Longrightarrow> ep' i = ep i"
  using assms channel_write_bits(1)
  by (auto simp: conn_ok_def enableWriting_def updateChannel_def epoll_mod_def split: if_splits)

text \<open>The loop on the channel is the loop on the buffers, and the channel keeps up with the output.\<close>

lemma conn_serve_ok:
  assumes "conn_serve h c ep s = (c', ep', s')" and "conn_ok ep fd c"
  shows "conn_ok ep' fd c'" and "i \<noteq> fd \<Longrightarrow> ep' i = ep i"
    and "tc_serve h (cn_tc c) s = (cn_tc c', s')"
proof -
  have "conn_ok ep' fd c' \<and> (i \<noteq> fd \<longrightarrow> ep' i = ep i) \<and> tc_serve h (cn_tc c) s = (cn_tc c', s')"
    using assms
  proof (induction h c ep s rule: conn_serve.induct)
    case (1 h c ep s)
    show ?case
    proof (cases "tryDecodePacket (tc_input (cn_tc c))")
      case None
      then have "tc_serve h (cn_tc c) s = (cn_tc c, s)"
        by (simp add: tc_serve.simps [of h "cn_tc c"])
      with 1(2,3) None show ?thesis
        by (simp add: conn_serve.simps [of h c])
    next
      case (Some br)
      obtain req r where br: "br = (req, r)" by (cases br)
      obtain resp s1 where a: "h req s = (resp, s1)" by (cases "h req s")
      obtain ch ep1 where e: "enableWriting (cn_chan c) ep = (ch, ep1)"
        by (cases "enableWriting (cn_chan c) ep")
      let ?t = "(cn_tc c)\<lparr>tc_input := r, tc_output := buf_append (encodePacket resp) (tc_output (cn_tc c))\<rparr>"
      have "tc_open ?t" "tc_output ?t \<noteq> []"
        using 1(3) encodePacket_nonempty by (simp_all add: conn_ok_def buf_append_def)
      note w = enableWriting_ok [OF 1(3) e this]
      have "conn_serve h \<lparr>cn_tc = ?t, cn_chan = ch\<rparr> ep1 s1 = (c', ep', s')"
        using 1(2) Some br a e by (simp add: conn_serve.simps [of h c])
      from 1(1) [OF Some br [symmetric] a [symmetric] e [symmetric] this w(1)] w(2) show ?thesis
        using Some br a by (simp add: tc_serve.simps [of h "cn_tc c"])
    qed
  qed
  then show "conn_ok ep' fd c'" and "i \<noteq> fd \<Longrightarrow> ep' i = ep i"
    and "tc_serve h (cn_tc c) s = (cn_tc c', s')"
    by simp_all
qed

lemma conn_handleRead_ok:
  assumes "server_ok S" and "sv_conns S fd = Some c" and "conn_handleRead h rs fd c S s = (S', s')"
  shows "server_ok S'" and "sv_conns S' fd = None \<longleftrightarrow> \<not> fst (buf_readFd rs (tc_input (cn_tc c)))"
    and "i \<noteq> fd \<Longrightarrow> sv_conns S' i = sv_conns S i"
    and "sv_listenFd S' = sv_listenFd S"
    and "sv_conns S' fd = Some c' \<Longrightarrow> tc_handleRead h rs (cn_tc c) s = (cn_tc c', s')"
proof -
  have l: "fd \<noteq> sv_listenFd S" and c: "conn_ok (sv_epoll S) fd c"
    using server_conn [OF assms(1,2)] by simp_all
  obtain ok d where r: "buf_readFd rs (tc_input (cn_tc c)) = (ok, d)"
    by (cases "buf_readFd rs (tc_input (cn_tc c))")
  let ?c = "c\<lparr>cn_tc := (cn_tc c)\<lparr>tc_input := d\<rparr>\<rparr>"
  obtain c2 ep s2 where v: "conn_serve h ?c (sv_epoll S) s = (c2, ep, s2)"
    by (cases "conn_serve h ?c (sv_epoll S) s")
  note w = conn_serve_ok [OF v conn_ok_input [OF c]]
  have S': "S' = (if ok then conn_store fd c2 ep S else conn_close fd ?c S)" "s' = (if ok then s2 else s)"
    using assms(3) r v by (auto simp: conn_handleRead_def)
  show "server_ok S'"
  proof (cases ok)
    case True
    with S' conn_store_ok [OF assms(1) l w(1)] w(2) show ?thesis by simp
  next
    case False
    with S' c conn_close_ok [OF assms(1), of ?c fd] show ?thesis by (simp add: conn_ok_def)
  qed
  show "sv_conns S' fd = None \<longleftrightarrow> \<not> fst (buf_readFd rs (tc_input (cn_tc c)))"
    and "i \<noteq> fd \<Longrightarrow> sv_conns S' i = sv_conns S i" and "sv_listenFd S' = sv_listenFd S"
    using S' r by (simp_all add: conn_close_def conn_store_def)
  show "sv_conns S' fd = Some c' \<Longrightarrow> tc_handleRead h rs (cn_tc c) s = (cn_tc c', s')"
    using S' r w(3) by (auto simp: conn_close_def conn_store_def tc_handleRead_def split: if_splits)
qed

lemma conn_handleWrite_ok:
  assumes "server_ok S" and "sv_conns S fd = Some c"
  shows "server_ok (conn_handleWrite ws fd c S)"
proof -
  obtain ok d where r: "buf_writeFd ws (tc_output (cn_tc c)) = (ok, d)"
    by (cases "buf_writeFd ws (tc_output (cn_tc c))")
  let ?c = "c\<lparr>cn_tc := (cn_tc c)\<lparr>tc_output := d\<rparr>\<rparr>"
  have l: "fd \<noteq> sv_listenFd S" and c: "conn_ok (sv_epoll S) fd c"
    using server_conn [OF assms] by simp_all
  have fd: "ch_fd (cn_chan ?c) = fd"
    using c by (simp add: conn_ok_def)
  obtain ch ep where d: "disableWriting (cn_chan ?c) (sv_epoll S) = (ch, ep)"
    by (cases "disableWriting (cn_chan ?c) (sv_epoll S)")
  have "conn_close fd (?c\<lparr>cn_chan := ch\<rparr>) (S\<lparr>sv_epoll := ep\<rparr>) = conn_close fd ?c S"
    using c d by (auto simp: conn_close_def conn_ok_def disableWriting_def updateChannel_def removeChannel_def
        epoll_mod_def epoll_del_def split: if_splits)
  moreover have "server_ok (conn_close fd ?c S)"
    using assms(1) fd by (rule conn_close_ok)
  moreover have "server_ok (conn_store fd ?c (sv_epoll S) S)" if "d \<noteq> []"
  proof (rule conn_store_ok [OF assms(1) l])
    have "tc_output (cn_tc c) \<noteq> []"
      using r that by (cases ws) auto
    with c that show "conn_ok (sv_epoll S) fd ?c" by (simp add: conn_ok_def)
  qed simp
  ultimately show ?thesis
    using r d by (cases "d = []") (auto simp: conn_handleWrite_def Let_def)
qed

lemma handleEvent_undefined_aux:
  assumes "server_ok S" and "sv_conns S fd = Some c"
  shows "handleEvent h k revt fd S s = None \<longleftrightarrow>
    revt AND (EPOLLHUP OR EPOLLERR) = 0 \<and> revt AND EPOLLIN \<noteq> 0 \<and> \<not> fst (buf_readFd (io_recv k) (tc_input (cn_tc c)))"
    and "handleEvent h k revt fd S s = Some (S', s') \<Longrightarrow> server_ok S'"
proof -
  let ?c = "c\<lparr>cn_chan := (cn_chan c)\<lparr>ch_revents := revt\<rparr>\<rparr>"
  let ?S = "conn_store fd ?c (sv_epoll S) S"
  have l: "fd \<noteq> sv_listenFd S" and c: "conn_ok (sv_epoll S) fd c"
    using server_conn [OF assms] by simp_all
  have "server_ok ?S"
    by (rule conn_store_ok) (use assms l c in \<open>auto simp: conn_ok_def\<close>)
  moreover have "sv_conns ?S fd = Some ?c" "ch_fd (cn_chan ?c) = fd"
    using c by (simp_all add: conn_ok_def conn_store_def)
  ultimately have S: "server_ok ?S" "sv_conns ?S fd = Some ?c" "ch_fd (cn_chan ?c) = fd"
    by blast+
  obtain S1 s1 where r: "conn_handleRead h (io_recv k) fd ?c ?S s = (S1, s1)"
    by (cases "conn_handleRead h (io_recv k) fd ?c ?S s")
  note f = conn_handleRead_ok [OF S(1,2) r]
  show "handleEvent h k revt fd S s = None \<longleftrightarrow>
    revt AND (EPOLLHUP OR EPOLLERR) = 0 \<and> revt AND EPOLLIN \<noteq> 0 \<and> \<not> fst (buf_readFd (io_recv k) (tc_input (cn_tc c)))"
    using assms(2) r f(2) S(2) by (auto simp: handleEvent_def Let_def split: option.split)
  show "handleEvent h k revt fd S s = Some (S', s') \<Longrightarrow> server_ok S'"
    using assms(2) r f(1) S conn_close_ok [OF S(1,3)]
    by (auto simp: handleEvent_def Let_def conn_handleWrite_ok split: option.splits if_splits)
qed

lemma handleAccept_ok: "server_ok S \<Longrightarrow> fresh_accepts as S \<Longrightarrow> server_ok (handleAccept as S)"
proof (induction as S rule: handleAccept.induct)
  case (1 fd as S)
  obtain c ep where n: "conn_new fd (sv_epoll S) = (c, ep)" by (cases "conn_new fd (sv_epoll S)")
  let ?S = "S\<lparr>sv_epoll := ep, sv_conns := (sv_conns S)(fd \<mapsto> c)\<rparr>"
  have "fresh_accepts as ?S"
    using 1(3) by (induction as S rule: fresh_accepts.induct) auto
  moreover have "server_ok ?S"
    using 1(2,3) n by (intro conn_new_ok) auto
  ultimately show ?case
    using 1(1) [OF n [symmetric]] n by simp
qed auto

lemma started_server_ok:
  "0 \<le> sock \<Longrightarrow> startInLoop sock True True (server_start TcpServer_new) = (True, S) \<Longrightarrow> server_ok S"
  by (auto simp: startInLoop_def enableReading_def updateChannel_def Channel_new_def epoll_add_def server_ok_def
      TcpServer_new_def server_start_def split: if_splits)

section \<open>A connection from its first request to its end\<close>

text \<open>A readable event with the chunks that \<open>recv\<close> gives, and a writable event with what \<open>send\<close> takes.\<close>

definition read_event :: "int \<Rightarrow> string list \<Rightarrow> io \<times> 32 word \<times> int" where
  "read_event fd ds = (\<lparr>io_accept = [], io_recv = map Received ds, io_send = []\<rparr>, EPOLLIN, fd)"

definition write_event :: "int \<Rightarrow> nat list \<Rightarrow> io \<times> 32 word \<times> int" where
  "write_event fd ns = (\<lparr>io_accept = [], io_recv = [], io_send = map Sent ns\<rparr>, EPOLLOUT, fd)"

lemma event_bits:
  "EPOLLIN AND (EPOLLHUP OR EPOLLERR) = 0" "EPOLLIN AND EPOLLIN \<noteq> 0" "EPOLLIN AND EPOLLOUT = 0"
  "EPOLLOUT AND (EPOLLHUP OR EPOLLERR) = 0" "EPOLLOUT AND EPOLLIN = 0" "EPOLLOUT AND EPOLLOUT \<noteq> 0"
  by (simp_all add: EPOLLIN_def EPOLLOUT_def EPOLLHUP_def EPOLLERR_def)

lemma read_event_served:
  assumes "server_ok S" and "sv_conns S fd = Some c"
  shows "\<exists>S' c' s'. serve_event h (read_event fd ds) (S, s) = Some (S', s') \<and> server_ok S' \<and>
    sv_conns S' fd = Some c' \<and> tc_handleRead h (map Received ds) (cn_tc c) s = (cn_tc c', s') \<and>
    (\<forall>i. i \<noteq> fd \<longrightarrow> sv_conns S' i = sv_conns S i)"
proof -
  let ?c = "c\<lparr>cn_chan := (cn_chan c)\<lparr>ch_revents := EPOLLIN\<rparr>\<rparr>"
  let ?S = "conn_store fd ?c (sv_epoll S) S"
  have l: "fd \<noteq> sv_listenFd S" and c: "conn_ok (sv_epoll S) fd c"
    using server_conn [OF assms] by simp_all
  have S: "server_ok ?S"
    by (rule conn_store_ok) (use assms l c in \<open>auto simp: conn_ok_def\<close>)
  have Sc: "sv_conns ?S fd = Some ?c"
    by (simp add: conn_store_def)
  obtain S' s' where r: "conn_handleRead h (map Received ds) fd ?c ?S s = (S', s')"
    by (cases "conn_handleRead h (map Received ds) fd ?c ?S s")
  note f = conn_handleRead_ok [OF S Sc r]
  from f(2) obtain c' where c': "sv_conns S' fd = Some c'"
    by (cases "sv_conns S' fd") (simp_all add: buf_readFd_received)
  have "serve_event h (read_event fd ds) (S, s) = Some (S', s')"
    using l assms(2) r c' event_bits(1-3)
    by (simp add: serve_event_def read_event_def handleEvent_def Let_def)
  moreover have "sv_conns S' i = sv_conns S i" if "i \<noteq> fd" for i
    using f(3) [OF that] that by (simp add: conn_store_def)
  ultimately show ?thesis
    using f(1) f(5) [OF c'] c' by simp
qed

lemma loop_reads:
  assumes "server_ok S" and "sv_conns S fd = Some c"
  shows "\<exists>S' c'. loop_round h (map (read_event fd) dss) (S, s) = Some (S', snd (tc_reads h dss (cn_tc c) s)) \<and>
    server_ok S' \<and> sv_conns S' fd = Some c' \<and> cn_tc c' = fst (tc_reads h dss (cn_tc c) s) \<and>
    (\<forall>i. i \<noteq> fd \<longrightarrow> sv_conns S' i = sv_conns S i)"
  using assms
proof (induction dss arbitrary: S c s)
  case Nil
  then show ?case by auto
next
  case (Cons ds dss)
  from read_event_served [OF Cons.prems, of h ds s] obtain S1 c1 s1 where
    1: "serve_event h (read_event fd ds) (S, s) = Some (S1, s1)" "server_ok S1" "sv_conns S1 fd = Some c1"
      "tc_handleRead h (map Received ds) (cn_tc c) s = (cn_tc c1, s1)" "\<forall>i. i \<noteq> fd \<longrightarrow> sv_conns S1 i = sv_conns S i"
    by blast
  from Cons.IH [OF 1(2,3), of s1] 1 show ?case by auto
qed

text \<open>When everything is written the connection is closed and forgotten.\<close>

lemma buf_writeFd_all: "(\<forall>n \<in> set ns. 0 < n) \<Longrightarrow> length d \<le> sum_list ns \<Longrightarrow> buf_writeFd (map Sent ns) d = (True, [])"
proof (induction ns arbitrary: d)
  case (Cons n ns)
  then show ?case by (cases "d = []") (auto simp: buf_retrieve_def)
qed simp

lemma write_event_closes:
  assumes "server_ok S" and "sv_conns S fd = Some c" and "\<forall>n \<in> set ns. 0 < n"
    and "length (tc_output (cn_tc c)) \<le> sum_list ns"
  shows "\<exists>S'. serve_event h (write_event fd ns) (S, s) = Some (S', s) \<and> sv_conns S' fd = None"
proof -
  have l: "fd \<noteq> sv_listenFd S"
    using server_conn [OF assms(1,2)] by simp
  with assms(2) event_bits(4-6) buf_writeFd_all [OF assms(3,4)] show ?thesis
    by (auto simp: serve_event_def write_event_def handleEvent_def Let_def conn_handleWrite_def conn_store_def
        conn_close_def split: prod.split)
qed

text \<open>A server that listens on descriptor 3 and has accepted descriptor 5.\<close>

definition one_conn :: server where
  "one_conn = handleAccept [Accepted 5, AcceptAgain] (snd (startInLoop 3 True True (server_start TcpServer_new)))"

lemma one_conn_ok: "server_ok one_conn" "sv_listenFd one_conn = 3"
  "\<exists>c. sv_conns one_conn 5 = Some c \<and> cn_tc c = tc_new"
proof -
  have S: "server_ok (snd (startInLoop 3 True True (server_start TcpServer_new)))"
    by (rule started_server_ok [of 3]) (simp_all add: prod_eq_iff startInLoop_def split: prod.split)
  then show "server_ok one_conn"
    unfolding one_conn_def
    by (rule handleAccept_ok)
      (simp add: startInLoop_def TcpServer_new_def server_start_def split: prod.split)
  show "sv_listenFd one_conn = 3" "\<exists>c. sv_conns one_conn 5 = Some c \<and> cn_tc c = tc_new"
    by (auto simp: one_conn_def startInLoop_def conn_new_def TcpServer_new_def server_start_def tc_new_def split: prod.split)
qed

end
