(* ===== verification/Io_Properties.thy ===== *)
theory Io_Properties
  imports Examples Reactor
begin

text \<open>
  What the node and the client exchange with the outside: messages and their text, the state file,
  packets on connections, the requests of the client library, the cluster file.
\<close>

section \<open>Messages\<close>

text \<open>C25: Every message between nodes is read as it was written: building a RequestVote, AppendEntries or
  InstallSnapshot message or one of their replies and parsing the text gives it back, as long as
  the numbers are in the range of their type and keys, values and addresses are non-empty words
  without white space.\<close>

theorem messages_round_trip:
  assumes "rv_ok a" and "ae_ok b" and "sn_ok c"
    and "int_ok (rvr_term a')" and "int_ok (aer_term b')" and "int_ok (isr_term c')"
  shows "parseRequestVoteRpc (buildRequestVoteRpc a) = Some a \<and>
    parseAppendEntriesRpc (buildAppendEntriesRpc b) = Some b \<and>
    parseInstallSnapshotRpc (buildInstallSnapshotRpc c) = Some c \<and>
    parseRequestVoteReply (buildRequestVoteReply a') = Some a' \<and>
    parseAppendEntriesReply (buildAppendEntriesReply b') = Some b' \<and>
    parseInstallSnapshotReply (buildInstallSnapshotReply c') = Some c'"
  using assms RequestVote_roundtrip AppendEntries_roundtrip_aux InstallSnapshot_roundtrip_aux
    RequestVoteReply_roundtrip AppendEntriesReply_roundtrip InstallSnapshotReply_roundtrip by blast

lemma messages_round_trip_witness:
  "parseAppendEntriesRpc (buildAppendEntriesRpc append_x) = Some append_x \<and>
   parseRequestVoteReply (buildRequestVoteReply voted) = Some voted"
  using messages_round_trip [OF examples_ok, of voted "\<lparr>aer_term = 3, aer_success = True\<rparr>" "\<lparr>isr_term = 3\<rparr>"]
  by (simp add: voted_def)

section \<open>The state file\<close>

text \<open>C26: What was saved is what is loaded: after a save to a file that can be written, load returns the
  values that were saved, whatever the file held before; where it cannot be written
  save says so and the file stays as it was.\<close>

theorem load_returns_last_save:
  assumes "saved_ok v"
  shows "storage_load (snd (storage_save v st)) = (if fst (storage_save v st) then Some v else storage_load st) \<and>
    fst (storage_save v st) = st_writable st"
  using state_file.load_save_cases [OF assms, of st] by (simp add: state_file.save_reports)

lemma load_returns_last_save_witness:
  "storage_load (snd (storage_save (persistent_of follower_b) (mk_PersistentStorage ''raft_2'' None True))) =
     Some (persistent_of follower_b)"
  using load_returns_last_save [OF follower_b_saved, of "mk_PersistentStorage ''raft_2'' None True"]
  by (simp add: mk_PersistentStorage_def)

section \<open>Packets\<close>

text \<open>C27: The server takes requests as they were sent, however the network cuts them up, and answers them
  before it closes: when the chunks that arrive at a connection with empty buffers, over any number
  of readable events that are handled before the connection is written to, are the packets of some
  requests put together, each request goes to the handler once and in order, the output holds the
  packets of the answers in that order, the connection waits for writing exactly when there was a
  request, and no other connection is touched. The writable event that takes all of the output then
  closes the connection: what arrives after it is not read.\<close>

theorem server_reassembles_requests:
  assumes "server_ok S" and "sv_conns S fd = Some c" and "tc_input (cn_tc c) = []" and "tc_output (cn_tc c) = []"
    and "\<forall>b \<in> set bs. body_ok b" and "concat (map encodePacket bs) = concat (concat dss)"
    and "answers h bs s = (as, s')"
  shows "\<exists>S' c'. loop_round h (map (read_event fd) dss) (S, s) = Some (S', s') \<and>
    sv_conns S' fd = Some c' \<and> tc_input (cn_tc c') = [] \<and> tc_output (cn_tc c') = concat (map encodePacket as) \<and>
    sv_epoll S' fd = Some (if bs = [] then EPOLLIN else EPOLLIN OR EPOLLOUT) \<and>
    (\<forall>i. i \<noteq> fd \<longrightarrow> sv_conns S' i = sv_conns S i) \<and>
    (\<forall>ns. (\<forall>n \<in> set ns. 0 < n) \<and> length (tc_output (cn_tc c')) \<le> sum_list ns \<longrightarrow>
      (\<exists>S''. serve_event h (write_event fd ns) (S', s') = Some (S'', s') \<and> sv_conns S'' fd = None))"
proof -
  have r: "tc_reads h dss (cn_tc c) s =
      ((cn_tc c)\<lparr>tc_input := [], tc_output := concat (map encodePacket as)\<rparr>, s')"
    using tc_reads_packets [OF assms(5), of "cn_tc c" dss h s as s'] assms(3,4,6,7) by simp
  from loop_reads [OF assms(1,2), of h dss s] obtain S' c' where
    l: "loop_round h (map (read_event fd) dss) (S, s) = Some (S', s')" "server_ok S'"
      "sv_conns S' fd = Some c'" "\<forall>i. i \<noteq> fd \<longrightarrow> sv_conns S' i = sv_conns S i"
    and b: "cn_tc c' = (cn_tc c)\<lparr>tc_input := [], tc_output := concat (map encodePacket as)\<rparr>"
    unfolding r fst_conv snd_conv by blast
  from b have c': "tc_input (cn_tc c') = []" "tc_output (cn_tc c') = concat (map encodePacket as)"
    by simp_all
  have "concat (map encodePacket as) = [] \<longleftrightarrow> bs = []"
    using answers_length [OF assms(7)] encodePacket_nonempty by (cases as; cases bs) auto
  moreover have "sv_epoll S' fd = Some (if tc_output (cn_tc c') = [] then EPOLLIN else EPOLLIN OR EPOLLOUT)"
    using server_conn [OF l(2,3)] by (simp only: conn_ok_def)
  ultimately have "sv_epoll S' fd = Some (if bs = [] then EPOLLIN else EPOLLIN OR EPOLLOUT)"
    by (simp only: c')
  moreover have "\<forall>ns. (\<forall>n \<in> set ns. 0 < n) \<and> length (tc_output (cn_tc c')) \<le> sum_list ns \<longrightarrow>
      (\<exists>S''. serve_event h (write_event fd ns) (S', s') = Some (S'', s') \<and> sv_conns S'' fd = None)"
    by (blast intro: write_event_closes [OF l(2,3)])
  ultimately show ?thesis
    using l by (intro exI [of _ S'] exI [of _ c'] conjI c') assumption+
qed

lemma server_reassembles_requests_witness:
  "\<exists>S c. loop_round (\<lambda>b n. (''r'' @ b, n + 1))
      (map (read_event 5) [[encodePacket ''ab'' @ take 3 (encodePacket ''c'')], [], [drop 3 (encodePacket ''c'')]])
      (one_conn, 0 :: nat) = Some (S, 2) \<and>
    sv_conns S 5 = Some c \<and> tc_output (cn_tc c) = encodePacket ''rab'' @ encodePacket ''rc''"
proof -
  obtain c where c: "sv_conns one_conn 5 = Some c" "cn_tc c = tc_new" using one_conn_ok(3) by blast
  have "\<forall>b \<in> set [''ab'', ''c'']. body_ok b"
    by (simp add: body_ok_def max_body_def)
  moreover have "answers (\<lambda>b n. (''r'' @ b, n + 1)) [''ab'', ''c''] (0 :: nat) = ([''rab'', ''rc''], 2)"
    by simp
  ultimately show ?thesis
    using server_reassembles_requests [OF one_conn_ok(1) c(1), of "[''ab'', ''c'']"
        "[[encodePacket ''ab'' @ take 3 (encodePacket ''c'')], [], [drop 3 (encodePacket ''c'')]]"
        "\<lambda>b n. (''r'' @ b, n + 1)" "0 :: nat" "[''rab'', ''rc'']" 2] c(2)
    by (auto simp: tc_new_def simp del: loop_round.simps)
qed

text \<open>C28: A call and its answer: a client request that reaches a server in any chunks, is handled, and whose
  answer reaches the client in any non-empty chunks gives the client the handler's answer.\<close>

theorem call_returns_answer:
  assumes "body_ok req" and "concat (concat dss) = encodePacket req"
    and "body_ok (fst (h req s))"
    and "concat es = tc_output (fst (tc_reads h dss tc_new s))" and "\<forall>e \<in> set es. e \<noteq> []"
    and "sum_list ks \<ge> length (encodePacket req)" and "\<forall>k \<in> set ks. 0 < k"
  shows "sendMessage True True True (map Sent ks) (map Received es) req = Some (fst (h req s))"
proof -
  have "answers h [req] s = ([fst (h req s)], snd (h req s))"
    by (simp split: prod.split)
  from tc_reads_packets [of "[req]" tc_new dss, OF _ _ _ this] assms(1,2)
  have "concat es = encodePacket (fst (h req s))"
    by (simp add: tc_new_def assms(4))
  then show ?thesis
    using recvResponse_chunks_aux [OF assms(3) _ assms(5)] writeN_total [OF assms(7,6)]
    by (simp add: sendMessage_def)
qed

lemma call_returns_answer_witness:
  "sendMessage True True True [Sent 2, Sent 100] [Received (encodePacket ''OK'')] ''CDEL k'' = Some ''OK''"
proof -
  have b: "body_ok ''CDEL k''" "body_ok ''OK''"
    by (simp_all add: body_ok_def max_body_def)
  have l: "length (encodePacket ''CDEL k'') = 10"
    by (simp add: encodePacket_def)
  have o1: "encodePacket ''OK'' =
      tc_output (fst (tc_reads (\<lambda>b (n :: nat). (''OK'', n)) [[encodePacket ''CDEL k'']] tc_new 0))"
    using tc_reads_packets [of "[''CDEL k'']" tc_new "[[encodePacket ''CDEL k'']]" "\<lambda>b (n :: nat). (''OK'', n)" 0 "[''OK'']" 0] b
    by (simp add: tc_new_def del: tc_reads.simps)
  show ?thesis
    using call_returns_answer [of "''CDEL k''" "[[encodePacket ''CDEL k'']]" "\<lambda>b (n :: nat). (''OK'', n)" 0
        "[encodePacket ''OK'']" "[2, 100]"] b l
    by (simp add: o1 [symmetric] pkt.enc_nonempty del: tc_reads.simps)
qed

text \<open>A length of 0 or above 64 MiB blocks a connection: the bytes stay in the buffer, no later byte makes
  a packet complete, and the connection stays open without an answer.\<close>

lemma bad_length_blocks_connection:
  assumes "4 \<le> length (tc_input c)"
    and "unat (from_be32 (take 4 (tc_input c))) = 0 \<or> max_body < unat (from_be32 (take 4 (tc_input c)))"
  shows "tc_handleRead h (map Received ds) c s = (c\<lparr>tc_input := tc_input c @ concat ds\<rparr>, s)"
  using tryDecodePacket_stuck [OF assms, of "concat ds"]
  by (simp add: tc_handleRead_def buf_readFd_received tc_serve.simps)

lemma bad_length_example:
  "tc_handleRead (\<lambda>b (n :: nat). (b, n)) [Received ''abc''] (tc_new\<lparr>tc_input := be32 0\<rparr>) 7 =
     (tc_new\<lparr>tc_input := be32 0 @ ''abc''\<rparr>, 7)"
  using bad_length_blocks_connection [of "tc_new\<lparr>tc_input := be32 0\<rparr>" "\<lambda>b (n :: nat). (b, n)" "[''abc'']" 7]
  by (simp add: be32_roundtrip)

section \<open>Requests\<close>

text \<open>C29: The client's requests reach the operation they mean: the texts the client library builds for put,
  get and del are dispatched by \<open>handleRpcText\<close> to the put, get and delete of the same key and value.\<close>

theorem client_requests_dispatched:
  assumes "tokenp key" and "tokenp val"
  shows "handleRpcText L E (put_request key val) w = handleClientPut L E key val w \<and>
    handleRpcText L E (''CGET '' @ key) w = handleClientGet L E key w \<and>
    handleRpcText L E (''CDEL '' @ key) w = handleClientDelete L E key w"
  using command_dispatch [OF assms(1)] assms(2) by blast

lemma client_requests_dispatched_witness:
  "handleRpcText mem_leveldb silent ''CGET k'' (leader_a, ()) = handleClientGet mem_leveldb silent ''k'' (leader_a, ())"
proof -
  have "tokenp ''k''" by (simp add: tokenp_def isspace_def)
  then show ?thesis
    using client_requests_dispatched [of "''k''" "''k''" mem_leveldb silent "(leader_a, ())"] by simp
qed

text \<open>C24: A vote asked for over the wire is the vote of the handler: the text of a RequestVote goes to
  \<open>handleRequestVote\<close> under the mutex, and the text that comes back parses to its reply; the same
  holds for AppendEntries and InstallSnapshot.\<close>

theorem handlers_over_the_wire:
  assumes "rv_ok a" and "ae_ok b" and "sn_ok c"
    and "int_ok (currentTerm (fst (acquire E w)))"
  shows "map_option (parseRequestVoteReply \<circ> fst) (handleRpcText L E (buildRequestVoteRpc a) w) =
      Some (Some (fst (handleRequestVote a (fst (acquire E w))))) \<and>
    map_option (parseAppendEntriesReply \<circ> fst) (handleRpcText L E (buildAppendEntriesRpc b) w) =
      Some (Some (fst (handleAppendEntries L b (fst (acquire E w))))) \<and>
    map_option (parseInstallSnapshotReply \<circ> fst) (handleRpcText L E (buildInstallSnapshotRpc c) w) =
      Some (Some (fst (handleInstallSnapshot L c (fst (acquire E w)))))"
proof -
  let ?s = "fst (acquire E w)"
  have "int_ok (rvr_term (fst (handleRequestVote a ?s)))"
    using assms(1,4) by (auto simp: handleRequestVote_def Let_def rv_ok_def frame effect)
  moreover have "int_ok (aer_term (fst (handleAppendEntries L b ?s)))"
    using assms(2,4) handleAppendEntries_rejected [of b ?s L] handleAppendEntries_stale [of b ?s L]
      handleAppendEntries_mismatch [of b ?s L] handleAppendEntries_matched [of b ?s L]
    by (cases b ?s rule: handleAppendEntries_cases) (auto simp: ae_ok_def)
  moreover have "int_ok (isr_term (fst (handleInstallSnapshot L c ?s)))"
    using assms(3,4) handleInstallSnapshot_rejected [of c ?s L] handleInstallSnapshot_old [of ?s c L]
      handleInstallSnapshot_new [of ?s c L]
    by (cases "sn_term c < currentTerm ?s"; cases "sn_lastIncludedIndex c \<le> lastIncludedIndex ?s")
      (auto simp: sn_ok_def)
  ultimately show ?thesis
    using RequestVoteReply_roundtrip AppendEntriesReply_roundtrip InstallSnapshotReply_roundtrip
    by (simp add: node_message_dispatch(1) [OF assms(1)] node_message_dispatch(2) [OF assms(2)]
        node_message_dispatch(3) [OF assms(3)])
      (simp add: rpc_vote_def rpc_append_def rpc_snapshot_def locked_def case_prod_beta)
qed

lemma handlers_over_the_wire_witness:
  "map_option (parseRequestVoteReply \<circ> fst)
     (handleRpcText mem_leveldb silent (buildRequestVoteRpc vote_request) (fresh_b, ())) =
   Some (Some \<lparr>rvr_term = 1, rvr_voteGranted = True\<rparr>)"
proof -
  have "currentTerm fresh_b = 0" "fst (handleRequestVote vote_request fresh_b) = \<lparr>rvr_term = 1, rvr_voteGranted = True\<rparr>"
    by code_simp+
  moreover have "acquire silent w = w" for w by (simp add: silent_def)
  ultimately show ?thesis
    using handlers_over_the_wire [OF examples_ok, of silent "(fresh_b, ())" mem_leveldb] by simp
qed

section \<open>The client\<close>

text \<open>C31: The cluster file is read as it is meant: with one member a line, \<open>id ip port\<close>, between comments and
  empty lines, the program starts from exactly these members, in the order of the lines.\<close>

theorem cluster_file_is_read:
  assumes "\<forall>l \<in> set ls. CHR 0x0A \<notin> set l" and "filter node_line ls = map show_peer ns"
    and "\<forall>n \<in> set ns. peer_ok n"
  shows "loadClusterConfig (Some (file_of ls)) = Some ns"
  using assms by (rule load_members)

lemma cluster_file_is_read_witness:
  "loadClusterConfig (Some (file_of trio_file)) = Some trio"
  by (rule cluster_file_is_read [OF trio_file_lines]) (simp add: trio_def trio_peers_ok)

text \<open>C32: Every node of a cluster starts with the members of the cluster file: when its ids are distinct, a node
  that \<open>main\<close> starts from it has, whatever its state file holds, all the members in its configuration,
  each once, is not its own peer, and starts as a running follower in the stable configuration. (The
  README calls the file an address book and not the source of the configuration.)\<close>

theorem started_node_knows_cluster:
  assumes "node_main L args config saved writable now r = Some s"
    and "loadClusterConfig config = Some C" and "distinct (map pi_id C)"
  shows "nid s \<in> pi_id ` set C \<and> mset (map pi_id (cfg_nodes (currentConfig s))) = mset (map pi_id C) \<and>
    nid s \<notin> pi_id ` set (peers s) \<and> configState s = STABLE \<and> nstate s = FOLLOWER \<and> running s"
proof -
  obtain self where self: "findSelfNode C (args ! 0) (c_atoi (args ! 1)) = Some self"
    and s: "s = raft_start ((if list_ex (\<lambda>a. a = ''--learner'') (drop 2 args) then setVotingMember False else id)
      (setPeers (buildPeers C (pi_id self)) (setSelfAddress (args ! 0) (c_atoi (args ! 1))
        (RaftNode_new L (pi_id self) (saved (pi_id self)) writable now r))))"
    using assms(1,2) by (cases "findSelfNode C (args ! 0) (c_atoi (args ! 1))")
      (auto simp: node_main_def Let_def simp del: nth_Cons_0 split: if_splits)
  have mem: "self \<in> set C"
    using self by (auto simp: findSelfNode_def find_Some_iff)
  have n: "nid (RaftNode_new L i f w now r) = i" "configState (RaftNode_new L i f w now r) = STABLE"
    "nstate (RaftNode_new L i f w now r) = FOLLOWER" for i f w
    by (simp_all add: RaftNode_new_def loadPersistentState_def split: option.split)
  show ?thesis
    using mem buildPeers_ids [OF assms(3) mem] n
    by (auto simp: s raft_start_def setPeers_def setSelfAddress_def setVotingMember_def frame buildPeers_def
        resetElectionTimer_def)
qed

lemma started_node_knows_cluster_witness:
  "let s = the (node_main mem_leveldb [''10.0.0.2'', ''9002''] (Some (file_of trio_file)) (\<lambda>i. None) True 0 0)
   in nid s = 2 \<and> mset (map pi_id (cfg_nodes (currentConfig s))) = {#1, 2, 3#} \<and> 2 \<notin> pi_id ` set (peers s)"
proof -
  have f: "loadClusterConfig (Some (file_of trio_file)) = Some trio"
    by (rule load_members [OF trio_file_lines]) (simp add: trio_def trio_peers_ok)
  have p: "c_atoi ''9002'' = 9002"
    by (simp add: c_atoi_def scan_number_def is_digit_def digits_val_def digit_val_def isspace_def)
  have "findSelfNode trio ''10.0.0.2'' 9002 = Some peer_b"
    by code_simp
  from node_main_boot [OF _ f, of "[''10.0.0.2'', ''9002'']" peer_b mem_leveldb "\<lambda>i. None" 0 0] this
  have s: "node_main mem_leveldb [''10.0.0.2'', ''9002''] (Some (file_of trio_file)) (\<lambda>i. None) True 0 0 =
      Some (boot mem_leveldb trio peer_b None 0 0)"
    by (simp add: p)
  have "distinct (map pi_id trio)" by code_simp
  moreover have "mset (map pi_id trio) = {#1, 2, 3#}" "pi_id peer_b = 2"
    by (simp_all add: trio_def peer_a_def peer_b_def peer_c_def)
  ultimately show ?thesis
    using started_node_knows_cluster [OF s f] by (simp add: Let_def s boot_fields(1) del: mset_map)
qed

text \<open>C30: The client asks the servers in turn, from the one that answered last: \<open>put\<close> asks each server of the
  cluster file at most once, in the order of the file from the leader hint on and around the end,
  ends at the first \<open>OK\<close>, remembers that server as the hint, and returns false when none says so.\<close>

theorem client_asks_in_turn:
  assumes "clerk_ok c" and "c1 = snd (reloadServersFromConfig E c w)"
  shows "case ask_in_order E (put_request key val) decide_OK (rotate (nat (ck_leaderHint c1)) (ck_servers c1)) w of
      (None, w1) \<Rightarrow> fst (clerk_put E key val c w) = False \<and> snd (snd (clerk_put E key val c w)) = w1
    | (Some (p, b), w1) \<Rightarrow> (\<exists>c'. clerk_put E key val c w = (True, c', w1) \<and> b \<and>
        ck_servers c' ! nat (ck_leaderHint c') = p)"
proof (cases "clerk_ask E (put_request key val) decide_OK c w")
  case (fields r c' w1)
  note o = clerk_ask_order [OF assms(1), of E "put_request key val" decide_OK w, folded assms(2)]
  have b: "decide_OK resp = Some d \<Longrightarrow> d" for resp d
    by (simp add: decide_OK_def split: if_splits)
  show ?thesis
  proof (cases r)
    case None
    with o fields show ?thesis by (simp add: clerk_put_def)
  next
    case (Some d)
    with o fields ask_in_order_Some [of E "put_request key val" decide_OK _ w _ d w1] b have d
      by fastforce
    with o fields Some show ?thesis by (simp add: clerk_put_def)
  qed
qed

lemma client_asks_in_turn_witness:
  "let r = clerk_put only_c_answers ''k'' ''v'' (Clerk_new only_c_answers ''cluster.conf'' 0) 0
   in fst r \<and> snd (snd r) = 3 \<and> ck_servers (fst (snd r)) ! nat (ck_leaderHint (fst (snd r))) = peer_c"
proof -
  let ?c = "Clerk_new only_c_answers ''cluster.conf'' 0"
  let ?c1 = "\<lparr>ck_configPath = ''cluster.conf'', ck_servers = trio, ck_leaderHint = 0\<rparr>"
  have f: "loadClusterConfig (Some (file_of trio_file)) = Some trio"
    by (rule load_members [OF trio_file_lines]) (simp add: trio_def trio_peers_ok)
  have c: "?c = ?c1" "?c1 = snd (reloadServersFromConfig only_c_answers ?c1 0)"
    by (simp_all add: Clerk_new_def reloadServersFromConfig_def only_c_answers_def f trio_def)
  have "ask_in_order only_c_answers (put_request ''k'' ''v'') decide_OK (rotate 0 trio) 0 = (Some (peer_c, True), 3)"
    by (simp add: trio_def peer_a_def peer_b_def peer_c_def decide_OK_def only_c_answers_def)
  with client_asks_in_turn [OF Clerk_new_ok_aux [of only_c_answers "''cluster.conf''" 0, unfolded c(1)] c(2), of "''k''" "''v''"]
  show ?thesis
    by (auto simp: Let_def c(1))
qed

section \<open>The event loop\<close>

text \<open>C33: The registry of the server stays consistent: whatever event the loop handles, where the handling has
  a defined result, every connection in the map is open and in the interest list with the events of
  its channel, it waits for writing exactly when its output is not empty, and the list holds nothing
  else but the acceptor.\<close>

theorem events_keep_registry:
  assumes "server_ok S" and "fresh_accepts (io_accept k) S"
    and "serve_event h (k, revents, fd) (S, s) = Some (S', s')"
  shows "server_ok S'"
proof (cases "fd = sv_listenFd S")
  case True
  with assms show ?thesis
    by (auto simp: serve_event_def handleAccept_ok split: if_splits)
next
  case False
  with assms(3) have e: "handleEvent h k revents fd S s = Some (S', s')"
    by (simp add: serve_event_def)
  then obtain c where "sv_conns S fd = Some c"
    by (auto simp: handleEvent_def split: option.splits)
  from handleEvent_undefined_aux(2) [OF assms(1) this e] show ?thesis .
qed

lemma events_keep_registry_witness:
  "server_ok (fst (the (serve_event (\<lambda>b n. (b, n + 1)) (\<lparr>io_accept = [], io_recv = [Received (encodePacket ''a'')], io_send = []\<rparr>, 1, 5) (one_conn, 0 :: nat))))"
proof -
  let ?k = "\<lparr>io_accept = [], io_recv = [Received (encodePacket ''a'')], io_send = []\<rparr>"
  obtain c where c: "sv_conns one_conn 5 = Some c" "cn_tc c = tc_new" using one_conn_ok(3) by blast
  have "handleEvent (\<lambda>b n. (b, n + 1)) ?k 1 5 one_conn (0 :: nat) \<noteq> None"
    using handleEvent_undefined_aux(1) [OF one_conn_ok(1) c(1), of "\<lambda>b n. (b, n + 1)" ?k 1 "0 :: nat"] by simp
  then obtain S s where "serve_event (\<lambda>b n. (b, n + 1)) (?k, 1, 5) (one_conn, 0 :: nat) = Some (S, s)"
    using one_conn_ok(2) by (auto simp: serve_event_def)
  with events_keep_registry [OF one_conn_ok(1) _ this] show ?thesis by simp
qed

text \<open>C34: Handling an event uses a destroyed object exactly when the read callback closes the connection, that
  is when the event says readable and neither error nor hang-up, and \<open>recv\<close> then finds the end of
  the stream or an error: \<open>handleEvent\<close> goes on to read \<open>revents_\<close> of the channel that is gone.\<close>

theorem closing_read_uses_destroyed_channel:
  assumes "server_ok S" and "sv_conns S fd = Some c"
  shows "handleEvent h k revents fd S s = None \<longleftrightarrow>
    revents AND (EPOLLHUP OR EPOLLERR) = 0 \<and> revents AND EPOLLIN \<noteq> 0 \<and>
    \<not> fst (buf_readFd (io_recv k) (tc_input (cn_tc c)))"
  using assms by (rule handleEvent_undefined_aux(1))

lemma closing_read_uses_destroyed_channel_witness:
  "handleEvent (\<lambda>b n. (b, n + 1)) \<lparr>io_accept = [], io_recv = [PeerClosed], io_send = []\<rparr> 1 5 one_conn (0 :: nat) = None"
proof -
  obtain c where c: "sv_conns one_conn 5 = Some c" "cn_tc c = tc_new" using one_conn_ok(3) by blast
  show ?thesis
    using closing_read_uses_destroyed_channel [OF one_conn_ok(1) c(1), of "\<lambda>b n. (b, n + 1)"
        "\<lparr>io_accept = [], io_recv = [PeerClosed], io_send = []\<rparr>" 1 "0 :: nat"]
    by (simp add: EPOLLHUP_def EPOLLERR_def EPOLLIN_def)
qed

end
