(* ===== verification/Console.thy ===== *)
theory Console
  imports Client Reactor
begin

text \<open>
  What a node writes to its console when it is asked: the state and the log
  (\<open>RaftNode::printStatus\<close>, \<open>printLogs\<close>), a configuration (\<open>printConfig\<close>), the database
  (\<open>KVStore::printAll\<close>), and the command loop at the end of \<open>main\<close> of \<open>node_main.cpp\<close>. Output is
  the text written.
\<close>

section \<open>Reports\<close>

definition endl :: string where
  "endl = [CHR 0x0A]"

fun nodeStateToString :: "NodeState \<Rightarrow> string" where
  "nodeStateToString FOLLOWER = ''FOLLOWER''"
| "nodeStateToString CANDIDATE = ''CANDIDATE''"
| "nodeStateToString LEADER = ''LEADER''"

text \<open>The loops over \<open>nextIndex_\<close> and \<open>matchIndex_\<close>: each number with a space after it.\<close>

definition show_ints :: "int list \<Rightarrow> string" where
  "show_ints xs = concat (map (\<lambda>x. show_int x @ '' '') xs)"

definition printStatus :: "'db node \<Rightarrow> string" where
  "printStatus s =
     ''Node '' @ show_int (nid s) @ '' | state='' @ nodeStateToString (nstate s) @
     '' | term='' @ show_int (currentTerm s) @ '' | votedFor='' @ show_int (votedFor s) @
     '' | leaderId='' @ show_int (leaderId s) @ '' | commitIndex='' @ show_int (commitIndex s) @
     '' | lastApplied='' @ show_int (lastApplied s) @
     '' | lastIncludedIndex='' @ show_int (lastIncludedIndex s) @
     '' | lastIncludedTerm='' @ show_int (lastIncludedTerm s) @
     '' | logs='' @ show_nat (length (logs s)) @ endl @
     (if nstate s = LEADER
      then ''  nextIndex: '' @ show_ints (nextIndex s) @ endl @
           ''  matchIndex: '' @ show_ints (matchIndex s) @ endl
      else [])"

definition log_line :: "LogEntry \<Rightarrow> string" where
  "log_line e =
     ''[index='' @ show_int (le_index e) @ '', term='' @ show_int (le_term e) @
     '', op='' @ show_int (int_of_op (le_op e)) @ '', key='' @ le_key e @
     '', value='' @ le_value e @ '']'' @ endl"

definition printLogs :: "'db node \<Rightarrow> string" where
  "printLogs s =
     ''---- Node '' @ show_int (nid s) @ '' logs ----'' @ endl @
     ''snapshot: lastIncludedIndex='' @ show_int (lastIncludedIndex s) @
     '', lastIncludedTerm='' @ show_int (lastIncludedTerm s) @ endl @
     (if logs s = [] then ''(empty)'' @ endl else concat (map log_line (logs s)))"

definition printConfig :: "string \<Rightarrow> PeerInfo list \<Rightarrow> string" where
  "printConfig name nodes =
     name @ ''={'' @
     concat (map (\<lambda>n. show_int (pi_id n) @ ''('' @ pi_ip n @ '':'' @ show_int (pi_port n) @ '') '') nodes) @
     ''}''"

text \<open>The iterator visits the entries in their order; its status afterwards is reported on \<open>std::cerr\<close>.\<close>

definition printAll :: "'db leveldb \<Rightarrow> 'db KVStore \<Rightarrow> string" where
  "printAll L s =
     (case kv_db s of
        None \<Rightarrow> ''[KVStore] db not open'' @ endl
      | Some db \<Rightarrow> ''===== LevelDB KVStore ====='' @ endl @
          concat (map (\<lambda>(k, v). k @ '' => '' @ v @ endl) (ldb_Entries L db)))"

section \<open>The command loop\<close>

definition console_command :: "'db node \<Rightarrow> string \<Rightarrow> string" where
  "console_command s cmd =
     (if cmd = ''status'' then printStatus s
      else if cmd = ''logs'' then printLogs s
      else ''Unknown command: '' @ cmd @ endl)"

text \<open>
  The other threads of the node run meanwhile: \<open>at k\<close> is the node when the \<open>k\<close>-th command takes
  the mutex. The loop ends with standard input; the result is the output per command, and \<open>k\<close>.
\<close>

function console_loop :: "(nat \<Rightarrow> 'db node) \<Rightarrow> nat \<Rightarrow> string \<Rightarrow> istream \<Rightarrow> string list \<times> nat" where
  "console_loop at k cmd s =
     (case read_string cmd s of (cmd', s') \<Rightarrow>
        if is_fail s' then ([], k)
        else case console_loop at (Suc k) cmd' s' of
               (outs, m) \<Rightarrow> (console_command (at k) cmd' # outs, m))"
  by pat_completeness auto
termination
  by (relation "measure (\<lambda>(at, k, cmd, s). length (is_rest s))") (auto split: prod.splits intro: read_string_shrinks)

declare console_loop.simps [simp del]

text \<open>\<open>main\<close> after the start: the loop, then \<open>node.stop()\<close> and \<open>server.stop()\<close>.\<close>

definition node_console ::
  "(nat \<Rightarrow> 'db node) \<Rightarrow> server \<Rightarrow> istream \<Rightarrow> string \<times> 'db node \<times> server" where
  "node_console at S s =
     (case console_loop at 0 [] s of (outs, k) \<Rightarrow>
        (''Commands:'' @ endl @ ''  status'' @ endl @ ''  logs'' @ endl @ concat outs,
         raft_stop (at k), server_stop S))"

section \<open>What the loop does\<close>

text \<open>
  Every word of the input is one command, answered from the node of its moment; then the loop ends.
\<close>

lemma console_loop_words:
  "list_all tokenp ws \<Longrightarrow>
   console_loop at k cmd (stream_after (concat (map (\<lambda>w. CHR '' '' # w) ws))) =
     (map (\<lambda>i. console_command (at (k + i)) (ws ! i)) [0..<length ws], k + length ws)"
proof (induction ws arbitrary: k cmd)
  case Nil
  then show ?case
    by (subst console_loop.simps) (simp add: read_string_def stream_sentry_def stream_after_def)
next
  case (Cons w ws)
  let ?r = "concat (map (\<lambda>w. CHR '' '' # w) ws)"
  have d: "delimited ?r"
    by (cases ws) (simp_all add: delimited_def isspace_def)
  have "stream_after (CHR '' '' # w @ ?r) = stream_at (CHR '' '' # w @ ?r)"
    by (simp add: stream_after_def stream_at_def)
  with Cons.prems d have "read_string cmd (stream_after (CHR '' '' # w @ ?r)) = (w, stream_after ?r)"
    by (simp add: read_sep isspace_def)
  then have "console_loop at k cmd (stream_after (CHR '' '' # w @ ?r)) =
      (console_command (at k) w # map (\<lambda>i. console_command (at (Suc k + i)) (ws ! i)) [0..<length ws],
       Suc k + length ws)"
    using Cons.IH [of "Suc k" w] Cons.prems
    by (subst console_loop.simps) (simp add: stream_after_def)
  moreover have "[0..<length (w # ws)] = 0 # map Suc [0..<length ws]"
    by (simp add: upt_conv_Cons map_Suc_upt del: upt_Suc)
  ultimately show ?case
    by (simp add: comp_def del: upt_Suc)
qed

end
