(* ===== verification/Spec2Isabelle.thy ===== *)
theory Spec2Isabelle
  imports Node_Properties Leader_Properties Io_Properties Console
begin

text \<open>
  The verification of a replicated key-value store: Raft over TCP with LevelDB as the state
  machine, a C++ program under \<open>src/src\<close>.

  \<^bold>\<open>The program.\<close> A node (\<open>node_main.cpp\<close>) reads the cluster file, makes a \<open>RaftNode\<close>
  (\<open>raftCore/raft_node.cpp\<close>) with its \<open>PersistentStorage\<close> (\<open>persistence/storage.cpp\<close>) and its
  \<open>KVStore\<close> (\<open>stateMachine/kv_store.cpp\<close>), and serves requests through an epoll event loop
  (\<open>rpc/\<close>): a \<open>TcpConnection\<close> cuts the byte stream into packets and gives each body, a line of
  text, to \<open>RaftNode::handleRpcText\<close>, whose answer goes back in a packet. Nodes talk to each
  other with the same texts. Two background loops start elections and send heartbeats. The client
  library (\<open>client/clerk.cpp\<close>, under \<open>client_main.cpp\<close>) asks the servers of the cluster file in
  turn until one answers as the leader.

  \<^bold>\<open>The theories\<close>, in the order in which they build on each other:

  \<^item> \<open>Prelude\<close>: ranges of the integer types, the collections \<open>stream_simps\<close>, \<open>frame\<close> and
    \<open>effect\<close>, facts on lists.
  \<^item> \<open>Text_Streams\<close>: \<open>std::istream\<close> extraction, \<open>std::getline\<close> and decimal output on strings; the
    locale \<open>stream_codec\<close> is the contract of a writer and a reader.
  \<^item> \<open>Raft_Types\<close> (\<open>common/types.h\<close>) and \<open>Wire\<close> (the \<open>build\<close> and \<open>parse\<close> functions of
    \<open>raft_node.cpp\<close>): every message and its text, as interpretations of \<open>stream_codec\<close>.
  \<^item> \<open>Storage\<close>: \<open>save\<close> and \<open>load\<close> of the state file; the locale \<open>stable_store\<close>.
  \<^item> \<open>KV_Store\<close>: the state machine over a LevelDB that is a record of calls; the locales
    \<open>leveldb_api\<close>, \<open>healthy_leveldb\<close> and \<open>state_machine\<close>.
  \<^item> \<open>Raft_State\<close>: the record \<open>node\<close>, one field per data member of \<open>RaftNode\<close>, and the private
    operations every handler is made of. \<open>Raft_Log\<close>: the invariants \<open>log_wf\<close>, \<open>idx_wf\<close>, \<open>node_inv\<close> and
    what persistence, compaction and the apply loop do to the log and the database.
  \<^item> \<open>Raft_Quorum\<close>: majorities, by votes and by \<open>matchIndex\<close>, in a stable and a joint configuration;
    the locale \<open>quorum_system\<close>.
  \<^item> \<open>Raft_Handlers\<close> and \<open>Handler_Facts\<close>: RequestVote, AppendEntries, InstallSnapshot; what each does
    on every branch, that each keeps the invariant and leaves the state file current.
  \<^item> \<open>Raft_Leader\<close>, \<open>Raft_Server\<close> and \<open>Leader_Facts\<close>: replication, snapshots, the commit index,
    writes, read-index reads, elections, the background loops, membership changes and the
    dispatcher \<open>handleRpcText\<close>; commitment by quorum, and that every operation returns.
  \<^item> \<open>Restart\<close> and \<open>Undisturbed\<close>: a node after a crash; a leader no other thread interferes with, a
    change that removes the leader, and terms that do not go back.
  \<^item> \<open>Election\<close>, \<open>Cluster\<close>, \<open>Cluster_Safety\<close>: the abstract election protocol \<open>estep\<close>, the cluster
    of nodes over an unreliable network as the step relation \<open>cstep\<close>, and the simulation.
    \<open>Entries\<close>: every entry in a log, a message or a state file was made once, by the leader of its
    term. \<open>Log_Matching\<close>: logs as chains of links from a term to the one before, for runs in which
    messages have no gap and snapshots fit (\<open>orderly\<close>).
  \<^item> \<open>Packet\<close>: buffers, packets and the two ends of a connection, with the locale \<open>framing\<close>;
    \<open>Reactor\<close>: \<open>Channel\<close>, \<open>EventLoop\<close>, \<open>TcpServer\<close> and who owns whom.
  \<^item> \<open>Client\<close>: the client library, its command loop, and the start of a node.
  \<^item> \<open>Console\<close>: what the node prints about itself, and the console of its \<open>main\<close>.
  \<^item> \<open>Examples\<close>: concrete nodes and clusters, made by running the operations of the model.
  \<^item> \<open>Node_Properties\<close>, \<open>Leader_Properties\<close>, \<open>Io_Properties\<close> and this theory: the properties, each
    with an instance in which its hypotheses hold.

  \<^bold>\<open>State.\<close> A function of the program that runs under the node's mutex is a function from the node
  before to the node after (\<open>handleAppendEntries\<close>, \<open>updateCommitIndex\<close>, \<open>createSnapshot\<close>). A
  function that gives the mutex away to send a message runs in a world \<open>(node, w)\<close>: its locked
  parts are functions of their own (\<open>rtp_check\<close>, \<open>rtp_prepare\<close> and \<open>rtp_finish\<close> for
  \<open>replicateToPeer\<close>), and between them the environment \<open>E\<close> acts, which holds what the network
  answers (\<open>sendRpc\<close>) and what the other threads of the node do before the mutex is taken again
  (\<open>acquire\<close>). A vector access out of range, or the use of a destroyed object, is undefined in C++:
  the operation then has no result, \<open>None\<close>. The state file is part of the storage record and the
  database part of the store record, so a crash is the loss of everything else (\<open>restarted\<close>).

  \<^bold>\<open>What the properties show.\<close> This theory: at most one leader per term in every reachable state of a
  cluster with crashes and an arbitrary network, by a simulation of the abstract protocol; a term and
  an index identify an entry; logs match, in orderly runs. The cluster's steps are the locked parts of
  the operations, with the messages as records (\<open>Io_Properties\<close> shows that their texts read back),
  each step atomic with its save, on a disk that can always be written.
  \<open>Node_Properties\<close>: what the handlers promise, that committed entries are kept and applied once,
  that a reply is on disk before it is sent, that a restart, a compaction and a snapshot are
  invisible to a reader. \<open>Leader_Properties\<close>: the commit index moves by quorum, an accepted
  message makes the follower's log the leader's, a read is confirmed by a majority, every request
  is answered. \<open>Io_Properties\<close>: messages, the state file, packets and the cluster file read back as
  they were written, requests of the client reach the operation they mean, the registry of
  connections stays consistent. In each of them the last properties are the cases in which the
  code falls short: a follower counted as a copy although its snapshot covers \<open>prevLogIndex\<close> and it
  appended nothing (the lemma \<open>commit_without_majority\<close> is a run in which this commits an entry that one
  node has), an old snapshot that takes the database back, replies taken under a stale index, a
  leader that cannot remove itself, a cluster of one that has no leader, a channel used after its
  destruction. The lemma \<open>ok_for_lost_write\<close> is a run in which a lost write is reported as done. Because
  of the first of them the cluster does not have the state-machine safety of Raft, and what is
  proved of committed entries is proved per node and message.

  \<^bold>\<open>Parameters\<close>, code that is not under \<open>src\<close>: LevelDB (its \<open>Put\<close>, \<open>Delete\<close>, \<open>Get\<close>, iterator and batch, with
  the documented behaviour as the laws of \<open>leveldb_api\<close>; \<open>mem_leveldb\<close> in \<open>KV_Store\<close> is an
  instance), the kernel (results of \<open>epoll_wait\<close>, \<open>accept\<close>, \<open>recv\<close>, \<open>send\<close>), the clock and
  \<open>std::rand()\<close> (fields of the node), the file system (contents of a file, whether it opens).

  \<^bold>\<open>Bounds.\<close> Integers of the protocol are \<open>int\<close>; where text is read the ranges of \<open>int\<close> and
  \<open>size_t\<close> are checked as the stream library does, and the round trips ask for values in range.
  That a term or an index overflows \<open>int\<close> at run time is not modelled. The
  two waits run until their deadline: \<open>wat_loop\<close> looks every 10 ms for 1000 ms, \<open>wcs_loop\<close> every
  20 ms for 3000 ms, and both end by the measure of the time left. \<open>replicateFrom\<close>, the loop over the
  peers, reads its bound again in every round, so nothing in it ends it against threads that add
  peers, and it is a partial function; under threads that keep the number of peers it returns. A packet
  is at most 64 MiB; a length of zero or above that is left in the buffer for ever, as in the code. No
  other definition has fuel.

  \<^bold>\<open>Not modelled.\<close> Data races on the few members that are read without the mutex; the creation and the
  joining of threads; diagnostic lines on \<open>std::cerr\<close> and log lines on \<open>std::cout\<close> in the middle of an operation;
  the non-blocking flag of \<open>rpc/util.h\<close>; destructors other than those of connections and channels.
  The cluster of \<open>Cluster\<close> has a fixed membership: membership changes are modelled and
  proved on the node, but are no step of \<open>cstep\<close>.
\<close>

section \<open>The cluster\<close>

text \<open>C1: Election safety: in every state that a cluster of a fixed configuration reaches from its first
  start, through elections, votes, replication, snapshots, client writes, lost, repeated and
  reordered messages, crashes and restarts from the state files, no two nodes lead in one term.\<close>

theorem election_safety:
  assumes "config_valid C" and "cluster_init C L c0" and "(cstep C L)\<^sup>*\<^sup>* c0 c"
    and "i \<in> ids_of C" and "j \<in> ids_of C"
    and "nstate (cl_node c i) = LEADER" and "nstate (cl_node c j) = LEADER"
    and "currentTerm (cl_node c i) = currentTerm (cl_node c j)"
  shows "i = j"
  using assms by (rule one_leader_per_term)

lemma election_safety_witness:
  "nstate (cl_node elected_cluster 1) = LEADER \<and>
   \<not> (nstate (cl_node elected_cluster 2) = LEADER \<and> currentTerm (cl_node elected_cluster 2) = 1) \<and>
   \<not> (nstate (cl_node elected_cluster 3) = LEADER \<and> currentTerm (cl_node elected_cluster 3) = 1)"
proof -
  have l: "nstate (cl_node elected_cluster 1) = LEADER" "currentTerm (cl_node elected_cluster 1) = 1"
    unfolding elected_cluster_def by (simp, code_simp)+
  have i: "1 \<in> ids_of trio" "2 \<in> ids_of trio" "3 \<in> ids_of trio" by (simp_all add: trio_valid(2))
  show ?thesis
    using election_safety [OF trio_valid(1,3) trio_elects i(1) i(2) l(1)]
      election_safety [OF trio_valid(1,3) trio_elects i(1) i(3) l(1)] l by auto
qed

text \<open>C2: The cluster refines the abstract election protocol: every step of the nodes, projected to terms,
  votes and roles, is a step of \<open>estep\<close> (campaign, grant, adopt a term, defer to a winner, win,
  restart) or leaves the abstract state as it is.\<close>

theorem cluster_refines_election:
  assumes "config_valid C" and "cluster_init C L c0" and "(cstep C L)\<^sup>*\<^sup>* c0 c"
  shows "(estep (cluster_decides C))\<^sup>*\<^sup>* (abs_cluster C c0) (abs_cluster C c)"
  using assms by (rule cluster_refines_aux)

lemma cluster_refines_election_witness:
  "(estep (cluster_decides trio))\<^sup>*\<^sup>* (abs_cluster trio quiet_cluster) (abs_cluster trio elected_cluster) \<and>
   es_won (abs_cluster trio elected_cluster) = {(1, 1)}"
  using cluster_refines_election [OF trio_valid(1,3) trio_elects] by (simp add: elected_cluster_def)

text \<open>C3: A leader was elected: in every reachable state a node that leads got, in its term, the votes of a
  majority of the cluster, and each of these voters has since stayed in that term or a later one,
  crashes included.\<close>

theorem leader_has_majority:
  assumes "config_valid C" and "cluster_init C L c0" and "(cstep C L)\<^sup>*\<^sup>* c0 c"
    and "i \<in> ids_of C" and "nstate (cl_node c i) = LEADER"
  shows "\<exists>G. majority \<lparr>cfg_nodes = C\<rparr> G \<and>
    (\<forall>g \<in> G. (g, currentTerm (cl_node c i), i) \<in> cl_votes c \<and>
      (g \<in> ids_of C \<longrightarrow> currentTerm (cl_node c i) \<le> currentTerm (cl_node c g)))"
proof -
  have inv: "einv (cluster_decides C) (abs_cluster C c)"
    using reachable_inv [OF assms(1-3)] by blast
  have "(currentTerm (cl_node c i), i) \<in> cl_won c"
    using einvD(13) [OF inv, of i] assms(4,5) by (simp add: abs_node enode_of_def)
  then obtain G where "cluster_decides C G"
    "\<forall>g \<in> G. (g, currentTerm (cl_node c i), i) \<in> cl_votes c"
    using einvD(8) [OF inv, unfolded abs_sel] by blast
  moreover have "t \<le> currentTerm (cl_node c g)" if "(g, t, l) \<in> cl_votes c" "g \<in> ids_of C" for g t l
    using einvD(1) [OF inv, of g t l] that by (simp add: abs_node enode_of_def)
  ultimately show ?thesis
    by (intro exI [of _ G]) (auto simp: cluster_decides_def)
qed

lemma leader_has_majority_witness:
  "\<exists>G. majority \<lparr>cfg_nodes = trio\<rparr> G \<and> (\<lambda>g. (g, 1, 1)) ` G \<subseteq> cl_votes elected_cluster"
proof -
  have l: "nstate (cl_node elected_cluster 1) = LEADER" "currentTerm (cl_node elected_cluster 1) = 1"
    unfolding elected_cluster_def by (simp, code_simp)+
  show ?thesis
    using leader_has_majority [OF trio_valid(1,3) trio_elects _ l(1)] l(2) trio_valid(2) by fastforce
qed

text \<open>C4: A vote is not given twice: in every reachable state, over all crashes and restarts, a node that
  voted for others in a term voted for one candidate only, and a candidate that won in a term got
  all the votes of its own in that term.\<close>

theorem votes_are_kept:
  assumes "config_valid C" and "cluster_init C L c0" and "(cstep C L)\<^sup>*\<^sup>* c0 c"
  shows "(\<forall>v t a b. (v, t, a) \<in> cl_votes c \<and> (v, t, b) \<in> cl_votes c \<and> a \<noteq> v \<and> b \<noteq> v \<longrightarrow> a = b) \<and>
    (\<forall>l t a. (t, l) \<in> cl_won c \<and> (l, t, a) \<in> cl_votes c \<longrightarrow> a = l)"
proof -
  have inv: "einv (cluster_decides C) (abs_cluster C c)"
    using reachable_inv [OF assms] by blast
  show ?thesis
    using einvD(3,11) [OF inv] by auto
qed

lemma votes_are_kept_witness:
  "{a. (2, 1, a) \<in> cl_votes elected_cluster \<and> a \<noteq> 2} = {1}"
proof -
  have v: "(2, 1, 1) \<in> cl_votes elected_cluster"
    by (simp add: elected_cluster_def)
  have "a = 1" if "(2, 1, a) \<in> cl_votes elected_cluster" "a \<noteq> 2" for a
    using votes_are_kept [OF trio_valid(1,3) trio_elects, THEN conjunct1, rule_format, of 2 1 a 1] v that
    by simp
  with v show ?thesis by auto
qed

text \<open>C5: A term and an index identify an entry: in every reachable state any two entries with the same term
  and index, in the logs of any two nodes, are the same entry, although followers overwrite their
  logs, messages are repeated and reordered, logs are compacted and nodes crash and restart.\<close>

theorem entries_identified:
  assumes "config_valid C" and "cluster_init C L c0" and "(cstep C L)\<^sup>*\<^sup>* c0 c"
    and "i \<in> ids_of C" and "j \<in> ids_of C"
    and "e \<in> set (logs (cl_node c i))" and "f \<in> set (logs (cl_node c j))"
    and "le_term e = le_term f" and "le_index e = le_index f"
  shows "e = f"
  using assms by (rule entry_identity_aux)

lemma entries_identified_witness:
  "logs (cl_node written_cluster 1) = [first_entry] \<and> logs (cl_node written_cluster 2) = [first_entry] \<and>
   (\<forall>e. \<not> (e \<in> set (logs (cl_node written_cluster 2)) \<and> le_term e = 1 \<and> le_index e = 1 \<and> e \<noteq> first_entry))"
proof -
  have l: "logs (cl_node written_cluster 1) = [first_entry]" "logs (cl_node written_cluster 2) = [first_entry]"
    by (simp_all add: written_cluster_def set_node_def written_logs)
  have i: "1 \<in> ids_of trio" "2 \<in> ids_of trio" by (simp_all add: trio_valid(2))
  have t: "le_term first_entry = 1" "le_index first_entry = 1"
    by (simp_all add: first_entry_def mk_LogEntry_def)
  have "first_entry \<in> set (logs (cl_node written_cluster 1))" by (simp add: l)
  from entries_identified [OF trio_valid(1,3) trio_writes i this] t l show ?thesis by auto
qed

text \<open>C38: Log matching: in every state reached by an orderly run, two logs whose terms agree at an index hold
  the same entries at every index up to it that is above the snapshots of both. A run is orderly when
  every AppendEntries message in the network numbers its entries from \<open>prevLogIndex\<close> on, and a
  snapshot that is installed contradicts nothing the node keeps: the code checks neither
  (\<open>message_after_compaction_has_gap\<close>, \<open>snapshot_keeps_foreign_suffix\<close>).\<close>

theorem log_matching:
  assumes "config_valid C" and "cluster_init C L c0" and "(orderly C L)\<^sup>*\<^sup>* c0 c"
    and "i \<in> ids_of C" and "j \<in> ids_of C"
    and "n \<le> getLastLogIndex (cl_node c i)" and "n \<le> getLastLogIndex (cl_node c j)"
    and "getLogTermAt n (cl_node c i) = getLogTermAt n (cl_node c j)"
    and "lastIncludedIndex (cl_node c i) < m" and "lastIncludedIndex (cl_node c j) < m" and "m \<le> n"
  shows "logs (cl_node c i) ! nat (logIndexToPos m (cl_node c i)) =
    logs (cl_node c j) ! nat (logIndexToPos m (cl_node c j))"
  using assms by (rule log_matching_aux)

lemma log_matching_witness:
  "getLogTermAt 1 wrote_a = getLogTermAt 1 copier_b \<and>
   logs wrote_a ! nat (logIndexToPos 1 wrote_a) = logs copier_b ! nat (logIndexToPos 1 copier_b)"
proof -
  have n: "cl_node written_cluster 1 = wrote_a" "cl_node written_cluster 2 = copier_b"
    by (simp_all add: written_cluster_def set_node_def)
  have i: "1 \<in> ids_of trio" "2 \<in> ids_of trio" by (simp_all add: trio_valid(2))
  have "1 \<le> getLastLogIndex wrote_a" "1 \<le> getLastLogIndex copier_b" "getLogTermAt 1 wrote_a = getLogTermAt 1 copier_b"
    "lastIncludedIndex wrote_a < 1" "lastIncludedIndex copier_b < 1"
    by code_simp+
  with log_matching [OF trio_valid(1,3) trio_writes_orderly i, of 1 1] show ?thesis
    by (simp add: n)
qed

end
